(* ===== verification/Prelude.thy ===== *)
theory Prelude
  imports "HOL-Library.Word"
begin

text \<open>
  What every component of the transaction system shares.

  \<^item> C types: \<open>uint32_t\<close>, \<open>unsigned int\<close>, \<open>int\<close> and \<open>int32_t\<close> are all \<open>32 word\<close>; a
    signed reading is written \<open>sint\<close>, so that every conversion between \<open>int\<close> and
    \<open>uint32_t\<close> the code makes is the identity on the bits, as it is in gcc.
  \<^item> How a process stops: \<^verbatim>\<open>exit\<close>, a failed \<^verbatim>\<open>assert\<close>, a fault on a null pointer, or
    behaviour the C standard leaves undefined, as the values of \<open>halt\<close>. A handler yields
    an \<open>outcome\<close>: it is still running, or it has stopped and left the state it had reached
    (the part of it that lives in mapped files survives the process).
  \<^item> \<^verbatim>\<open>char[N]\<close> buffers as lists of \<open>N\<close> characters, with \<^verbatim>\<open>strcpy\<close> and \<^verbatim>\<open>strncpy\<close>.
  \<^item> Linear search through a C array, the loop shape most of the code is made of.
  \<^item> Machines: runs of a step function, and the locale that lifts a step invariant to runs.
\<close>

unbundle bit_operations_syntax

section \<open>Machine integers\<close>

type_synonym u16 = "16 word"
type_synonym u32 = "32 word"

text \<open>\<^verbatim>\<open>htonl\<close>/\<^verbatim>\<open>ntohl\<close> and \<^verbatim>\<open>htons\<close>/\<^verbatim>\<open>ntohs\<close> on a little-endian host: byte reversal.\<close>

definition htonl :: "u32 \<Rightarrow> u32" where
  "htonl x = push_bit 24 (x AND 0xFF) OR push_bit 8 (x AND 0xFF00)
     OR (drop_bit 8 x AND 0xFF00) OR (drop_bit 24 x AND 0xFF)"

definition ntohl :: "u32 \<Rightarrow> u32" where
  "ntohl = htonl"

definition htons :: "u16 \<Rightarrow> u16" where
  "htons x = push_bit 8 (x AND 0xFF) OR (drop_bit 8 x AND 0xFF)"

definition ntohs :: "u16 \<Rightarrow> u16" where
  "ntohs = htons"

lemma less_32_cases:
  "n < (32::nat) \<Longrightarrow> n \<in> {0,1,2,3,4,5,6,7,8,9,10,11,12,13,14,15,
     16,17,18,19,20,21,22,23,24,25,26,27,28,29,30,31}"
  by (simp add: numeral_eq_Suc less_Suc_eq)

lemma ntohl_htonl [simp]: "ntohl (htonl x) = x"
proof (rule bit_word_eqI)
  fix n assume "n < LENGTH(32)"
  then have "n < 32" by simp
  then show "bit (ntohl (htonl x)) n = bit x n"
    by (drule_tac less_32_cases, elim insertE emptyE)
      (simp_all add: ntohl_def htonl_def bit_simps)
qed

lemma htonl_ntohl [simp]: "htonl (ntohl x) = x"
  using ntohl_htonl by (simp add: ntohl_def)

lemma htonl_inject [simp]: "htonl x = htonl y \<longleftrightarrow> x = y"
  by (metis ntohl_htonl)

lemma ntohs_htons [simp]: "ntohs (htons x) = x"
proof (rule bit_word_eqI)
  fix n assume "n < LENGTH(16)"
  then have "n < 16" and "n < 32" by simp_all
  then show "bit (ntohs (htons x)) n = bit x n"
    by (drule_tac less_32_cases, elim insertE emptyE)
      (simp_all add: ntohs_def htons_def bit_simps)
qed

lemma htons_ntohs [simp]: "htons (ntohs x) = x"
  using ntohs_htons by (simp add: ntohs_def)

text \<open>A non-negative \<^verbatim>\<open>int\<close> and the \<^verbatim>\<open>uint32_t\<close> with the same bits have the same value.\<close>

lemma sint_small: "unat w < 2 ^ 31 \<Longrightarrow> sint (w :: u32) = int (unat w)"
proof -
  assume "unat w < 2 ^ 31"
  then have "int (unat w) < 2 ^ 31" by (metis of_nat_less_iff of_nat_numeral of_nat_power)
  moreover have "sint w = signed_take_bit 31 (int (unat w))"
    by (simp only: sint_uint uint_nat) simp
  ultimately show ?thesis by (metis signed_take_bit_int_eq_self of_nat_0_le_iff neg_le_0_iff_le
      zero_le_numeral zero_le_power order_trans)
qed

lemma unat_of_nat_small: "n < 2 ^ 32 \<Longrightarrow> unat (of_nat n :: u32) = n"
  unfolding unat_of_nat by (rule mod_less) simp

lemma unat_less_u32: "unat (w :: u32) < 2 ^ 32"
  using unsigned_less [of w] by simp

lemma unat_Suc_small: "unat w + 1 < 2 ^ 32 \<Longrightarrow> unat (w + 1 :: u32) = Suc (unat w)"
  by (simp add: unat_word_ariths)

section \<open>How a process stops, and what it leaves\<close>

datatype halt =
    Exit int       \<comment> \<open>\<^verbatim>\<open>exit(n)\<close>\<close>
  | AssertFail     \<comment> \<open>a failed \<^verbatim>\<open>assert\<close>\<close>
  | SegFault       \<comment> \<open>an access where no memory is mapped, by a null pointer in most cases\<close>
  | Undef          \<comment> \<open>undefined behaviour: a buffer is overrun\<close>

datatype 's outcome = Running 's | Halted halt 's

primrec final :: "'s outcome \<Rightarrow> 's" where
  "final (Running s) = s"
| "final (Halted h s) = s"

primrec running :: "'s outcome \<Rightarrow> bool" where
  "running (Running s) = True"
| "running (Halted h s) = False"

text \<open>Sequencing: what follows runs only if the process is still there.\<close>

primrec bnd :: "'s outcome \<Rightarrow> ('s \<Rightarrow> 's outcome) \<Rightarrow> 's outcome" where
  "bnd (Running s) f = f s"
| "bnd (Halted h s) f = Halted h s"

text \<open>A library call that either stops the process in state \<open>s\<close> or returns a value.\<close>

definition attempt :: "halt + 'a \<Rightarrow> 's \<Rightarrow> ('a \<Rightarrow> 's outcome) \<Rightarrow> 's outcome" where
  "attempt r s k = (case r of Inl h \<Rightarrow> Halted h s | Inr a \<Rightarrow> k a)"

named_theorems outcome_simps \<open>unfolding of the sequencing of handlers\<close>

lemma attempt_Inl [simp, outcome_simps]: "attempt (Inl h) s k = Halted h s"
  by (simp add: attempt_def)

lemma attempt_Inr [simp, outcome_simps]: "attempt (Inr a) s k = k a"
  by (simp add: attempt_def)

lemma attempt_split:
  "P (attempt r s k) \<longleftrightarrow> (\<forall>h. r = Inl h \<longrightarrow> P (Halted h s)) \<and> (\<forall>a. r = Inr a \<longrightarrow> P (k a))"
  by (cases r) simp_all

lemma final_map_outcome [simp]: "final (map_outcome f m) = f (final m)"
  by (cases m) simp_all

lemma running_map_outcome [simp]: "running (map_outcome f m) = running m"
  by (cases m) simp_all

lemma bnd_Running_right [simp]: "bnd m Running = m"
  by (cases m) simp_all

lemma bnd_assoc [simp]: "bnd (bnd m f) g = bnd m (\<lambda>s. bnd (f s) g)"
  by (cases m) simp_all

lemma running_iff: "running m \<longleftrightarrow> m = Running (final m)"
  by (cases m) simp_all

lemma running_bnd: "running (bnd m f) \<longleftrightarrow> running m \<and> running (f (final m))"
  by (cases m) simp_all

lemma bnd_eq_Running:
  "bnd m f = Running t \<longleftrightarrow> (\<exists>s. m = Running s \<and> f s = Running t)"
  by (cases m) simp_all

lemma attempt_eq_Halted:
  "attempt r s f = Halted h t \<longleftrightarrow> r = Inl h \<and> t = s \<or> (\<exists>x. r = Inr x \<and> f x = Halted h t)"
  by (auto simp: attempt_def split: sum.split)

lemma attempt_eq_Running:
  "attempt r s k = Running t \<longleftrightarrow> (\<exists>a. r = Inr a \<and> k a = Running t)"
  by (cases r) simp_all

text \<open>
  A Hoare-style postcondition with two parts: \<open>P\<close> for a process that goes on, \<open>Q\<close> for what
  a stopped process has left.
\<close>

primrec ensures :: "('s \<Rightarrow> bool) \<Rightarrow> ('s \<Rightarrow> bool) \<Rightarrow> 's outcome \<Rightarrow> bool" where
  "ensures P Q (Running s) = P s"
| "ensures P Q (Halted h s) = Q s"

lemma ensures_bnd:
  assumes "ensures R Q m" and "\<And>s. R s \<Longrightarrow> ensures P Q (f s)"
  shows "ensures P Q (bnd m f)"
  using assms by (cases m) simp_all

lemma ensures_attempt:
  assumes "\<And>h. r = Inl h \<Longrightarrow> Q s" and "\<And>a. r = Inr a \<Longrightarrow> ensures P Q (k a)"
  shows "ensures P Q (attempt r s k)"
  using assms by (cases r) simp_all

lemma ensures_mono:
  "ensures P Q m \<Longrightarrow> (\<And>s. P s \<Longrightarrow> P' s) \<Longrightarrow> (\<And>s. Q s \<Longrightarrow> Q' s) \<Longrightarrow> ensures P' Q' m"
  by (cases m) simp_all

lemma ensures_final: "P (final m) \<Longrightarrow> (\<And>s. P s \<Longrightarrow> Q s) \<Longrightarrow> ensures P Q m"
  by (cases m) simp_all

lemma ensures_running: "ensures P Q m \<Longrightarrow> m = Running s \<Longrightarrow> P s"
  by simp

lemma final_bndI:
  assumes "P (final m)" and "\<And>s. m = Running s \<Longrightarrow> P s \<Longrightarrow> P (final (f s))"
  shows "P (final (bnd m f))"
  using assms by (cases m) simp_all

lemma final_attemptI:
  assumes "P s" and "\<And>a. r = Inr a \<Longrightarrow> P (final (k a))"
  shows "P (final (attempt r s k))"
  using assms by (cases r) simp_all

section \<open>Character buffers\<close>

abbreviation NUL :: char where
  "NUL \<equiv> CHR 0x00"

text \<open>The contents of a string buffer: what precedes its first NUL.\<close>

definition cstr :: "char list \<Rightarrow> char list" where
  "cstr s = takeWhile (\<lambda>c. c \<noteq> NUL) s"

text \<open>A string literal as the array the compiler lays out.\<close>

definition lit :: "string \<Rightarrow> char list" where
  "lit s = s @ [NUL]"

definition terminated :: "char list \<Rightarrow> bool" where
  "terminated s \<longleftrightarrow> NUL \<in> set s"

text \<open>
  \<^verbatim>\<open>strcpy(dst, src)\<close> writes the characters of \<open>src\<close> up to and including its NUL. An
  unterminated source is read past its end and a long one is written past the end of
  \<open>dst\<close>: both are undefined.
\<close>

definition strcpy :: "char list \<Rightarrow> char list \<Rightarrow> halt + char list" where
  "strcpy dst src =
     (if terminated src \<and> length (cstr src) < length dst
      then Inr (cstr src @ [NUL] @ drop (Suc (length (cstr src))) dst)
      else Inl Undef)"

text \<open>\<^verbatim>\<open>strncpy(dst, src, n)\<close> copies at most \<open>n\<close> characters and pads with NUL; it does
  not terminate a source of \<open>n\<close> characters or more.\<close>

definition strncpy :: "char list \<Rightarrow> char list \<Rightarrow> nat \<Rightarrow> char list" where
  "strncpy dst src n =
     (let s = take n (cstr src) in s @ replicate (n - length s) NUL @ drop n dst)"

lemma cstr_append_NUL [simp]: "NUL \<notin> set s \<Longrightarrow> cstr (s @ NUL # t) = s"
  by (induction s) (auto simp: cstr_def)

lemma cstr_no_NUL [simp]: "NUL \<notin> set s \<Longrightarrow> cstr s = s"
  by (induction s) (auto simp: cstr_def)

lemma cstr_lit [simp]: "NUL \<notin> set s \<Longrightarrow> cstr (lit s) = s"
  by (simp add: lit_def)

lemma terminated_lit [simp]: "terminated (lit s)"
  by (simp add: terminated_def lit_def)

lemma NUL_notin_cstr [simp]: "NUL \<notin> set (cstr s)"
  by (auto simp: cstr_def dest: set_takeWhileD)

lemma length_cstr_le: "length (cstr s) \<le> length s"
  by (simp add: cstr_def length_takeWhile_le)

lemma length_cstr_less: "terminated s \<Longrightarrow> length (cstr s) < length s"
  by (induction s) (auto simp: terminated_def cstr_def)

lemma strcpy_ok:
  assumes "terminated src" and "length (cstr src) < length dst"
  shows "\<exists>d. strcpy dst src = Inr d \<and> cstr d = cstr src \<and> length d = length dst \<and> terminated d"
  using assms by (auto simp: strcpy_def terminated_def)

lemma strcpy_Inr:
  "strcpy dst src = Inr d \<Longrightarrow>
     cstr d = cstr src \<and> length d = length dst \<and> terminated d \<and> terminated src"
  by (auto simp: strcpy_def terminated_def split: if_splits)

lemma length_strncpy [simp]: "n \<le> length dst \<Longrightarrow> length (strncpy dst src n) = length dst"
  by (simp add: strncpy_def Let_def)

lemma cstr_replicate_NUL [simp]: "cstr (replicate n NUL) = []"
  by (cases n) (simp_all add: cstr_def)

lemma cstr_strncpy:
  assumes "length (cstr src) < n"
  shows "cstr (strncpy dst src n) = cstr src"
proof -
  obtain m where "n - length (cstr src) = Suc m"
    using assms by (metis Suc_diff_Suc)
  then show ?thesis using assms by (simp add: strncpy_def)
qed

lemma terminated_strncpy: "length (cstr src) < n \<Longrightarrow> terminated (strncpy dst src n)"
  by (simp add: strncpy_def terminated_def Let_def)

lemma not_terminated_strncpy:
  "n \<le> length (cstr src) \<Longrightarrow> length dst = n \<Longrightarrow> \<not> terminated (strncpy dst src n)"
  using NUL_notin_cstr by (auto simp: strncpy_def terminated_def dest: in_set_takeD)

section \<open>Linear search\<close>

text \<open>\<^verbatim>\<open>for (i = 0; i < N; i++) if (P(a[i])) ...\<close>: the first index that satisfies the test.\<close>

fun first_index :: "('a \<Rightarrow> bool) \<Rightarrow> 'a list \<Rightarrow> nat option" where
  "first_index P [] = None"
| "first_index P (x # xs) = (if P x then Some 0 else map_option Suc (first_index P xs))"

lemma first_index_None: "first_index P xs = None \<longleftrightarrow> (\<forall>x \<in> set xs. \<not> P x)"
  by (induction xs) auto

lemma first_index_SomeD:
  "first_index P xs = Some i \<Longrightarrow> i < length xs \<and> P (xs ! i) \<and> (\<forall>j < i. \<not> P (xs ! j))"
proof (induction xs arbitrary: i)
  case (Cons x xs)
  show ?case
  proof (cases "P x")
    case False
    with Cons.prems obtain k where k: "first_index P xs = Some k" "i = Suc k" by auto
    with Cons.IH [of k] False show ?thesis by (auto simp: less_Suc_eq_0_disj)
  qed (use Cons.prems in auto)
qed simp

lemma first_index_less: "first_index P xs = Some i \<Longrightarrow> i < length xs"
  by (simp add: first_index_SomeD)

lemma first_index_holds: "first_index P xs = Some i \<Longrightarrow> P (xs ! i)"
  by (simp add: first_index_SomeD)

lemma first_index_exists: "x \<in> set xs \<Longrightarrow> P x \<Longrightarrow> \<exists>i. first_index P xs = Some i"
  by (induction xs) auto

lemma find_SomeD: "find P xs = Some x \<Longrightarrow> x \<in> set xs \<and> P x"
  by (induction xs) (auto split: if_splits)

lemma find_eq_None: "find P xs = None \<longleftrightarrow> (\<forall>x \<in> set xs. \<not> P x)"
  by (induction xs) auto

lemma in_set_drop: "x \<in> set (drop i xs) \<longleftrightarrow> (\<exists>j. i \<le> j \<and> j < length xs \<and> xs ! j = x)"
proof
  assume "x \<in> set (drop i xs)"
  then obtain k where "k < length xs - i" "xs ! (i + k) = x"
    by (auto simp: in_set_conv_nth)
  then show "\<exists>j. i \<le> j \<and> j < length xs \<and> xs ! j = x" by (intro exI [where x = "i + k"]) auto
next
  assume "\<exists>j. i \<le> j \<and> j < length xs \<and> xs ! j = x"
  then obtain j where "i \<le> j" "j < length xs" "xs ! j = x" by blast
  then show "x \<in> set (drop i xs)"
    by (auto simp: in_set_conv_nth intro!: exI [where x = "j - i"])
qed

text \<open>Two positions of a list without repetition among the elements that satisfy \<open>P\<close>.\<close>

lemma distinct_filter_nth_neq:
  "distinct (filter P xs) \<Longrightarrow> i < length xs \<Longrightarrow> j < length xs \<Longrightarrow> i \<noteq> j \<Longrightarrow> P (xs ! i) \<Longrightarrow>
     xs ! i \<noteq> xs ! j"
proof (induction xs arbitrary: i j)
  case (Cons x xs)
  then show ?case by (cases i; cases j) (auto split: if_splits simp: in_set_conv_nth)
qed simp

text \<open>Indices counted from an offset, as in a loop that carries its index along.\<close>

lemma shift_index_0 [simp]: "map_option ((+) (0::nat)) x = x"
  by (cases x) simp_all

lemma shift_index_Suc [simp]:
  "map_option ((+) (Suc j)) x = map_option (\<lambda>i. Suc (j + i)) x"
  by (cases x) simp_all

section \<open>Machines\<close>

fun run_machine :: "('e \<Rightarrow> 's \<Rightarrow> 's outcome) \<Rightarrow> 'e list \<Rightarrow> 's \<Rightarrow> 's outcome" where
  "run_machine step [] s = Running s"
| "run_machine step (e # es) s = bnd (step e s) (run_machine step es)"

lemma run_machine_Nil [simp]: "run_machine step [] = Running"
  by (rule ext) simp

lemma run_machine_append:
  "run_machine step (es @ fs) s = bnd (run_machine step es s) (run_machine step fs)"
proof (induction es arbitrary: s)
  case (Cons e es)
  then show ?case by (cases "step e s") simp_all
qed simp

text \<open>A run every event of which is acceptable in the state it meets.\<close>

fun admissible :: "('e \<Rightarrow> 's \<Rightarrow> bool) \<Rightarrow> ('e \<Rightarrow> 's \<Rightarrow> 's outcome) \<Rightarrow> 'e list \<Rightarrow> 's \<Rightarrow> bool" where
  "admissible acc step [] s = True"
| "admissible acc step (e # es) s =
     (acc e s \<and> (case step e s of Running t \<Rightarrow> admissible acc step es t | Halted h t \<Rightarrow> True))"

text \<open>
  The logs grow and their counters are finite, so an invariant carries a budget: \<open>inv n s\<close>
  leaves room for \<open>n\<close> more steps. An acceptable run that fits into the budget keeps the
  invariant; if the process stops on the way, it has left a durable state.
\<close>

locale guarded_machine =
  fixes step :: "'e \<Rightarrow> 's \<Rightarrow> 's outcome"
    and acc :: "'e \<Rightarrow> 's \<Rightarrow> bool"
    and inv :: "nat \<Rightarrow> 's \<Rightarrow> bool"
    and durable :: "'s \<Rightarrow> bool"
  assumes step_inv: "acc e s \<Longrightarrow> inv (Suc n) s \<Longrightarrow> ensures (inv n) durable (step e s)"
begin

lemma run_inv:
  "inv (n + length es) s \<Longrightarrow> admissible acc step es s \<Longrightarrow>
     ensures (inv n) durable (run_machine step es s)"
proof (induction es arbitrary: s)
  case (Cons e es)
  then have "ensures (inv (n + length es)) durable (step e s)" by (simp add: step_inv)
  with Cons show ?case by (cases "step e s") simp_all
qed simp

end

text \<open>
  Refinement of an abstract transition system: every acceptable step of the machine, also one
  that stops the process, is at most one step of the specification.
\<close>

locale simulation = guarded_machine step acc inv durable
  for step :: "'e \<Rightarrow> 's \<Rightarrow> 's outcome" and acc inv durable +
  fixes abs :: "'s \<Rightarrow> 'a"
    and spec :: "'a \<Rightarrow> 'a \<Rightarrow> bool"
  assumes sim: "acc e s \<Longrightarrow> inv (Suc n) s \<Longrightarrow> spec\<^sup>=\<^sup>= (abs s) (abs (final (step e s)))"
begin

lemma run_sim:
  "inv (n + length es) s \<Longrightarrow> admissible acc step es s \<Longrightarrow> spec\<^sup>*\<^sup>* (abs s) (abs (final (run_machine step es s)))"
proof (induction es arbitrary: s)
  case (Cons e es)
  have one: "spec\<^sup>*\<^sup>* (abs s) (abs (final (step e s)))"
    using sim [of e s "n + length es"] Cons.prems by (auto elim!: sup2E)
  show ?case
  proof (cases "step e s")
    case (Running t)
    have "ensures (inv (n + length es)) durable (step e s)" using Cons.prems by (simp add: step_inv)
    then show ?thesis using one Cons Running by (auto intro: rtranclp_trans)
  qed (use one in simp)
qed simp

end

end
