(* ===== verification/VClock.thy ===== *)
theory VClock
  imports Prelude
begin

text \<open>
  Vector clocks, \<^verbatim>\<open>src/common.c\<close> and \<^verbatim>\<open>src/common.h\<close>. A clock is a C array of
  \<open>MAX_NODES\<close> slots; a slot whose \<open>nodeId\<close> is 0 is free. The operations follow the
  loops of the source; \<open>vc_lookup\<close> reads a clock as a partial map from node ids to times
  and the lemmas state each operation as an operation on that map. The locale
  \<open>clock_iface\<close> is what the manager and the worker rely on when a message arrives.
\<close>

section \<open>Data and operations\<close>

definition MAX_NODES :: nat where
  [simp]: "MAX_NODES = 10"

record vclock_t =
  nodeId :: u32
  time :: u32

definition zero_slot :: vclock_t where
  "zero_slot = \<lparr>nodeId = 0, time = 0\<rparr>"

definition zero_clock :: "vclock_t list" where
  "zero_clock = replicate MAX_NODES zero_slot"

text \<open>\<^verbatim>\<open>memset(vclock, 0, sizeof(vclock_t))\<close>: only the first slot is cleared.\<close>

definition vclock_init :: "vclock_t list \<Rightarrow> vclock_t list" where
  "vclock_init vclock = vclock[0 := zero_slot]"

text \<open>
  The inner loop of \<^verbatim>\<open>vclock_update\<close>: from slot \<open>j\<close> on, remember the first free slot and
  stop at the slot of node \<open>other\<close>. The two results are \<^verbatim>\<open>firstEmpty\<close> and \<^verbatim>\<open>index\<close>,
  with \<open>None\<close> for \<open>-1\<close>.
\<close>

fun vclock_scan :: "u32 \<Rightarrow> nat \<Rightarrow> nat option \<Rightarrow> vclock_t list \<Rightarrow> nat option \<times> nat option" where
  "vclock_scan other j firstEmpty [] = (firstEmpty, None)"
| "vclock_scan other j firstEmpty (c # cs) =
     (let fe = (if nodeId c = 0 \<and> firstEmpty = None then Some j else firstEmpty)
      in if nodeId c = other then (fe, Some j) else vclock_scan other (Suc j) fe cs)"

definition vclock_update1 :: "u32 \<Rightarrow> vclock_t list \<Rightarrow> vclock_t \<Rightarrow> vclock_t list" where
  "vclock_update1 my_id mine other =
     (if nodeId other = 0 \<or> nodeId other = my_id then mine
      else (case vclock_scan (nodeId other) 0 None mine of
          (_, Some index) \<Rightarrow>
            if time (mine ! index) < time other
            then mine[index := (mine ! index)\<lparr>time := time other\<rparr>] else mine
        | (Some firstEmpty, None) \<Rightarrow> mine[firstEmpty := other]
        | (None, None) \<Rightarrow> mine))"

definition vclock_update :: "u32 \<Rightarrow> vclock_t list \<Rightarrow> vclock_t list \<Rightarrow> vclock_t list" where
  "vclock_update my_id mine other = foldl (vclock_update1 my_id) mine other"

definition vclock_increment :: "u32 \<Rightarrow> vclock_t list \<Rightarrow> halt + vclock_t list" where
  "vclock_increment my_id vclock =
     (case first_index (\<lambda>vc. nodeId vc = my_id) vclock of
        Some c \<Rightarrow> Inr (vclock[c := (vclock ! c)\<lparr>time := time (vclock ! c) + 1\<rparr>])
      | None \<Rightarrow> Inl (Exit 1))"

definition vclock_has :: "vclock_t list \<Rightarrow> u32 \<Rightarrow> bool" where
  "vclock_has vclock node = (first_index (\<lambda>vc. nodeId vc = node) vclock \<noteq> None)"

definition vclock_add :: "vclock_t list \<Rightarrow> u32 \<Rightarrow> halt + vclock_t list" where
  "vclock_add vclock node =
     (case first_index (\<lambda>vc. nodeId vc = 0) vclock of
        Some c \<Rightarrow> Inr (vclock[c := \<lparr>nodeId = node, time = 1\<rparr>])
      | None \<Rightarrow> Inl (Exit 1))"

section \<open>A clock as a map\<close>

fun vc_lookup :: "vclock_t list \<Rightarrow> u32 \<Rightarrow> u32 option" where
  "vc_lookup [] node = None"
| "vc_lookup (c # cs) node =
     (if nodeId c = node \<and> node \<noteq> 0 then Some (time c) else vc_lookup cs node)"

definition vc_ids :: "vclock_t list \<Rightarrow> u32 set" where
  "vc_ids vs = nodeId ` set vs - {0}"

text \<open>Well-formed: ten slots, no node in two of them.\<close>

definition vc_wf :: "vclock_t list \<Rightarrow> bool" where
  "vc_wf vs \<longleftrightarrow> length vs = MAX_NODES \<and> distinct (filter (\<lambda>i. i \<noteq> 0) (map nodeId vs))"

text \<open>The later of two readings of one node's time.\<close>

fun later :: "u32 option \<Rightarrow> u32 option \<Rightarrow> u32 option" where
  "later None y = y"
| "later x None = x"
| "later (Some s) (Some t) = Some (max s t)"

definition no_later :: "u32 option \<Rightarrow> u32 option \<Rightarrow> bool" where
  "no_later x y \<longleftrightarrow> (\<forall>s. x = Some s \<longrightarrow> (\<exists>t. y = Some t \<and> s \<le> t))"

lemma no_later_refl [simp]: "no_later x x"
  by (simp add: no_later_def)

lemma no_later_trans: "no_later x y \<Longrightarrow> no_later y z \<Longrightarrow> no_later x z"
  by (fastforce simp: no_later_def)

lemma no_later_later [simp]: "no_later x (later x y)"
  by (cases x; cases y) (auto simp: no_later_def)

lemma vc_lookup_0 [simp]: "vc_lookup vs 0 = None"
  by (induction vs) auto

lemma vc_lookup_eq_None: "vc_lookup vs node = None \<longleftrightarrow> node \<notin> vc_ids vs"
  by (induction vs) (auto simp: vc_ids_def)

lemma vc_lookup_first_index:
  "node \<noteq> 0 \<Longrightarrow> vc_lookup vs node =
     map_option (\<lambda>i. time (vs ! i)) (first_index (\<lambda>c. nodeId c = node) vs)"
  by (induction vs) (auto simp: option.map_comp o_def)

lemma vc_lookup_set_time:
  "first_index (\<lambda>c. nodeId c = node) vs = Some k \<Longrightarrow> node \<noteq> 0 \<Longrightarrow>
     vc_lookup (vs[k := (vs ! k)\<lparr>time := t\<rparr>]) = (vc_lookup vs)(node \<mapsto> t)"
proof (induction vs arbitrary: k)
  case (Cons c cs)
  then show ?case by (cases "nodeId c = node") (auto simp: fun_eq_iff)
qed simp

lemma vc_lookup_fill:
  "first_index (\<lambda>c. nodeId c = 0) vs = Some k \<Longrightarrow> nodeId c' \<notin> vc_ids vs \<Longrightarrow> nodeId c' \<noteq> 0 \<Longrightarrow>
     vc_lookup (vs[k := c']) = (vc_lookup vs)(nodeId c' \<mapsto> time c')"
proof (induction vs arbitrary: k)
  case (Cons c cs)
  show ?case
  proof (cases "nodeId c = 0")
    case False
    with Cons.prems obtain k' where k': "first_index (\<lambda>c. nodeId c = 0) cs = Some k'" "k = Suc k'"
      by auto
    from Cons.prems have "nodeId c' \<notin> vc_ids cs" by (auto simp: vc_ids_def)
    then have "vc_lookup (cs[k' := c']) = (vc_lookup cs)(nodeId c' \<mapsto> time c')"
      using Cons k' by blast
    with Cons.prems k' False show ?thesis by (auto simp: fun_eq_iff vc_ids_def)
  qed (use Cons.prems in \<open>auto simp: fun_eq_iff\<close>)
qed simp

section \<open>The scan finds the node or the first free slot\<close>

lemma vclock_scan_index:
  "snd (vclock_scan node j fe vs) = map_option ((+) j) (first_index (\<lambda>c. nodeId c = node) vs)"
  by (induction vs arbitrary: j fe) (auto simp: Let_def option.map_comp o_def)

lemma vclock_scan_firstEmpty:
  "first_index (\<lambda>c. nodeId c = node) vs = None \<Longrightarrow>
     fst (vclock_scan node j fe vs) =
       (case fe of Some k \<Rightarrow> Some k
        | None \<Rightarrow> map_option ((+) j) (first_index (\<lambda>c. nodeId c = 0) vs))"
  by (induction vs arbitrary: j fe)
    (auto simp: Let_def option.map_comp o_def split: option.splits)

text \<open>One outer iteration of \<^verbatim>\<open>vclock_update\<close>, in terms of the two searches.\<close>

lemma vclock_update1_cases:
  assumes "nodeId c \<noteq> 0" and "nodeId c \<noteq> my"
  shows "vclock_update1 my vs c =
     (case first_index (\<lambda>d. nodeId d = nodeId c) vs of
        Some k \<Rightarrow> if time (vs ! k) < time c then vs[k := (vs ! k)\<lparr>time := time c\<rparr>] else vs
      | None \<Rightarrow> (case first_index (\<lambda>d. nodeId d = 0) vs of
          Some k \<Rightarrow> vs[k := c] | None \<Rightarrow> vs))"
proof -
  obtain fe ix where sc: "vclock_scan (nodeId c) 0 None vs = (fe, ix)" by fastforce
  then have ix: "ix = first_index (\<lambda>d. nodeId d = nodeId c) vs"
    using vclock_scan_index [of "nodeId c" 0 None vs] by simp
  have "ix = None \<Longrightarrow> fe = first_index (\<lambda>d. nodeId d = 0) vs"
    using vclock_scan_firstEmpty [of "nodeId c" vs 0 None] sc ix
    by simp
  with sc ix assms show ?thesis by (simp add: vclock_update1_def split: option.splits)
qed

lemma length_vclock_update1 [simp]: "length (vclock_update1 my vs c) = length vs"
  by (simp add: vclock_update1_def split: prod.splits option.splits)

lemma length_vclock_update [simp]: "length (vclock_update my vs cs) = length vs"
  unfolding vclock_update_def by (induction cs arbitrary: vs) simp_all

text \<open>A node can be recorded if it has a slot already or one is free.\<close>

definition has_room :: "vclock_t list \<Rightarrow> u32 \<Rightarrow> bool" where
  "has_room vs node \<longleftrightarrow> node \<in> vc_ids vs \<or> (\<exists>c \<in> set vs. nodeId c = 0)"

lemma vc_lookup_update1:
  assumes "nodeId c \<noteq> 0" and "nodeId c \<noteq> my" and "has_room vs (nodeId c)"
  shows "vc_lookup (vclock_update1 my vs c) =
     (vc_lookup vs)(nodeId c := later (vc_lookup vs (nodeId c)) (Some (time c)))"
proof (cases "first_index (\<lambda>d. nodeId d = nodeId c) vs")
  case (Some k)
  then have "vc_lookup vs (nodeId c) = Some (time (vs ! k))"
    using assms by (simp add: vc_lookup_first_index)
  with Some assms show ?thesis
    by (auto simp: vclock_update1_cases vc_lookup_set_time fun_eq_iff max_def)
next
  case None
  then have new: "nodeId c \<notin> vc_ids vs" by (auto simp: vc_ids_def first_index_None)
  with assms(3) obtain k where k: "first_index (\<lambda>d. nodeId d = 0) vs = Some k"
    by (auto simp: has_room_def dest: first_index_exists)
  from new have "vc_lookup vs (nodeId c) = None" by (simp add: vc_lookup_eq_None)
  with None k new assms show ?thesis
    by (simp add: vclock_update1_cases vc_lookup_fill)
qed

lemma vclock_update1_skip:
  "nodeId c = 0 \<or> nodeId c = my \<or> \<not> has_room vs (nodeId c) \<Longrightarrow> vclock_update1 my vs c = vs"
proof (elim disjE)
  assume full: "\<not> has_room vs (nodeId c)"
  show ?thesis
  proof (cases "nodeId c = 0 \<or> nodeId c = my")
    case False
    with full have "first_index (\<lambda>d. nodeId d = nodeId c) vs = None"
      and "first_index (\<lambda>d. nodeId d = 0) vs = None"
      by (auto simp: has_room_def vc_ids_def first_index_None image_iff)
    with False show ?thesis by (simp add: vclock_update1_cases)
  qed (auto simp: vclock_update1_def)
qed (simp_all add: vclock_update1_def)

section \<open>Well-formedness\<close>

lemma distinct_ids_fill:
  "distinct (filter (\<lambda>i. i \<noteq> 0) (map nodeId vs)) \<Longrightarrow> nodeId c \<notin> vc_ids vs \<Longrightarrow>
     first_index (\<lambda>d. nodeId d = 0) vs = Some k \<Longrightarrow>
     distinct (filter (\<lambda>i. i \<noteq> 0) (map nodeId (vs[k := c])))"
proof (induction vs arbitrary: k)
  case (Cons d ds)
  show ?case
  proof (cases "nodeId d = 0")
    case False
    with Cons.prems obtain k' where k': "first_index (\<lambda>d. nodeId d = 0) ds = Some k'" "k = Suc k'"
      by auto
    have "nodeId d \<notin> set (filter (\<lambda>i. i \<noteq> 0) (map nodeId (ds[k' := c])))"
      using Cons.prems False set_update_subset_insert [of ds k' c] by (auto simp: vc_ids_def)
    moreover have "distinct (filter (\<lambda>i. i \<noteq> 0) (map nodeId (ds[k' := c])))"
      using Cons False k' by (auto simp: vc_ids_def)
    ultimately show ?thesis using False k' by simp
  qed (use Cons.prems in \<open>auto simp: vc_ids_def\<close>)
qed simp

lemma vc_wf_fill:
  "vc_wf vs \<Longrightarrow> nodeId c \<notin> vc_ids vs \<Longrightarrow>
     first_index (\<lambda>d. nodeId d = 0) vs = Some k \<Longrightarrow> vc_wf (vs[k := c])"
  using distinct_ids_fill by (auto simp: vc_wf_def)

lemma map_nodeId_set_time [simp]: "map nodeId (vs[k := (vs ! k)\<lparr>time := t\<rparr>]) = map nodeId vs"
proof (cases "k < length vs")
  case True
  then show ?thesis by (intro nth_equalityI) (auto simp: nth_list_update)
qed (simp add: list_update_beyond)

lemma vc_wf_set_time [simp]: "vc_wf (vs[k := (vs ! k)\<lparr>time := t\<rparr>]) = vc_wf vs"
  by (simp add: vc_wf_def)

lemma vc_ids_set_time [simp]: "vc_ids (vs[k := (vs ! k)\<lparr>time := t\<rparr>]) = vc_ids vs"
  unfolding vc_ids_def by (metis list.set_map map_nodeId_set_time)

lemma vc_wf_zero_clock [simp]: "vc_wf zero_clock"
  by (simp add: vc_wf_def zero_clock_def zero_slot_def)

lemma vc_wf_update1: "vc_wf vs \<Longrightarrow> vc_wf (vclock_update1 my vs c)"
proof (cases "nodeId c = 0 \<or> nodeId c = my \<or> \<not> has_room vs (nodeId c)")
  case False
  assume wf: "vc_wf vs"
  from False have "nodeId c \<notin> vc_ids vs" if "first_index (\<lambda>d. nodeId d = nodeId c) vs = None"
    using that by (auto simp: vc_ids_def first_index_None)
  with False wf show ?thesis
    by (auto simp: vclock_update1_cases vc_wf_fill split: option.splits)
qed (simp add: vclock_update1_skip)

lemma vc_wf_update: "vc_wf vs \<Longrightarrow> vc_wf (vclock_update my vs cs)"
  unfolding vclock_update_def by (induction cs arbitrary: vs) (simp_all add: vc_wf_update1)

section \<open>Receiving a clock\<close>

lemma vc_lookup_update1_mono: "no_later (vc_lookup vs node) (vc_lookup (vclock_update1 my vs c) node)"
  by (cases "nodeId c = 0 \<or> nodeId c = my \<or> \<not> has_room vs (nodeId c)")
    (simp_all add: vclock_update1_skip vc_lookup_update1)

lemma vc_lookup_update_mono: "no_later (vc_lookup vs node) (vc_lookup (vclock_update my vs cs) node)"
  unfolding vclock_update_def
proof (induction cs arbitrary: vs)
  case (Cons c cs)
  show ?case
    using no_later_trans [OF vc_lookup_update1_mono Cons.IH] by simp
qed simp

lemma vc_lookup_update1_own [simp]: "vc_lookup (vclock_update1 my vs c) my = vc_lookup vs my"
  by (cases "nodeId c = 0 \<or> nodeId c = my \<or> \<not> has_room vs (nodeId c)")
    (auto simp: vclock_update1_skip vc_lookup_update1)

lemma vc_lookup_update_own [simp]: "vc_lookup (vclock_update my vs cs) my = vc_lookup vs my"
  unfolding vclock_update_def by (induction cs arbitrary: vs) simp_all

lemma finite_vc_ids [simp]: "finite (vc_ids vs)"
  by (simp add: vc_ids_def)

lemma vc_ids_dom: "vc_ids vs = dom (vc_lookup vs)"
  using vc_lookup_eq_None by (force simp: dom_def)

text \<open>A full clock has ten nodes, so fewer nodes leave a free slot.\<close>

lemma has_room_if_small:
  assumes "vc_wf vs" and "node \<notin> vc_ids vs" and "node \<noteq> 0" and "card (insert node (vc_ids vs)) \<le> MAX_NODES"
  shows "has_room vs node"
proof (rule ccontr)
  assume "\<not> has_room vs node"
  then have nz: "\<forall>c \<in> set vs. nodeId c \<noteq> 0" by (auto simp: has_room_def)
  then have "filter (\<lambda>i. i \<noteq> 0) (map nodeId vs) = map nodeId vs" by simp
  with assms(1) have "distinct (map nodeId vs)" "length vs = MAX_NODES" by (auto simp: vc_wf_def)
  then have "card (set (map nodeId vs)) = MAX_NODES" by (metis distinct_card length_map)
  moreover have "vc_ids vs = set (map nodeId vs)" using nz by (force simp: vc_ids_def)
  ultimately have "card (vc_ids vs) = MAX_NODES" by simp
  with assms show False by simp
qed

text \<open>
  The whole loop: when the two clocks together name at most ten nodes, every node's time
  becomes the later of the two readings, except the receiver's own, which is untouched.
\<close>

lemma vc_lookup_update:
  "vc_wf vs \<Longrightarrow> distinct (filter (\<lambda>i. i \<noteq> 0) (map nodeId cs)) \<Longrightarrow>
   card (vc_ids vs \<union> (vc_ids cs - {my})) \<le> MAX_NODES \<Longrightarrow>
     vc_lookup (vclock_update my vs cs) node =
       (if node = my then vc_lookup vs node else later (vc_lookup vs node) (vc_lookup cs node))"
  unfolding vclock_update_def
proof (induction cs arbitrary: vs)
  case Nil
  then show ?case by (cases "vc_lookup vs node") auto
next
  case (Cons c cs)
  let ?vs' = "vclock_update1 my vs c"
  have sub: "vc_ids cs \<subseteq> vc_ids (c # cs)" by (auto simp: vc_ids_def)
  show ?case
  proof (cases "nodeId c = 0 \<or> nodeId c = my")
    case True
    then have "vc_ids (c # cs) - {my} = vc_ids cs - {my}" by (auto simp: vc_ids_def)
    with True Cons.prems Cons.IH [of vs] show ?thesis
      by (auto simp: vclock_update1_skip split: if_splits)
  next
    case False
    have mem: "nodeId c \<in> vc_ids (c # cs) - {my}" using False by (auto simp: vc_ids_def)
    have bound: "card A \<le> MAX_NODES" if "A \<subseteq> vc_ids vs \<union> (vc_ids (c # cs) - {my})" for A
      using card_mono [OF _ that] Cons.prems(3) by simp
    have "card (insert (nodeId c) (vc_ids vs)) \<le> MAX_NODES"
      using mem by (intro bound) auto
    then have room: "has_room vs (nodeId c)"
      using has_room_if_small [OF Cons.prems(1), of "nodeId c"] False
      by (cases "nodeId c \<in> vc_ids vs") (simp_all add: has_room_def)
    have lk: "vc_lookup ?vs' =
        (vc_lookup vs)(nodeId c := later (vc_lookup vs (nodeId c)) (Some (time c)))"
      using False room by (simp add: vc_lookup_update1)
    have ids: "vc_ids ?vs' = insert (nodeId c) (vc_ids vs)"
      by (cases "vc_lookup vs (nodeId c)") (auto simp: vc_ids_dom lk)
    have fresh: "vc_lookup cs (nodeId c) = None"
      using Cons.prems(2) False by (auto simp: vc_lookup_eq_None vc_ids_def)
    have "card (vc_ids ?vs' \<union> (vc_ids cs - {my})) \<le> MAX_NODES"
      using ids mem sub by (intro bound) auto
    then have "vc_lookup (foldl (vclock_update1 my) ?vs' cs) node =
        (if node = my then vc_lookup ?vs' node else later (vc_lookup ?vs' node) (vc_lookup cs node))"
      using Cons.IH [of ?vs'] Cons.prems by (simp add: vc_wf_update1 split: if_splits)
    then show ?thesis
      using False fresh lk by (cases "vc_lookup vs (nodeId c)") (auto split: if_splits)
  qed
qed

section \<open>Ticking and starting a clock\<close>

lemma vclock_increment_Some:
  assumes "vc_lookup vs node = Some t"
  shows "\<exists>vs'. vclock_increment node vs = Inr vs' \<and> length vs' = length vs \<and>
     (vc_wf vs \<longrightarrow> vc_wf vs') \<and> vc_ids vs' = vc_ids vs \<and> vc_lookup vs' = (vc_lookup vs)(node \<mapsto> t + 1)"
proof -
  from assms have "node \<noteq> 0" by (cases "node = 0") auto
  with assms obtain k where k: "first_index (\<lambda>c. nodeId c = node) vs = Some k" "t = time (vs ! k)"
    by (auto simp: vc_lookup_first_index)
  with \<open>node \<noteq> 0\<close> show ?thesis
    by (simp add: vclock_increment_def vc_lookup_set_time)
qed

lemma vclock_increment_None:
  "node \<noteq> 0 \<Longrightarrow> vc_lookup vs node = None \<Longrightarrow> vclock_increment node vs = Inl (Exit 1)"
  by (auto simp: vc_lookup_first_index vclock_increment_def)

lemma length_vclock_increment: "vclock_increment node vs = Inr vs' \<Longrightarrow> length vs' = length vs"
  by (auto simp: vclock_increment_def split: option.splits)

lemma vc_wf_increment: "vclock_increment node vs = Inr vs' \<Longrightarrow> vc_wf vs \<Longrightarrow> vc_wf vs'"
  by (auto simp: vclock_increment_def split: option.splits)

lemma vclock_has_iff: "node \<noteq> 0 \<Longrightarrow> vclock_has vs node \<longleftrightarrow> (\<exists>t. vc_lookup vs node = Some t)"
  by (auto simp: vclock_has_def vc_lookup_first_index)

lemma vclock_add_room:
  assumes "node \<noteq> 0" and "node \<notin> vc_ids vs" and "\<exists>c \<in> set vs. nodeId c = 0"
  shows "\<exists>vs'. vclock_add vs node = Inr vs' \<and> (vc_wf vs \<longrightarrow> vc_wf vs') \<and>
     vc_lookup vs' = (vc_lookup vs)(node \<mapsto> 1)"
proof -
  from assms(3) obtain k where "first_index (\<lambda>c. nodeId c = 0) vs = Some k"
    using first_index_exists [of _ vs "\<lambda>c. nodeId c = 0"] by blast
  then show ?thesis
    using assms vc_lookup_fill [of vs k "\<lparr>nodeId = node, time = 1\<rparr>"]
      vc_wf_fill [of vs "\<lparr>nodeId = node, time = 1\<rparr>" k]
    by (simp add: vclock_add_def)
qed

lemma vclock_add_full: "\<forall>c \<in> set vs. nodeId c \<noteq> 0 \<Longrightarrow> vclock_add vs node = Inl (Exit 1)"
  using first_index_None [of "\<lambda>vc. nodeId vc = 0" vs] by (simp add: vclock_add_def)

section \<open>The interface of a clock\<close>

text \<open>
  What a process relies on when a message arrives: it merges the sender's clock and then
  ticks its own entry. The client lemma says that this never stops a process that is in its
  own clock, and what it does to every entry.
\<close>

locale clock_iface =
  fixes lookup :: "'c \<Rightarrow> u32 \<Rightarrow> u32 option"
    and wf :: "'c \<Rightarrow> bool"
    and merge :: "u32 \<Rightarrow> 'c \<Rightarrow> 'c \<Rightarrow> 'c"
    and tick :: "u32 \<Rightarrow> 'c \<Rightarrow> halt + 'c"
  assumes merge_wf: "wf c \<Longrightarrow> wf (merge me c d)"
    and merge_own: "lookup (merge me c d) me = lookup c me"
    and merge_mono: "no_later (lookup c n) (lookup (merge me c d) n)"
    and tick_known: "lookup c me = Some t \<Longrightarrow>
      \<exists>c'. tick me c = Inr c' \<and> (wf c \<longrightarrow> wf c') \<and> lookup c' = (lookup c)(me \<mapsto> t + 1)"
begin

lemma receive:
  assumes "lookup c me = Some t"
  shows "\<exists>c'. tick me (merge me c d) = Inr c' \<and> (wf c \<longrightarrow> wf c') \<and> lookup c' me = Some (t + 1) \<and>
     (\<forall>n. n \<noteq> me \<longrightarrow> no_later (lookup c n) (lookup c' n))"
proof -
  have "lookup (merge me c d) me = Some t" using assms by (simp add: merge_own)
  from tick_known [OF this] obtain c' where
    "tick me (merge me c d) = Inr c'" "wf (merge me c d) \<longrightarrow> wf c'"
    "lookup c' = (lookup (merge me c d))(me \<mapsto> t + 1)" by blast
  with merge_wf [of c me d] merge_mono show ?thesis by auto
qed

end

interpretation vc: clock_iface vc_lookup vc_wf vclock_update vclock_increment
proof unfold_locales
  fix c :: "vclock_t list" and me t
  assume "vc_lookup c me = Some t"
  from vclock_increment_Some [OF this]
  show "\<exists>c'. vclock_increment me c = Inr c' \<and> (vc_wf c \<longrightarrow> vc_wf c') \<and>
      vc_lookup c' = (vc_lookup c)(me \<mapsto> t + 1)" by blast
qed (simp_all add: vc_wf_update vc_lookup_update_mono)

end
