(* ===== verification/Msg.thy ===== *)
theory Msg
  imports VClock
begin

text \<open>
  Messages, \<^verbatim>\<open>src/msg.h\<close> and \<^verbatim>\<open>src/msg.c\<close>. The \<open>type\<close> field of a message holds a
  32-bit code, because \<open>message_to_nbo\<close> stores the byte-swapped code in the same field and
  a datagram may carry any code; \<open>cmd_of\<close> is the \<^verbatim>\<open>switch\<close> on it, with \<open>None\<close> for a code
  that no enumerator has. The locale \<open>codec\<close> states what a pair of conversions promises;
  it is interpreted on the conversion to and from network byte order.
\<close>

section \<open>Commands\<close>

definition STRDATA_LEN :: nat where
  [simp]: "STRDATA_LEN = 64"

datatype cmdType =
    BEGINTX | JOINTX | NEW_A | NEW_B | NEW_IDSTR | DELAY_RESPONSE | CRASH | COMMIT
  | COMMIT_CRASH | ABORT | ABORT_CRASH | VOTE_ABORT | ASK | PREPARE_TO_COMMIT | PREPARED
  | TX_ERROR

text \<open>The enumerators' values, from \<^verbatim>\<open>BEGINTX = 1000\<close> on.\<close>

fun cmd_code :: "cmdType \<Rightarrow> u32" where
  "cmd_code BEGINTX = 1000"
| "cmd_code JOINTX = 1001"
| "cmd_code NEW_A = 1002"
| "cmd_code NEW_B = 1003"
| "cmd_code NEW_IDSTR = 1004"
| "cmd_code DELAY_RESPONSE = 1005"
| "cmd_code CRASH = 1006"
| "cmd_code COMMIT = 1007"
| "cmd_code COMMIT_CRASH = 1008"
| "cmd_code ABORT = 1009"
| "cmd_code ABORT_CRASH = 1010"
| "cmd_code VOTE_ABORT = 1011"
| "cmd_code ASK = 1012"
| "cmd_code PREPARE_TO_COMMIT = 1013"
| "cmd_code PREPARED = 1014"
| "cmd_code TX_ERROR = 1015"

definition all_cmds :: "cmdType list" where
  "all_cmds = [BEGINTX, JOINTX, NEW_A, NEW_B, NEW_IDSTR, DELAY_RESPONSE, CRASH, COMMIT,
     COMMIT_CRASH, ABORT, ABORT_CRASH, VOTE_ABORT, ASK, PREPARE_TO_COMMIT, PREPARED, TX_ERROR]"

text \<open>Which \<^verbatim>\<open>case\<close> label of a \<^verbatim>\<open>switch (msg.type)\<close> a code selects.\<close>

definition cmd_of :: "u32 \<Rightarrow> cmdType option" where
  "cmd_of n = find (\<lambda>c. cmd_code c = n) all_cmds"

lemma cmd_of_code [simp]: "cmd_of (cmd_code c) = Some c"
  by (cases c) (simp_all add: cmd_of_def all_cmds_def)

lemma cmd_of_SomeD: "cmd_of n = Some c \<Longrightarrow> n = cmd_code c"
  by (auto simp: cmd_of_def find_Some_iff)

lemma cmd_of_eq_Some: "cmd_of n = Some c \<longleftrightarrow> n = cmd_code c"
  by (auto dest: cmd_of_SomeD)

lemma cmd_code_inject [simp]: "cmd_code c = cmd_code d \<longleftrightarrow> c = d"
  by (metis cmd_of_code option.inject)

section \<open>The message structure\<close>

record message_t =
  m_type :: u32
  m_tid :: u32
  m_port :: u32
  m_value :: u32
  m_delay :: u32
  m_strdata :: "char list"
  m_vclock :: "vclock_t list"

text \<open>\<^verbatim>\<open>memset(msg, 0, sizeof(message_t))\<close>\<close>

definition zero_msg :: message_t where
  "zero_msg = \<lparr>m_type = 0, m_tid = 0, m_port = 0, m_value = 0, m_delay = 0,
     m_strdata = replicate STRDATA_LEN NUL, m_vclock = zero_clock\<rparr>"

definition msg_wf :: "message_t \<Rightarrow> bool" where
  "msg_wf m \<longleftrightarrow> length (m_strdata m) = STRDATA_LEN \<and> length (m_vclock m) = MAX_NODES"

text \<open>
  \<^verbatim>\<open>message_init\<close>: clear the structure, then, given a clock, run the copying loop. The loop
  body reads and writes slot 0 in every iteration, whatever its index.
\<close>

definition message_init :: "vclock_t list option \<Rightarrow> message_t" where
  "message_init vclock =
     (case vclock of None \<Rightarrow> zero_msg
      | Some vc \<Rightarrow> foldl (\<lambda>m i. m\<lparr>m_vclock := (m_vclock m)[0 := vc ! 0]\<rparr>) zero_msg [0..<MAX_NODES])"

definition message_write_begin :: "message_t \<Rightarrow> char list \<Rightarrow> u32 \<Rightarrow> u32 \<Rightarrow> halt + message_t" where
  "message_write_begin msg tm_host tm_port transaction =
     (let m = msg\<lparr>m_type := cmd_code BEGINTX, m_port := tm_port, m_tid := transaction\<rparr>
      in map_sum id (\<lambda>d. m\<lparr>m_strdata := d\<rparr>) (strcpy (m_strdata m) tm_host))"

definition message_write_join :: "message_t \<Rightarrow> char list \<Rightarrow> u32 \<Rightarrow> u32 \<Rightarrow> halt + message_t" where
  "message_write_join msg tm_host tm_port transaction =
     (let m = msg\<lparr>m_type := cmd_code JOINTX, m_port := tm_port, m_tid := transaction\<rparr>
      in map_sum id (\<lambda>d. m\<lparr>m_strdata := d\<rparr>) (strcpy (m_strdata m) tm_host))"

definition message_write_new_A :: "message_t \<Rightarrow> u32 \<Rightarrow> message_t" where
  "message_write_new_A msg new_a = msg\<lparr>m_type := cmd_code NEW_A, m_value := new_a\<rparr>"

definition message_write_new_B :: "message_t \<Rightarrow> u32 \<Rightarrow> message_t" where
  "message_write_new_B msg new_b = msg\<lparr>m_type := cmd_code NEW_B, m_value := new_b\<rparr>"

definition message_write_new_ID :: "message_t \<Rightarrow> char list \<Rightarrow> halt + message_t" where
  "message_write_new_ID msg id_str =
     (let m = msg\<lparr>m_type := cmd_code NEW_IDSTR\<rparr>
      in map_sum id (\<lambda>d. m\<lparr>m_strdata := d\<rparr>) (strcpy (m_strdata m) id_str))"

definition message_write_crash :: "message_t \<Rightarrow> message_t" where
  "message_write_crash msg = msg\<lparr>m_type := cmd_code CRASH\<rparr>"

definition message_write_delay :: "message_t \<Rightarrow> u32 \<Rightarrow> message_t" where
  "message_write_delay msg dly = msg\<lparr>m_type := cmd_code DELAY_RESPONSE, m_delay := dly\<rparr>"

definition message_write_commit :: "message_t \<Rightarrow> message_t" where
  "message_write_commit msg = msg\<lparr>m_type := cmd_code COMMIT\<rparr>"

definition message_write_commit_crash :: "message_t \<Rightarrow> message_t" where
  "message_write_commit_crash msg = msg\<lparr>m_type := cmd_code COMMIT_CRASH\<rparr>"

definition message_write_abort :: "message_t \<Rightarrow> message_t" where
  "message_write_abort msg = msg\<lparr>m_type := cmd_code ABORT\<rparr>"

definition message_write_abort_crash :: "message_t \<Rightarrow> message_t" where
  "message_write_abort_crash msg = msg\<lparr>m_type := cmd_code ABORT_CRASH\<rparr>"

definition message_write_vote_abort :: "message_t \<Rightarrow> message_t" where
  "message_write_vote_abort msg = msg\<lparr>m_type := cmd_code VOTE_ABORT\<rparr>"

section \<open>Network byte order\<close>

definition slot_to_nbo :: "vclock_t \<Rightarrow> vclock_t" where
  "slot_to_nbo c = \<lparr>nodeId = htonl (nodeId c), time = htonl (time c)\<rparr>"

definition slot_from_nbo :: "vclock_t \<Rightarrow> vclock_t" where
  "slot_from_nbo c = \<lparr>nodeId = ntohl (nodeId c), time = ntohl (time c)\<rparr>"

definition message_to_nbo :: "message_t \<Rightarrow> message_t" where
  "message_to_nbo msg = msg\<lparr>m_type := htonl (m_type msg), m_tid := htonl (m_tid msg),
     m_port := htonl (m_port msg), m_value := htonl (m_value msg), m_delay := htonl (m_delay msg),
     m_vclock := map slot_to_nbo (m_vclock msg)\<rparr>"

definition message_from_nbo :: "message_t \<Rightarrow> message_t" where
  "message_from_nbo msg = msg\<lparr>m_type := ntohl (m_type msg), m_tid := ntohl (m_tid msg),
     m_port := ntohl (m_port msg), m_value := ntohl (m_value msg), m_delay := ntohl (m_delay msg),
     m_vclock := map slot_from_nbo (m_vclock msg)\<rparr>"

definition message_string :: "message_t \<Rightarrow> string" where
  "message_string msg = (case cmd_of (m_type msg) of
       Some BEGINTX \<Rightarrow> ''Begin Transaction''
     | Some JOINTX \<Rightarrow> ''Join Transaction''
     | Some NEW_A \<Rightarrow> ''New A''
     | Some NEW_B \<Rightarrow> ''New B''
     | Some NEW_IDSTR \<Rightarrow> ''New ID String''
     | Some DELAY_RESPONSE \<Rightarrow> ''Delay Response''
     | Some CRASH \<Rightarrow> ''Crash''
     | Some COMMIT \<Rightarrow> ''Commit''
     | Some COMMIT_CRASH \<Rightarrow> ''Commit Crash''
     | Some ABORT \<Rightarrow> ''Abort''
     | Some ABORT_CRASH \<Rightarrow> ''Abort Crash''
     | Some VOTE_ABORT \<Rightarrow> ''Vote Abort''
     | Some PREPARE_TO_COMMIT \<Rightarrow> ''Prepare to Commit''
     | Some PREPARED \<Rightarrow> ''Prepared''
     | Some ASK \<Rightarrow> ''Ask''
     | _ \<Rightarrow> ''Unknown'')"

section \<open>What the operations do\<close>

lemma message_init_None [simp]: "message_init None = zero_msg"
  by (simp add: message_init_def)

lemma copy_slot0_loop:
  "is \<noteq> [] \<Longrightarrow> foldl (\<lambda>m i. m\<lparr>m_vclock := (m_vclock m)[0 := c]\<rparr>) m is =
     m\<lparr>m_vclock := (m_vclock m)[0 := c]\<rparr>"
proof (induction "is" arbitrary: m)
  case (Cons i "is")
  then show ?case by (cases "is") simp_all
qed simp

lemma message_init_Some [simp]:
  "message_init (Some vc) = zero_msg\<lparr>m_vclock := zero_clock[0 := vc ! 0]\<rparr>"
  by (simp add: message_init_def copy_slot0_loop zero_msg_def del: upt_Suc)

lemma zero_msg_fields [simp]:
  "m_type zero_msg = 0" "m_tid zero_msg = 0" "m_port zero_msg = 0" "m_value zero_msg = 0"
  "m_delay zero_msg = 0" "m_strdata zero_msg = replicate STRDATA_LEN NUL" "m_vclock zero_msg = zero_clock"
  by (simp_all add: zero_msg_def)

lemma msg_wf_zero_msg [simp]: "msg_wf zero_msg"
  by (simp add: msg_wf_def zero_clock_def)

lemma msg_wf_message_init [simp]: "msg_wf (message_init vc)"
  by (cases vc) (simp_all add: msg_wf_def zero_clock_def)

lemma slot_nbo_inverse [simp]: "slot_from_nbo (slot_to_nbo c) = c" "slot_to_nbo (slot_from_nbo c) = c"
  by (simp_all add: slot_from_nbo_def slot_to_nbo_def)

text \<open>The clock a message carries names at most the node in slot 0 of the sender's clock.\<close>

lemma vc_lookup_message_init:
  "vc_lookup (m_vclock (message_init (Some vc))) node =
     (if nodeId (vc ! 0) = node \<and> node \<noteq> 0 then Some (time (vc ! 0)) else None)"
  by (simp add: zero_clock_def zero_slot_def numeral_eq_Suc)

lemma message_to_nbo_fields:
  "m_strdata (message_to_nbo m) = m_strdata m" "m_type (message_to_nbo m) = htonl (m_type m)"
  "m_tid (message_to_nbo m) = htonl (m_tid m)"
  by (simp_all add: message_to_nbo_def)

section \<open>The interface of a codec\<close>

locale codec =
  fixes enc :: "'a \<Rightarrow> 'b" and dec :: "'b \<Rightarrow> 'a"
  assumes dec_enc: "dec (enc x) = x"
begin

lemma enc_inject: "enc x = enc y \<Longrightarrow> x = y"
  by (metis dec_enc)

lemma dec_enc_list: "map dec (map enc xs) = xs"
  by (simp add: dec_enc o_def)

end

interpretation nbo: codec message_to_nbo message_from_nbo
  by unfold_locales (simp add: message_from_nbo_def message_to_nbo_def o_def)

interpretation from_nbo: codec message_from_nbo message_to_nbo
  by unfold_locales (simp add: message_from_nbo_def message_to_nbo_def o_def)

text \<open>The command a message on the wire carries.\<close>

abbreviation told :: "cmdType \<Rightarrow> message_t \<Rightarrow> bool" where
  "told c buf \<equiv> m_type (message_from_nbo buf) = cmd_code c"

end
