(* ===== verification/CText.thy ===== *)
theory CText
  imports Prelude
begin

text \<open>
  The parts of the C library's text handling that the program uses: \<^verbatim>\<open>%d\<close>, \<^verbatim>\<open>%u\<close> and
  \<^verbatim>\<open>%08x\<close> of \<^verbatim>\<open>printf\<close>, \<^verbatim>\<open>atoi\<close>, \<^verbatim>\<open>strtoul\<close> with base 10, \<^verbatim>\<open>isspace\<close>, \<^verbatim>\<open>tolower\<close> and
  \<^verbatim>\<open>strncmp(..) == 0\<close>, in the C locale. The main lemma is that \<^verbatim>\<open>atoi\<close> reads back what
  \<^verbatim>\<open>%d\<close> writes.
\<close>

section \<open>Numbers\<close>

definition digit_chars :: string where
  "digit_chars = ''0123456789abcdef''"

fun radix_text :: "nat \<Rightarrow> nat \<Rightarrow> string" where
  "radix_text b n =
     (if n < b \<or> b < 2 then [digit_chars ! n] else radix_text b (n div b) @ [digit_chars ! (n mod b)])"

declare radix_text.simps [simp del]

definition dec_text :: "nat \<Rightarrow> string" where
  "dec_text n = radix_text 10 n"

definition int_text :: "int \<Rightarrow> string" where
  "int_text i = (if i < 0 then CHR ''-'' # dec_text (nat (- i)) else dec_text (nat i))"

text \<open>\<^verbatim>\<open>printf("%d", w)\<close>, \<^verbatim>\<open>printf("%u", w)\<close> and \<^verbatim>\<open>printf("%08x", w)\<close>\<close>

definition fmt_d :: "u32 \<Rightarrow> string" where
  "fmt_d w = int_text (sint w)"

definition fmt_u :: "u32 \<Rightarrow> string" where
  "fmt_u w = dec_text (unat w)"

definition pad_left :: "nat \<Rightarrow> char \<Rightarrow> string \<Rightarrow> string" where
  "pad_left n c s = replicate (n - length s) c @ s"

definition fmt_08x :: "u32 \<Rightarrow> string" where
  "fmt_08x w = pad_left 8 (CHR ''0'') (radix_text 16 (unat w))"

section \<open>Characters\<close>

definition isspace :: "char \<Rightarrow> bool" where
  "isspace c \<longleftrightarrow> c \<in> {CHR '' '', CHR 0x09, CHR 0x0A, CHR 0x0B, CHR 0x0C, CHR 0x0D}"

definition tolower :: "char \<Rightarrow> char" where
  "tolower c = (let n = (of_char c :: nat) in if 65 \<le> n \<and> n \<le> 90 then char_of (n + 32) else c)"

definition digit_val :: "char \<Rightarrow> nat option" where
  "digit_val c = first_index (\<lambda>d. d = c) ''0123456789''"

text \<open>\<^verbatim>\<open>strncmp(a, b, n) == 0\<close>\<close>

definition strncmp_eq :: "char list \<Rightarrow> char list \<Rightarrow> nat \<Rightarrow> bool" where
  "strncmp_eq a b n \<longleftrightarrow> take n (cstr a) = take n (cstr b)"

section \<open>Reading numbers\<close>

fun digits_val :: "nat \<Rightarrow> char list \<Rightarrow> nat" where
  "digits_val acc [] = acc"
| "digits_val acc (c # cs) = (case digit_val c of None \<Rightarrow> acc | Some d \<Rightarrow> digits_val (10 * acc + d) cs)"

definition sign_split :: "char list \<Rightarrow> bool \<times> char list" where
  "sign_split s = (case s of [] \<Rightarrow> (False, [])
     | c # cs \<Rightarrow> if c = CHR ''-'' then (True, cs) else if c = CHR ''+'' then (False, cs) else (False, s))"

definition long_max :: int where
  "long_max = 2 ^ 63 - 1"

text \<open>\<^verbatim>\<open>strtol(s, NULL, 10)\<close> saturates at the range of \<^verbatim>\<open>long\<close>; \<^verbatim>\<open>atoi\<close> converts it to \<^verbatim>\<open>int\<close>.\<close>

definition strtol10 :: "char list \<Rightarrow> int" where
  "strtol10 s =
     (let (neg, ds) = sign_split (dropWhile isspace (cstr s));
          v = int (digits_val 0 ds);
          n = (if neg then - v else v)
      in max (- long_max - 1) (min long_max n))"

definition atoi :: "char list \<Rightarrow> u32" where
  "atoi s = word_of_int (strtol10 s)"

text \<open>\<^verbatim>\<open>strtoul(s, &end, 10)\<close> saturates the magnitude at \<^verbatim>\<open>ULONG_MAX\<close> and negates in the
  type; the second component tells whether a number was read (\<^verbatim>\<open>end != s\<close>).\<close>

definition strtoul10 :: "char list \<Rightarrow> 64 word \<times> bool" where
  "strtoul10 s =
     (let (neg, ds) = sign_split (dropWhile isspace (cstr s));
          v = int (digits_val 0 ds);
          w = (word_of_int (min (2 ^ 64 - 1) v) :: 64 word)
      in (if neg \<and> v < 2 ^ 64 then - w else w,
          (case ds of [] \<Rightarrow> False | c # _ \<Rightarrow> digit_val c \<noteq> None)))"

section \<open>Reading back what was written\<close>

lemma digit_val_digit: "n < 10 \<Longrightarrow> digit_val (digit_chars ! n) = Some n"
  by (simp add: numeral_eq_Suc less_Suc_eq) (auto simp: digit_val_def digit_chars_def)

lemma digits_val_append:
  assumes "list_all (\<lambda>c. digit_val c \<noteq> None) xs"
  shows "digits_val acc (xs @ ys) = digits_val (digits_val acc xs) ys"
  using assms by (induction xs arbitrary: acc) auto

lemma dec_text_digits: "list_all (\<lambda>c. digit_val c \<noteq> None) (dec_text n)"
  unfolding dec_text_def
proof (induction n rule: less_induct)
  case (less n)
  show ?case
  proof (cases "n < 10")
    case False
    with less.IH [of "n div 10"] show ?thesis
      by (simp add: radix_text.simps [of 10 n] digit_val_digit)
  qed (simp add: radix_text.simps [of 10 n] digit_val_digit)
qed

lemma digits_val_dec_text: "digits_val 0 (dec_text n) = n"
  unfolding dec_text_def
proof (induction n rule: less_induct)
  case (less n)
  show ?case
  proof (cases "n < 10")
    case False
    with less.IH [of "n div 10"] dec_text_digits [of "n div 10"] show ?thesis
      by (simp add: radix_text.simps [of 10 n] digits_val_append digit_val_digit dec_text_def)
  qed (simp add: radix_text.simps [of 10 n] digit_val_digit)
qed

lemma dec_text_nonempty [simp]: "dec_text n \<noteq> []"
  unfolding dec_text_def by (subst radix_text.simps) simp

lemma digit_val_special:
  "isspace c \<or> c = NUL \<or> c = CHR ''-'' \<or> c = CHR ''+'' \<Longrightarrow> digit_val c = None"
  by (elim disjE) (auto simp: isspace_def digit_val_def)

lemma digit_not_special:
  "digit_val c \<noteq> None \<Longrightarrow> c \<noteq> NUL \<and> \<not> isspace c \<and> c \<noteq> CHR ''-'' \<and> c \<noteq> CHR ''+''"
  by (metis digit_val_special)

lemma dec_text_no_NUL: "NUL \<notin> set (dec_text n)"
  using dec_text_digits [of n] digit_not_special by (force simp: list_all_iff)

lemma int_text_no_NUL: "NUL \<notin> set (int_text i)"
  using dec_text_no_NUL by (auto simp: int_text_def)

lemma int_text_no_space: "c \<in> set (int_text i) \<Longrightarrow> \<not> isspace c"
  using dec_text_digits digit_not_special
  by (fastforce simp: int_text_def list_all_iff isspace_def split: if_splits)

lemma sign_split_dec_text: "sign_split (dropWhile isspace (dec_text n)) = (False, dec_text n)"
proof -
  obtain c cs where eq: "dec_text n = c # cs" by (cases "dec_text n") auto
  with dec_text_digits [of n] digit_not_special [of c] show ?thesis by (simp add: sign_split_def)
qed

lemma strtol10_int_text: "- long_max \<le> i \<Longrightarrow> i \<le> long_max \<Longrightarrow> strtol10 (int_text i) = i"
  by (auto simp: strtol10_def int_text_no_NUL int_text_def dec_text_no_NUL sign_split_dec_text
      digits_val_dec_text)
    (simp_all add: sign_split_def isspace_def digits_val_dec_text)

lemma atoi_fmt_d: "atoi (fmt_d w) = w"
proof -
  have "- (2 ^ 31) \<le> sint w" "sint w < 2 ^ 31"
    using sint_ge [of w] sint_lt [of w] by simp_all
  then have "strtol10 (int_text (sint w)) = sint w"
    by (intro strtol10_int_text) (simp_all add: long_max_def)
  then show ?thesis by (simp add: atoi_def fmt_d_def)
qed

end
