(* ===== verification/TxEntry.thy ===== *)
theory TxEntry
  imports VClock CText
begin

text \<open>
  Log entries: \<^verbatim>\<open>txlog_entry_t\<close> of \<^verbatim>\<open>src/txlog.h\<close> and the functions on one entry at the
  end of \<^verbatim>\<open>src/txlog.c\<close>. An entry is read back from a file, so its type field holds a
  32-bit code; \<open>log_of\<close> is the \<^verbatim>\<open>switch\<close> on it.
\<close>

datatype logEntryType = LOG_BEGIN | LOG_COMMIT | LOG_ABORT | LOG_PREPARED | LOG_UPDATE

fun log_code :: "logEntryType \<Rightarrow> u32" where
  "log_code LOG_BEGIN = 0x10"
| "log_code LOG_COMMIT = 0x11"
| "log_code LOG_ABORT = 0x12"
| "log_code LOG_PREPARED = 0x13"
| "log_code LOG_UPDATE = 0x14"

definition log_of :: "u32 \<Rightarrow> logEntryType option" where
  "log_of n = find (\<lambda>t. log_code t = n) [LOG_BEGIN, LOG_COMMIT, LOG_ABORT, LOG_PREPARED, LOG_UPDATE]"

lemma log_of_code [simp]: "log_of (log_code t) = Some t"
  by (cases t) (simp_all add: log_of_def)

lemma log_of_num [simp]:
  "log_of 16 = Some LOG_BEGIN" "log_of 17 = Some LOG_COMMIT" "log_of 18 = Some LOG_ABORT"
  by (simp_all add: log_of_def)

lemma log_of_eq_Some: "log_of n = Some t \<longleftrightarrow> n = log_code t"
proof
  assume "log_of n = Some t"
  then show "n = log_code t" by (auto simp: log_of_def split: if_splits)
qed simp

lemma log_code_inject [simp]: "log_code t = log_code u \<longleftrightarrow> t = u"
  by (metis log_of_code option.inject)

definition IDLEN :: nat where
  [simp]: "IDLEN = 64"

record txlog_entry_t =
  e_type :: u32
  e_transaction :: u32
  old_a :: u32
  old_b :: u32
  old_id :: "char list"
  e_vclock :: "vclock_t list"

definition zero_entry :: txlog_entry_t where
  "zero_entry = \<lparr>e_type = 0, e_transaction = 0, old_a = 0, old_b = 0,
     old_id = replicate IDLEN NUL, e_vclock = zero_clock\<rparr>"

definition txentry_init :: "logEntryType \<Rightarrow> u32 \<Rightarrow> vclock_t list \<Rightarrow> txlog_entry_t" where
  "txentry_init ty t vclock =
     zero_entry\<lparr>e_vclock := vclock, e_type := log_code ty, e_transaction := t\<rparr>"

definition txentry_type_string :: "u32 \<Rightarrow> string" where
  "txentry_type_string ty = (case log_of ty of
       Some LOG_BEGIN \<Rightarrow> ''BEGIN''
     | Some LOG_COMMIT \<Rightarrow> ''COMMIT''
     | Some LOG_ABORT \<Rightarrow> ''ABORT''
     | Some LOG_PREPARED \<Rightarrow> ''PREPARED''
     | Some LOG_UPDATE \<Rightarrow> ''UPDATE''
     | None \<Rightarrow> ''Unknown'')"

text \<open>
  The text \<^verbatim>\<open>txentry_print\<close> writes to standard output. An old identifier that does not end within
  its buffer is read past it.
\<close>

definition txentry_print :: "txlog_entry_t \<Rightarrow> halt + string" where
  "txentry_print entry =
     (if e_type entry = log_code LOG_UPDATE \<and> \<not> terminated (old_id entry) then Inl Undef else Inr (
     ''Log Entry: '' @ txentry_type_string (e_type entry) @ '' (TID: '' @ fmt_d (e_transaction entry)
       @ '')'' @ [CHR 0x0A] @
     (if e_type entry = log_code LOG_UPDATE
      then ''  A  = '' @ fmt_d (old_a entry) @ [CHR 0x0A] @ ''  B  = '' @ fmt_d (old_b entry)
        @ [CHR 0x0A] @ ''  ID = '' @ [CHR 0x27] @ cstr (old_id entry) @ [CHR 0x27, CHR 0x0A]
      else [])))"

lemma txentry_init_fields [simp]:
  "e_type (txentry_init ty t vc) = log_code ty" "e_transaction (txentry_init ty t vc) = t"
  "e_vclock (txentry_init ty t vc) = vc" "old_id (txentry_init ty t vc) = replicate IDLEN NUL"
  "old_a (txentry_init ty t vc) = 0" "old_b (txentry_init ty t vc) = 0"
  by (simp_all add: txentry_init_def zero_entry_def)

end
