(* ===== verification/Server.thy ===== *)
theory Server
  imports Msg TxEntry
begin

text \<open>
  The datagram layer, \<^verbatim>\<open>src/server.c\<close>, and host names, \<^verbatim>\<open>resolve_host\<close> of
  \<^verbatim>\<open>src/common.c\<close>. The answers of the operating system (does \<^verbatim>\<open>sendto\<close> succeed, which
  address has a host, what time is it, ...) are a parameter, the record \<open>os_t\<close>, that every
  operation which makes a system call takes. What \<^verbatim>\<open>select\<close> and \<^verbatim>\<open>recvfrom\<close> deliver is a
  \<open>recv_event\<close>. A sent datagram is a value: the port of the socket, the destination, and
  the bytes of the message, which are in network byte order.
\<close>

section \<open>The operating system's answers\<close>

record sockaddr_in =
  sin_family :: u16
  sin_port :: u16    \<comment> \<open>in network byte order\<close>
  sin_addr :: u32

record timeval =
  tv_sec :: int
  tv_usec :: int

record os_t =
  os_malloc :: bool                          \<comment> \<open>\<^verbatim>\<open>malloc\<close> returns memory\<close>
  os_resolve :: "char list \<Rightarrow> u32 option"    \<comment> \<open>\<^verbatim>\<open>getaddrinfo\<close>: the first address of a host\<close>
  os_socket :: int                           \<comment> \<open>the result of \<^verbatim>\<open>socket\<close>\<close>
  os_bind :: bool                            \<comment> \<open>\<^verbatim>\<open>bind\<close> succeeds\<close>
  os_autoport :: u16                         \<comment> \<open>the \<^verbatim>\<open>sin_port\<close> that \<^verbatim>\<open>getsockname\<close> reports\<close>
  os_sendto :: "sockaddr_in \<Rightarrow> bool"         \<comment> \<open>\<^verbatim>\<open>sendto\<close> succeeds for this destination\<close>
  os_msync :: bool                           \<comment> \<open>\<^verbatim>\<open>msync\<close> succeeds\<close>
  os_fopen :: bool                           \<comment> \<open>\<^verbatim>\<open>fopen\<close> succeeds\<close>
  os_open :: bool                            \<comment> \<open>\<^verbatim>\<open>open\<close> succeeds\<close>
  os_fstat :: bool                           \<comment> \<open>\<^verbatim>\<open>fstat\<close> succeeds\<close>
  os_write :: bool                           \<comment> \<open>\<^verbatim>\<open>write\<close> of a fresh file succeeds\<close>
  os_map_log :: bool                         \<comment> \<open>\<^verbatim>\<open>mmap\<close> of the header of a log succeeds\<close>
  os_map_store :: bool                       \<comment> \<open>\<^verbatim>\<open>mmap\<close> of an object store succeeds\<close>
  os_munmap :: bool                          \<comment> \<open>\<^verbatim>\<open>munmap\<close> succeeds\<close>
  os_now :: timeval                          \<comment> \<open>\<^verbatim>\<open>gettimeofday\<close>\<close>
  os_stack_addr :: u32                       \<comment> \<open>what an uninitialised \<^verbatim>\<open>in_addr\<close> holds\<close>
  os_stack_entry :: txlog_entry_t            \<comment> \<open>what an uninitialised \<^verbatim>\<open>txlog_entry_t\<close> holds\<close>
  os_heap_fd :: int                          \<comment> \<open>what an uninitialised \<^verbatim>\<open>socket_id\<close> holds\<close>

text \<open>Nothing the handlers ask of the operating system fails.\<close>

definition os_ok :: "os_t \<Rightarrow> bool" where
  "os_ok os \<longleftrightarrow> os_msync os \<and> os_fopen os \<and> (\<forall>a. os_sendto os a)"

text \<open>What a program needs to get started on its log.\<close>

definition os_starts :: "os_t \<Rightarrow> bool" where
  "os_starts os \<longleftrightarrow> os_malloc os \<and> os_open os \<and> os_fstat os \<and> os_map_log os"

definition AF_INET :: u16 where
  "AF_INET = 2"

definition resolve_host :: "os_t \<Rightarrow> char list \<Rightarrow> u32 \<Rightarrow> int \<times> u32" where
  "resolve_host os host out_addr =
     (case os_resolve os (cstr host) of None \<Rightarrow> (-1, out_addr) | Some a \<Rightarrow> (0, a))"

section \<open>Servers\<close>

record server_t =
  srv_port :: u32
  socket_id :: int
  srv_timeout :: int
  srv_address :: sockaddr_in

definition server_alloc :: "os_t \<Rightarrow> u32 \<Rightarrow> int \<Rightarrow> halt + server_t" where
  "server_alloc os prt timeout =
     (if \<not> os_malloc os then Inl (Exit (-1))
      else Inr \<lparr>srv_port = prt, socket_id = os_heap_fd os, srv_timeout = timeout,
             srv_address = \<lparr>sin_family = AF_INET, sin_port = htons (ucast prt),
                            sin_addr = snd (resolve_host os (lit ''localhost'') 0)\<rparr>\<rparr>)"

text \<open>
  \<^verbatim>\<open>server_listen\<close> returns the descriptor; a failing \<^verbatim>\<open>bind\<close> returns before \<^verbatim>\<open>socket_id\<close>
  is set. A server on port 0 learns the port the system has chosen.
\<close>

definition server_listen :: "os_t \<Rightarrow> server_t \<Rightarrow> int \<times> server_t" where
  "server_listen os server =
     (if os_socket os < 0 then (0, server)
      else if \<not> os_bind os then (os_socket os, server)
      else let s = (if srv_port server = 0
                    then server\<lparr>srv_port := ucast (ntohs (os_autoport os))\<rparr> else server)
           in (os_socket os, s\<lparr>socket_id := os_socket os\<rparr>))"

text \<open>\<^verbatim>\<open>server_shutdown\<close> closes the socket, frees the structure and clears the pointer.\<close>

definition server_shutdown :: "server_t option \<Rightarrow> halt + server_t option" where
  "server_shutdown server_ptr = (case server_ptr of None \<Rightarrow> Inl SegFault | Some server \<Rightarrow> Inr None)"

section \<open>Sending\<close>

record datagram =
  dg_src :: u32
  dg_dest :: sockaddr_in
  dg_msg :: message_t    \<comment> \<open>as on the wire\<close>

definition server_send :: "os_t \<Rightarrow> server_t option \<Rightarrow> sockaddr_in \<Rightarrow> message_t \<Rightarrow> halt + datagram" where
  "server_send os server dest_address msg =
     (case server of None \<Rightarrow> Inl SegFault
      | Some s \<Rightarrow>
          let wire = message_to_nbo msg
          in if os_sendto os dest_address
             then Inr \<lparr>dg_src = srv_port s, dg_dest = dest_address, dg_msg = wire\<rparr>
             else Inl (Exit 1))"

text \<open>The value \<^verbatim>\<open>server_send\<close> returns: \<^verbatim>\<open>numbytes\<close> is assigned the comparison
  \<^verbatim>\<open>sendto(...) == -1\<close>, which is 0 whenever the call returns.\<close>

definition server_send_result :: "os_t \<Rightarrow> sockaddr_in \<Rightarrow> halt + int" where
  "server_send_result os dest_address =
     (let numbytes = (if os_sendto os dest_address then 0 else 1)
      in if numbytes \<noteq> 0 then Inl (Exit 1) else Inr numbytes)"

definition dest_of :: "os_t \<Rightarrow> char list \<Rightarrow> u32 \<Rightarrow> sockaddr_in" where
  "dest_of os dest_host dest_port =
     \<lparr>sin_family = AF_INET, sin_port = htons (ucast dest_port),
      sin_addr = snd (resolve_host os dest_host (os_stack_addr os))\<rparr>"

definition server_send_to ::
  "os_t \<Rightarrow> server_t option \<Rightarrow> char list \<Rightarrow> u32 \<Rightarrow> message_t \<Rightarrow> halt + datagram" where
  "server_send_to os server dest_host dest_port msg =
     server_send os server (dest_of os dest_host dest_port) msg"

section \<open>Receiving\<close>

text \<open>
  What \<^verbatim>\<open>select\<close> and \<^verbatim>\<open>recvfrom\<close> do: time out, fail, or deliver a datagram. A delivered
  datagram gives the length \<^verbatim>\<open>recvfrom\<close> returns, the contents of the message buffer after
  it (the bytes are in network order), and the sender.
\<close>

datatype recv_event = RTimeout | RSelectError | RDatagram int message_t sockaddr_in

definition server_recv_timeout ::
  "server_t option \<Rightarrow> recv_event \<Rightarrow> message_t \<Rightarrow> sockaddr_in \<Rightarrow> halt + int \<times> message_t \<times> sockaddr_in" where
  "server_recv_timeout server ev message recv_addr =
     (case server of None \<Rightarrow> Inl AssertFail
      | Some s \<Rightarrow> (case ev of
            RTimeout \<Rightarrow> Inr (-1, message, recv_addr)
          | RSelectError \<Rightarrow> Inl (Exit (-1))
          | RDatagram len buf from \<Rightarrow> Inr (len, message_from_nbo buf, from)))"

definition server_recv ::
  "server_t option \<Rightarrow> recv_event \<Rightarrow> message_t \<Rightarrow> sockaddr_in \<Rightarrow> halt + int \<times> message_t \<times> sockaddr_in" where
  "server_recv server ev message recv_addr = server_recv_timeout server ev message recv_addr"

definition no_addr :: sockaddr_in where
  "no_addr = \<lparr>sin_family = 0, sin_port = 0, sin_addr = 0\<rparr>"

section \<open>Facts the clients use\<close>

text \<open>The port a worker is known by: \<^verbatim>\<open>ntohs(addr.sin_port)\<close> as a \<^verbatim>\<open>uint32_t\<close>.\<close>

definition port_of :: "sockaddr_in \<Rightarrow> u32" where
  "port_of a = ucast (ntohs (sin_port a))"

lemma server_send_Some:
  "os_sendto os dest \<Longrightarrow> server_send os (Some s) dest msg =
     Inr \<lparr>dg_src = srv_port s, dg_dest = dest, dg_msg = message_to_nbo msg\<rparr>"
  by (simp add: server_send_def)

lemma server_send_Inr:
  "server_send os server dest msg = Inr d \<Longrightarrow> dg_dest d = dest \<and> dg_msg d = message_to_nbo msg"
  by (auto simp: server_send_def split: option.splits if_splits)

lemma server_recv_cases:
  "server_recv server ev m0 a0 = Inr (len, m, a) \<Longrightarrow>
     (ev = RTimeout \<and> len = -1 \<and> m = m0 \<and> a = a0) \<or>
     (\<exists>buf. ev = RDatagram len buf a \<and> m = message_from_nbo buf)"
  by (auto simp: server_recv_def server_recv_timeout_def split: option.splits recv_event.splits)

text \<open>A sent datagram, received whole, is the message that was sent.\<close>

lemma send_then_recv:
  assumes "server_send os server dest msg = Inr d"
  shows "server_recv (Some r) (RDatagram len (dg_msg d) from) m0 a0 = Inr (len, msg, from)"
  using server_send_Inr [OF assms]
  by (simp add: server_recv_def server_recv_timeout_def nbo.dec_enc)

end
