(* ===== verification/TxLog.thy ===== *)
theory TxLog
  imports Server
begin

text \<open>
  The transaction log, \<^verbatim>\<open>src/txlog.c\<close> and \<^verbatim>\<open>src/txlog.h\<close>. The file is a header, mapped
  into memory, followed by slots of one entry each; slot \<open>i\<close> is what the source reads and
  writes at offset \<^verbatim>\<open>sizeof(txlog_head_t) + i * sizeof(txlog_entry_t)\<close>. Header and slots
  belong to the file and survive the process. A read past the end of the file leaves the
  caller's buffer as it was.

  \<open>log_entries\<close> is the abstract log: the first \<open>tx_count\<close> slots. The locale \<open>log_iface\<close>
  states what the manager and the worker rely on, in terms of that list.
\<close>

section \<open>The file\<close>

record txlog_head_t =
  h_vclock :: "vclock_t list"
  tx_count :: u32
  tm_listen_port :: u32
  tm_port :: u32
  tm_host :: "char list"

record txlog_t =
  log_slots :: "txlog_entry_t list"
  header :: txlog_head_t

definition zero_head :: txlog_head_t where
  "zero_head = \<lparr>h_vclock = zero_clock, tx_count = 0, tm_listen_port = 0, tm_port = 0,
     tm_host = replicate 64 NUL\<rparr>"

text \<open>
  \<^verbatim>\<open>txlog_open\<close>: a missing file, or one too short for an entry, is filled with zeros, which
  are a header that counts no entries. Otherwise the file is taken as it is.
\<close>

definition txlog_open :: "os_t \<Rightarrow> txlog_t option \<Rightarrow> halt + txlog_t" where
  "txlog_open os file =
     (if \<not> os_malloc os then Inl AssertFail
      else if \<not> os_open os then Inl (Exit (-1))
      else if \<not> os_fstat os then Inl (Exit (-2))
      else (case file of
          None \<Rightarrow> if os_write os then Inr \<lparr>log_slots = [], header = zero_head\<rparr> else Inl (Exit (-3))
        | Some log \<Rightarrow> Inr log))"

text \<open>
  A failing \<^verbatim>\<open>mmap\<close> returns \<^verbatim>\<open>MAP_FAILED\<close>, which is not the \<^verbatim>\<open>NULL\<close> that \<^verbatim>\<open>txlog_open\<close> tests for:
  it returns all the same, and the first access to the header faults.
\<close>

definition txlog_mapped :: "os_t \<Rightarrow> txlog_t \<Rightarrow> halt + txlog_t" where
  "txlog_mapped os log = (if os_map_log os then Inr log else Inl SegFault)"

definition txlog_sync :: "os_t \<Rightarrow> txlog_t \<Rightarrow> txlog_t outcome" where
  "txlog_sync os log = (if os_msync os then Running log else Halted (Exit (-1)) log)"

text \<open>\<^verbatim>\<open>txlog_close\<close> passes \<^verbatim>\<open>munmap\<close> the handle and not the mapped header, then frees it.\<close>

definition txlog_close :: "os_t \<Rightarrow> txlog_t \<Rightarrow> txlog_t outcome" where
  "txlog_close os log =
     bnd (txlog_sync os log)
       (\<lambda>log. if os_munmap os then Running log else Halted (Exit (-1)) log)"

definition txlog_write_clock :: "os_t \<Rightarrow> txlog_t \<Rightarrow> vclock_t list \<Rightarrow> txlog_t outcome" where
  "txlog_write_clock os log clock =
     txlog_sync os (log\<lparr>header := (header log)\<lparr>h_vclock := clock\<rparr>\<rparr>)"

definition txlog_read_clock :: "txlog_t \<Rightarrow> vclock_t list" where
  "txlog_read_clock log = h_vclock (header log)"

text \<open>Writing at a slot beyond the end leaves a hole of zeros.\<close>

definition write_slot :: "txlog_entry_t list \<Rightarrow> nat \<Rightarrow> txlog_entry_t \<Rightarrow> txlog_entry_t list" where
  "write_slot slots i entry =
     (if i < length slots then slots[i := entry]
      else slots @ replicate (i - length slots) zero_entry @ [entry])"

definition txlog_append :: "os_t \<Rightarrow> txlog_t \<Rightarrow> txlog_entry_t \<Rightarrow> txlog_t outcome" where
  "txlog_append os log entry =
     (let written = log\<lparr>log_slots := write_slot (log_slots log) (unat (tx_count (header log))) entry\<rparr>;
          counted = written\<lparr>header := (header written)\<lparr>tx_count := tx_count (header written) + 1\<rparr>\<rparr>
      in txlog_write_clock os counted (e_vclock entry))"

definition txlog_read_entry :: "txlog_t \<Rightarrow> u32 \<Rightarrow> txlog_entry_t \<Rightarrow> txlog_entry_t" where
  "txlog_read_entry log idx out_entry =
     (if unat idx < length (log_slots log) then log_slots log ! unat idx else out_entry)"

text \<open>The search loops read every entry into the same buffer, which starts uninitialised.\<close>

fun txlog_free_loop :: "txlog_t \<Rightarrow> u32 \<Rightarrow> nat list \<Rightarrow> txlog_entry_t \<Rightarrow> bool" where
  "txlog_free_loop log t [] entry = True"
| "txlog_free_loop log t (i # is) entry =
     (let entry = txlog_read_entry log (of_nat i) entry
      in if e_transaction entry = t then False else txlog_free_loop log t is entry)"

definition txlog_free_id :: "os_t \<Rightarrow> txlog_t \<Rightarrow> u32 \<Rightarrow> bool" where
  "txlog_free_id os log t =
     txlog_free_loop log t [0..<unat (tx_count (header log))] (os_stack_entry os)"

definition txlog_last_entry :: "txlog_t \<Rightarrow> txlog_entry_t \<Rightarrow> txlog_entry_t" where
  "txlog_last_entry log out_entry = txlog_read_entry log (tx_count (header log) - 1) out_entry"

text \<open>The loop of \<^verbatim>\<open>txlog_last_tx\<close> with \<open>i\<close> entries still to look at.\<close>

fun txlog_last_loop :: "txlog_t \<Rightarrow> u32 \<Rightarrow> nat \<Rightarrow> txlog_entry_t \<Rightarrow> txlog_entry_t option" where
  "txlog_last_loop log t 0 entry_temp = None"
| "txlog_last_loop log t (Suc i) entry_temp =
     (let entry_temp = txlog_read_entry log (of_nat i) entry_temp
      in if e_transaction entry_temp = t then Some entry_temp else txlog_last_loop log t i entry_temp)"

definition txlog_last_tx :: "os_t \<Rightarrow> txlog_t \<Rightarrow> u32 \<Rightarrow> txlog_entry_t option" where
  "txlog_last_tx os log t =
     txlog_last_loop log t (nat (sint (tx_count (header log) - 1) + 1)) (os_stack_entry os)"

section \<open>The log as a list of entries\<close>

definition log_count :: "txlog_t \<Rightarrow> nat" where
  "log_count log = unat (tx_count (header log))"

definition log_entries :: "txlog_t \<Rightarrow> txlog_entry_t list" where
  "log_entries log = take (log_count log) (log_slots log)"

text \<open>Every counted entry is in the file, and \<open>n\<close> more fit before an \<^verbatim>\<open>int\<close> index overflows.\<close>

definition log_room :: "nat \<Rightarrow> txlog_t \<Rightarrow> bool" where
  "log_room n log \<longleftrightarrow> log_count log \<le> length (log_slots log) \<and> log_count log + n < 2 ^ 31"

lemma log_room_mono: "log_room (n + m) log \<Longrightarrow> log_room n log"
  by (simp add: log_room_def)

lemma length_log_entries: "log_room n log \<Longrightarrow> length (log_entries log) = log_count log"
  by (simp add: log_room_def log_entries_def)

lemma log_count_word: "log_count log < 2 ^ 32"
  using unat_less_u32 by (simp add: log_count_def)

lemma txlog_read_entry_in:
  assumes "log_room n log" and "i < log_count log"
  shows "txlog_read_entry log (of_nat i) buf = log_entries log ! i"
proof -
  have "unat (of_nat i :: u32) = i"
    using assms log_count_word [of log] by (intro unat_of_nat_small) simp
  with assms show ?thesis
    by (simp add: txlog_read_entry_def log_entries_def log_room_def)
qed

lemma txlog_free_loop_in:
  assumes "log_room n log" and "set is \<subseteq> {..<log_count log}"
  shows "txlog_free_loop log t is buf \<longleftrightarrow> (\<forall>i \<in> set is. e_transaction (log_entries log ! i) \<noteq> t)"
  using assms by (induction "is" arbitrary: buf) (auto simp: txlog_read_entry_in Let_def)

lemma txlog_free_id_spec:
  assumes "log_room n log"
  shows "txlog_free_id os log t \<longleftrightarrow> (\<forall>e \<in> set (log_entries log). e_transaction e \<noteq> t)"
proof -
  have "txlog_free_id os log t \<longleftrightarrow> (\<forall>i < log_count log. e_transaction (log_entries log ! i) \<noteq> t)"
    using txlog_free_loop_in [OF assms, of "[0..<log_count log]"]
    by (simp add: txlog_free_id_def log_count_def lessThan_atLeast0 Ball_def)
  then show ?thesis
    using length_log_entries [OF assms] by (metis in_set_conv_nth)
qed

lemma txlog_last_loop_in:
  assumes "log_room n log" and "i \<le> log_count log"
  shows "txlog_last_loop log t i buf = find (\<lambda>e. e_transaction e = t) (rev (take i (log_entries log)))"
  using assms
proof (induction i arbitrary: buf)
  case (Suc i)
  then show ?case
    by (simp add: txlog_read_entry_in Let_def take_Suc_conv_app_nth length_log_entries)
qed simp

lemma sint_count_minus_1:
  assumes "log_count log < 2 ^ 31"
  shows "nat (sint (tx_count (header log) - 1) + 1) = log_count log"
proof (cases "tx_count (header log) = 0")
  case False
  let ?c = "tx_count (header log)"
  have c: "unat (?c - 1) = log_count log - 1" "0 < log_count log"
    using False by (simp_all add: log_count_def unat_minus_one unat_gt_0)
  then have "sint (?c - 1) = int (log_count log) - 1"
    using assms by (subst sint_small) simp_all
  then show ?thesis by simp
qed (simp add: log_count_def)

lemma txlog_last_tx_spec:
  assumes "log_room n log"
  shows "txlog_last_tx os log t = find (\<lambda>e. e_transaction e = t) (rev (log_entries log))"
proof -
  have "nat (sint (tx_count (header log) - 1) + 1) = log_count log"
    using assms by (intro sint_count_minus_1) (simp add: log_room_def)
  then show ?thesis
    using txlog_last_loop_in [OF assms, of "log_count log"] length_log_entries [OF assms]
    by (simp add: txlog_last_tx_def)
qed

section \<open>Appending\<close>

lemma take_write_slot:
  "i \<le> length slots \<Longrightarrow> take (Suc i) (write_slot slots i e) = take i slots @ [e]"
  by (auto simp: write_slot_def take_Suc_conv_app_nth)

lemma final_txlog_sync [simp]: "final (txlog_sync os log) = log"
  by (simp add: txlog_sync_def)

lemma running_txlog_sync [simp]: "running (txlog_sync os log) = os_msync os"
  by (simp add: txlog_sync_def)

lemma final_txlog_write_clock:
  "final (txlog_write_clock os log clock) = log\<lparr>header := (header log)\<lparr>h_vclock := clock\<rparr>\<rparr>"
  by (simp add: txlog_write_clock_def)

lemma running_txlog_write_clock [simp]: "running (txlog_write_clock os log clock) = os_msync os"
  by (simp add: txlog_write_clock_def)

lemma txlog_write_clock_frame [simp]:
  "log_entries (final (txlog_write_clock os log clock)) = log_entries log"
  "log_room n (final (txlog_write_clock os log clock)) = log_room n log"
  "h_vclock (header (final (txlog_write_clock os log clock))) = clock"
  "log_slots (final (txlog_write_clock os log clock)) = log_slots log"
  "tx_count (header (final (txlog_write_clock os log clock))) = tx_count (header log)"
  "tm_listen_port (header (final (txlog_write_clock os log clock))) = tm_listen_port (header log)"
  "tm_port (header (final (txlog_write_clock os log clock))) = tm_port (header log)"
  "tm_host (header (final (txlog_write_clock os log clock))) = tm_host (header log)"
  by (simp_all add: final_txlog_write_clock log_entries_def log_room_def log_count_def)

lemma txlog_append_room:
  assumes "log_room (Suc n) log"
  shows "log_entries (final (txlog_append os log e)) = log_entries log @ [e]"
    and "log_room n (final (txlog_append os log e))"
proof -
  let ?log = "final (txlog_append os log e)"
  have "unat (tx_count (header log)) + 1 < 2 ^ 32"
    using assms by (simp add: log_room_def log_count_def)
  then have cnt: "log_count ?log = Suc (log_count log)"
    by (simp add: txlog_append_def log_count_def unat_Suc_small)
  have slots: "log_slots ?log = write_slot (log_slots log) (log_count log) e"
    by (simp add: txlog_append_def log_count_def)
  have le: "log_count log \<le> length (log_slots log)" using assms by (simp add: log_room_def)
  show "log_entries ?log = log_entries log @ [e]"
    using take_write_slot [OF le] by (simp add: log_entries_def cnt slots)
  show "log_room n ?log"
    using assms le by (simp add: log_room_def cnt slots) (simp add: write_slot_def)
qed

lemma running_txlog_append [simp]: "running (txlog_append os log e) = os_msync os"
  by (simp add: txlog_append_def)

lemma txlog_append_header [simp]:
  "h_vclock (header (final (txlog_append os log e))) = e_vclock e"
  "tm_listen_port (header (final (txlog_append os log e))) = tm_listen_port (header log)"
  "tm_port (header (final (txlog_append os log e))) = tm_port (header log)"
  "tm_host (header (final (txlog_append os log e))) = tm_host (header log)"
  by (simp_all add: txlog_append_def)

text \<open>What an append leaves behind, whether or not \<^verbatim>\<open>msync\<close> succeeds.\<close>

definition put_entry :: "txlog_t \<Rightarrow> txlog_entry_t \<Rightarrow> txlog_t" where
  "put_entry log e = log\<lparr>log_slots := write_slot (log_slots log) (log_count log) e,
     header := (header log)\<lparr>tx_count := tx_count (header log) + 1, h_vclock := e_vclock e\<rparr>\<rparr>"

lemma txlog_append_put:
  "txlog_append os log e = (if os_msync os then Running else Halted (Exit (-1))) (put_entry log e)"
  by (simp add: txlog_append_def txlog_write_clock_def txlog_sync_def put_entry_def log_count_def)

lemma final_txlog_append: "final (txlog_append os log e) = put_entry log e"
  by (simp add: txlog_append_put)

lemma put_entry_room:
  "log_room (Suc n) log \<Longrightarrow> log_entries (put_entry log e) = log_entries log @ [e]"
  "log_room (Suc n) log \<Longrightarrow> log_room n (put_entry log e)"
  by (rule txlog_append_room [unfolded final_txlog_append], assumption)+

lemma put_entry_head [simp]:
  "tm_listen_port (header (put_entry log e)) = tm_listen_port (header log)"
  "tm_port (header (put_entry log e)) = tm_port (header log)"
  "tm_host (header (put_entry log e)) = tm_host (header log)"
  "h_vclock (header (put_entry log e)) = e_vclock e"
  by (simp_all add: put_entry_def)

text \<open>An empty log has no last entry: the index is \<open>tx_count - 1 = 2 ^ 32 - 1\<close> and nothing is read.\<close>

lemma txlog_last_entry_spec:
  assumes "log_room n log"
  shows "txlog_last_entry log buf =
     (if log_entries log = [] then (if length (log_slots log) < 2 ^ 32 then buf else log_slots log ! (2 ^ 32 - 1))
      else last (log_entries log))"
proof (cases "log_count log = 0")
  case True
  then have "tx_count (header log) = 0" by (simp add: log_count_def unat_eq_0)
  moreover have "unat (- 1 :: u32) = 2 ^ 32 - 1" by (simp add: unsigned_minus_1_eq_mask mask_eq_exp_minus_1)
  ultimately show ?thesis
    using True by (auto simp: txlog_last_entry_def txlog_read_entry_def log_entries_def)
next
  case False
  then have "tx_count (header log) - 1 = of_nat (log_count log - 1)"
    by (simp add: log_count_def of_nat_diff unat_gt_0 Suc_le_eq)
  moreover have "log_entries log \<noteq> []" using False length_log_entries [OF assms] by auto
  ultimately show ?thesis
    using False txlog_read_entry_in [OF assms, of "log_count log - 1"] length_log_entries [OF assms]
    by (simp add: txlog_last_entry_def last_conv_nth)
qed

section \<open>The interface of the log\<close>

locale log_iface =
  fixes entries :: "'l \<Rightarrow> txlog_entry_t list"
    and room :: "nat \<Rightarrow> 'l \<Rightarrow> bool"
    and append :: "'l \<Rightarrow> txlog_entry_t \<Rightarrow> 'l outcome"
    and last_tx :: "'l \<Rightarrow> u32 \<Rightarrow> txlog_entry_t option"
    and free_id :: "'l \<Rightarrow> u32 \<Rightarrow> bool"
  assumes append_entries: "room (Suc n) l \<Longrightarrow> entries (final (append l e)) = entries l @ [e]"
    and append_room: "room (Suc n) l \<Longrightarrow> room n (final (append l e))"
    and last_tx_find: "room n l \<Longrightarrow> last_tx l t = find (\<lambda>e. e_transaction e = t) (rev (entries l))"
    and free_id_unused: "room n l \<Longrightarrow> free_id l t \<longleftrightarrow> (\<forall>e \<in> set (entries l). e_transaction e \<noteq> t)"
begin

text \<open>Look-up after append: the new entry for its own transaction, the old answer for others.\<close>

lemma last_tx_append:
  assumes "room (Suc n) l"
  shows "last_tx (final (append l e)) t = (if e_transaction e = t then Some e else last_tx l t)"
  using assms by (simp add: last_tx_find [OF append_room] last_tx_find append_entries)

lemma free_id_append:
  assumes "room (Suc n) l"
  shows "free_id (final (append l e)) t \<longleftrightarrow> e_transaction e \<noteq> t \<and> free_id l t"
  using assms by (auto simp: free_id_unused [OF append_room] free_id_unused append_entries)

lemma free_id_iff_no_last: "room n l \<Longrightarrow> free_id l t \<longleftrightarrow> last_tx l t = None"
  by (simp add: last_tx_find free_id_unused find_eq_None)

lemma last_tx_SomeD:
  assumes "room n l" and "last_tx l t = Some e"
  shows "e \<in> set (entries l)" and "e_transaction e = t"
proof -
  have "find (\<lambda>e. e_transaction e = t) (rev (entries l)) = Some e"
    using assms by (simp add: last_tx_find)
  then show "e \<in> set (entries l)" "e_transaction e = t"
    using find_SomeD by fastforce+
qed

end

interpretation tl: log_iface log_entries log_room "txlog_append os" "txlog_last_tx os" "txlog_free_id os"
  for os
  by unfold_locales
    (simp_all add: txlog_append_room txlog_last_tx_spec txlog_free_id_spec)

end
