(* ===== verification/ObjStore.thy ===== *)
theory ObjStore
  imports Server
begin

text \<open>
  The worker's object store, \<^verbatim>\<open>src/objstore.c\<close> and \<^verbatim>\<open>src/objstore.h\<close>: two integers and an
  identifier in a mapped file, so that a store survives the process that wrote it. The
  locale \<open>store_iface\<close> gives the laws of its getters and setters; its client lemma is the
  one that undoing a logged update rests on.
\<close>

section \<open>The store\<close>

record objstore_t =
  id_string :: "char list"
  lastUpdateTime :: timeval
  obj_a :: u32
  obj_b :: u32
  o_vclock :: "vclock_t list"

definition zero_store :: "timeval \<Rightarrow> objstore_t" where
  "zero_store now = \<lparr>id_string = replicate IDLEN NUL, lastUpdateTime = now, obj_a = 0, obj_b = 0,
     o_vclock = zero_clock\<rparr>"

definition objstore_init :: "os_t \<Rightarrow> objstore_t option \<Rightarrow> halt + objstore_t" where
  "objstore_init os file =
     (if \<not> os_open os then Inl (Exit (-1))
      else if \<not> os_fstat os then Inl (Exit (-2))
      else (case file of
          None \<Rightarrow> if os_write os then Inr (zero_store (os_now os)) else Inl (Exit (-3))
        | Some store \<Rightarrow> Inr store))"

text \<open>
  A failing \<^verbatim>\<open>mmap\<close> returns \<^verbatim>\<open>MAP_FAILED\<close>, which is not the \<^verbatim>\<open>NULL\<close> that \<^verbatim>\<open>objstore_init\<close> tests
  for: it returns all the same, and the first access to the store faults.
\<close>

definition objstore_mapped :: "os_t \<Rightarrow> objstore_t \<Rightarrow> halt + objstore_t" where
  "objstore_mapped os store = (if os_map_store os then Inr store else Inl SegFault)"

definition objstore_sync :: "os_t \<Rightarrow> objstore_t \<Rightarrow> vclock_t list \<Rightarrow> objstore_t outcome" where
  "objstore_sync os store vclock =
     (let s = store\<lparr>lastUpdateTime := os_now os, o_vclock := vclock\<rparr>
      in if os_msync os then Running s else Halted (Exit (-1)) s)"

definition objstore_get_a :: "objstore_t \<Rightarrow> u32" where
  "objstore_get_a store = obj_a store"

definition objstore_set_a :: "objstore_t \<Rightarrow> u32 \<Rightarrow> objstore_t" where
  "objstore_set_a store new_a = store\<lparr>obj_a := new_a\<rparr>"

definition objstore_get_b :: "objstore_t \<Rightarrow> u32" where
  "objstore_get_b store = obj_b store"

definition objstore_set_b :: "objstore_t \<Rightarrow> u32 \<Rightarrow> objstore_t" where
  "objstore_set_b store new_b = store\<lparr>obj_b := new_b\<rparr>"

definition objstore_get_id :: "objstore_t \<Rightarrow> char list" where
  "objstore_get_id store = id_string store"

definition objstore_set_id :: "objstore_t \<Rightarrow> char list \<Rightarrow> objstore_t" where
  "objstore_set_id store new_id = store\<lparr>id_string := strncpy (id_string store) new_id IDLEN\<rparr>"

definition objstore_close :: "os_t \<Rightarrow> objstore_t \<Rightarrow> objstore_t outcome" where
  "objstore_close os store = (if os_munmap os then Running store else Halted (Exit (-1)) store)"

text \<open>\<^verbatim>\<open>vclock_dump\<close>: one line per slot.\<close>

definition vclock_dump :: "vclock_t list \<Rightarrow> string" where
  "vclock_dump vclock =
     concat (map (\<lambda>c. ''  node['' @ fmt_d (nodeId c) @ ''] = '' @ fmt_d (time c) @ [CHR 0x0A]) vclock)"

text \<open>
  The text of \<^verbatim>\<open>objstore_dump\<close>; \<^verbatim>\<open>strftime(localtime(..))\<close> is the parameter \<open>date\<close>. An identifier
  that does not end within its buffer is read past it.
\<close>

definition objstore_dump :: "(int \<Rightarrow> string) \<Rightarrow> objstore_t \<Rightarrow> halt + string" where
  "objstore_dump date store =
     (if \<not> terminated (objstore_get_id store) then Inl Undef else Inr (
     ''Object file dump:'' @ [CHR 0x0A] @
     ''  A  = '' @ fmt_d (objstore_get_a store) @ [CHR 0x0A] @
     ''  B  = '' @ fmt_d (objstore_get_b store) @ [CHR 0x0A] @
     ''  ID = '' @ [CHR 0x27] @ cstr (objstore_get_id store) @ [CHR 0x27, CHR 0x0A] @
     ''Vector clock:'' @ [CHR 0x0A] @ vclock_dump (o_vclock store) @
     ''Last written at '' @ date (tv_sec (lastUpdateTime store)) @ [CHR 0x0A]))"

section \<open>What the store holds\<close>

definition store_wf :: "objstore_t \<Rightarrow> bool" where
  "store_wf st \<longleftrightarrow> length (id_string st) = IDLEN \<and> terminated (id_string st)"

text \<open>The three values a client sees.\<close>

definition obj_vals :: "objstore_t \<Rightarrow> u32 \<times> u32 \<times> string" where
  "obj_vals st = (obj_a st, obj_b st, cstr (id_string st))"

lemmas objstore_defs =
  objstore_get_a_def objstore_set_a_def objstore_get_b_def objstore_set_b_def
  objstore_get_id_def objstore_set_id_def

lemma objstore_sync_final [simp]:
  "final (objstore_sync os st vc) = st\<lparr>lastUpdateTime := os_now os, o_vclock := vc\<rparr>"
  by (simp add: objstore_sync_def Let_def)

lemma running_objstore_sync [simp]: "running (objstore_sync os st vc) = os_msync os"
  by (simp add: objstore_sync_def Let_def)

lemma store_wf_zero [simp]: "store_wf (zero_store now)"
  by (simp add: store_wf_def zero_store_def terminated_def)

lemma obj_vals_sync [simp]: "obj_vals (st\<lparr>lastUpdateTime := t, o_vclock := vc\<rparr>) = obj_vals st"
  by (simp add: obj_vals_def)

lemma store_wf_sync [simp]: "store_wf (st\<lparr>lastUpdateTime := t, o_vclock := vc\<rparr>) = store_wf st"
  by (simp add: store_wf_def)

section \<open>The interface of the store\<close>

locale store_iface =
  fixes vals :: "'s \<Rightarrow> u32 \<times> u32 \<times> string"
    and wf :: "'s \<Rightarrow> bool"
    and set_a :: "'s \<Rightarrow> u32 \<Rightarrow> 's"
    and set_b :: "'s \<Rightarrow> u32 \<Rightarrow> 's"
    and set_id :: "'s \<Rightarrow> char list \<Rightarrow> 's"
    and id_fits :: "char list \<Rightarrow> bool"
  assumes vals_set_a: "vals st = (a, b, i) \<Longrightarrow> vals (set_a st x) = (x, b, i)"
    and vals_set_b: "vals st = (a, b, i) \<Longrightarrow> vals (set_b st y) = (a, y, i)"
    and vals_set_id: "id_fits z \<Longrightarrow> vals st = (a, b, i) \<Longrightarrow> vals (set_id st z) = (a, b, cstr z)"
    and wf_set_a: "wf st \<Longrightarrow> wf (set_a st x)"
    and wf_set_b: "wf st \<Longrightarrow> wf (set_b st y)"
    and wf_set_id: "wf st \<Longrightarrow> id_fits z \<Longrightarrow> wf (set_id st z)"
begin

text \<open>Writing back all three values determines what the store holds, whatever it held.\<close>

lemma restore_vals: "id_fits z \<Longrightarrow> vals (set_id (set_b (set_a st x) y) z) = (x, y, cstr z)"
  by (cases "vals st") (metis vals_set_a vals_set_b vals_set_id)

lemma restore_wf: "wf st \<Longrightarrow> id_fits z \<Longrightarrow> wf (set_id (set_b (set_a st x) y) z)"
  by (simp add: wf_set_a wf_set_b wf_set_id)

end

text \<open>An identifier fits if it is terminated within the \<open>IDLEN\<close> characters that are copied.\<close>

definition id_fits :: "char list \<Rightarrow> bool" where
  "id_fits z \<longleftrightarrow> length (cstr z) < IDLEN"

interpretation ob: store_iface obj_vals store_wf objstore_set_a objstore_set_b objstore_set_id id_fits
  by unfold_locales
    (auto simp: obj_vals_def store_wf_def objstore_defs id_fits_def cstr_strncpy terminated_strncpy)

lemma id_fits_terminated: "terminated z \<Longrightarrow> length z = IDLEN \<Longrightarrow> id_fits z"
  using length_cstr_less [of z] by (simp add: id_fits_def)

lemma store_wf_id_fits: "store_wf st \<Longrightarrow> id_fits (id_string st)"
  by (simp add: store_wf_def id_fits_terminated)

end
