(* ===== verification/ShiViz.thy ===== *)
theory ShiViz
  imports Server CText
begin

text \<open>
  The event log for the ShiViz visualiser, \<^verbatim>\<open>src/shitviz.c\<close>. The file is opened on the
  first event, under the name of the node that appends it, and then only appended to. The
  model keeps the events; \<open>shitviz_text\<close> is what one event writes and \<open>shitviz_file\<close> the
  contents of the file.
\<close>

type_synonym viz_event = "u32 \<times> string \<times> vclock_t list"

record viz_t =
  viz_fd :: "u32 option"          \<comment> \<open>\<^verbatim>\<open>_SHITVIZ_FD\<close>: open under the name of this node\<close>
  viz_events :: "viz_event list"

definition viz_closed :: viz_t where
  "viz_closed = \<lparr>viz_fd = None, viz_events = []\<rparr>"

definition shitviz_append :: "os_t \<Rightarrow> u32 \<Rightarrow> string \<Rightarrow> vclock_t list \<Rightarrow> viz_t \<Rightarrow> viz_t outcome" where
  "shitviz_append os node msg vclock v =
     (if viz_fd v = None \<and> \<not> os_fopen os then Halted AssertFail v
      else Running \<lparr>viz_fd = (case viz_fd v of None \<Rightarrow> Some node | Some n \<Rightarrow> Some n),
                    viz_events = viz_events v @ [(node, msg, vclock)]\<rparr>)"

text \<open>The loop over the slots: free slots and slots at time 0 are left out; a comma precedes
  every printed slot but slot 0.\<close>

fun shitviz_nodes :: "nat \<Rightarrow> vclock_t list \<Rightarrow> string" where
  "shitviz_nodes i [] = []"
| "shitviz_nodes i (c # cs) =
     (if nodeId c = 0 \<or> time c = 0 then []
      else (if i \<noteq> 0 then '', '' else []) @
        CHR 0x22 # CHR ''N'' # fmt_d (nodeId c) @ CHR 0x22 # '': '' @ fmt_d (time c))
     @ shitviz_nodes (Suc i) cs"

fun shitviz_text :: "viz_event \<Rightarrow> string" where
  "shitviz_text (node, msg, vclock) =
     msg @ [CHR 0x0A] @ ''N'' @ fmt_d node @ '' { '' @ shitviz_nodes 0 vclock @ '' }'' @ [CHR 0x0A]"

definition shitviz_file_name :: "u32 \<Rightarrow> string" where
  "shitviz_file_name node = ''ShiViz_'' @ fmt_d node @ ''.dat''"

definition shitviz_file :: "viz_t \<Rightarrow> string" where
  "shitviz_file v = concat (map shitviz_text (viz_events v))"

lemma shitviz_append_ok:
  "viz_fd v \<noteq> None \<or> os_fopen os \<Longrightarrow> \<exists>v'. shitviz_append os node msg vc v = Running v' \<and>
     viz_fd v' \<noteq> None \<and> shitviz_file v' = shitviz_file v @ shitviz_text (node, msg, vc)"
  by (auto simp: shitviz_append_def shitviz_file_def split: option.splits)

end
