(* ===== verification/TWorker.thy ===== *)
theory TWorker
  imports TxLog ObjStore ShiViz
begin

text \<open>
  The worker, \<^verbatim>\<open>src/tworker.c\<close>, \<^verbatim>\<open>src/tworker.h\<close> and \<^verbatim>\<open>src/tx_worker_thread.c\<close>: one
  definition per \<^verbatim>\<open>case\<close> of the command loop of \<^verbatim>\<open>main\<close>, the roll-back of updates, the
  transaction thread with its two loops, and the start-up with its recovery.

  The main thread and the transaction thread share \<^verbatim>\<open>worker_state_t\<close> without any locking. The
  model interleaves them at the granularity of one iteration of a loop: the thread is the
  component \<open>wk_pc\<close>, which says which of its loops it is in. \<open>cmd_server\<close> is the local variable
  of \<^verbatim>\<open>main\<close>; the datagrams sent are kept in \<open>wk_out\<close>. \<^verbatim>\<open>printf\<close> to standard output is left
  out, except that printing an unterminated identifier is undefined; sleeping has no effect
  on the state.
\<close>

section \<open>State\<close>

datatype thread_pc =
    TIdle        \<comment> \<open>no transaction thread\<close>
  | TLoop        \<comment> \<open>in the loop of \<^verbatim>\<open>tx_worker_thread\<close>\<close>
  | TUncertain   \<comment> \<open>in the loop of \<^verbatim>\<open>tx_worker_uncertain\<close>\<close>

record worker_state_t =
  node_id :: u32
  wk_server :: "server_t option"
  wk_log :: txlog_t
  wk_vclock :: "vclock_t list"
  wk_store :: objstore_t
  wk_tm_port :: u32
  wk_tm_host :: "char list"
  wk_transaction :: u32
  wk_delay :: u32
  is_active :: bool
  do_commit :: bool
  do_abort :: bool
  uncertain :: bool
  wk_pc :: thread_pc
  cmd_server :: "server_t option"
  wk_viz :: viz_t
  wk_out :: "datagram list"

section \<open>Calls into the other components\<close>

definition wk_viz_append :: "os_t \<Rightarrow> string \<Rightarrow> worker_state_t \<Rightarrow> worker_state_t outcome" where
  "wk_viz_append os msg s =
     map_outcome (\<lambda>v. s\<lparr>wk_viz := v\<rparr>) (shitviz_append os (node_id s) msg (wk_vclock s) (wk_viz s))"

definition wk_send :: "os_t \<Rightarrow> message_t \<Rightarrow> worker_state_t \<Rightarrow> worker_state_t outcome" where
  "wk_send os msg s =
     attempt (server_send_to os (wk_server s) (wk_tm_host s) (wk_tm_port s) msg) s
       (\<lambda>d. Running (s\<lparr>wk_out := wk_out s @ [d]\<rparr>))"

definition wk_append :: "os_t \<Rightarrow> txlog_entry_t \<Rightarrow> worker_state_t \<Rightarrow> worker_state_t outcome" where
  "wk_append os entry s = map_outcome (\<lambda>l. s\<lparr>wk_log := l\<rparr>) (txlog_append os (wk_log s) entry)"

definition wk_write_clock :: "os_t \<Rightarrow> worker_state_t \<Rightarrow> worker_state_t outcome" where
  "wk_write_clock os s = map_outcome (\<lambda>l. s\<lparr>wk_log := l\<rparr>) (txlog_write_clock os (wk_log s) (wk_vclock s))"

definition wk_sync :: "os_t \<Rightarrow> vclock_t list \<Rightarrow> worker_state_t \<Rightarrow> worker_state_t outcome" where
  "wk_sync os vc s = map_outcome (\<lambda>st. s\<lparr>wk_store := st\<rparr>) (objstore_sync os (wk_store s) vc)"

text \<open>Formatting the identifier with \<^verbatim>\<open>%s\<close> reads it up to its NUL.\<close>

definition wk_read_id :: "worker_state_t \<Rightarrow> worker_state_t outcome" where
  "wk_read_id s = (if terminated (objstore_get_id (wk_store s)) then Running s else Halted Undef s)"

section \<open>Rolling back\<close>

text \<open>The loop of \<^verbatim>\<open>update_rollback\<close> with \<open>i\<close> entries still to look at.\<close>

fun rollback_loop :: "os_t \<Rightarrow> nat \<Rightarrow> txlog_entry_t \<Rightarrow> worker_state_t \<Rightarrow> worker_state_t outcome" where
  "rollback_loop os 0 entry s = Running s"
| "rollback_loop os (Suc i) entry s =
     (let entry = txlog_read_entry (wk_log s) (of_nat i) entry
      in if e_type entry = log_code LOG_UPDATE
         then let store = objstore_set_a (wk_store s) (old_a entry);
                  store = objstore_set_b store (old_b entry);
                  store = objstore_set_id store (old_id entry)
              in bnd (wk_sync os (e_vclock entry) (s\<lparr>wk_store := store\<rparr>)) (\<lambda>s.
                 bnd (wk_read_id s) (rollback_loop os i entry))
         else if e_type entry = log_code LOG_BEGIN \<or> e_type entry = log_code LOG_ABORT
              \<or> e_type entry = log_code LOG_COMMIT
         then wk_append os (txentry_init LOG_ABORT (e_transaction entry) (e_vclock entry)) s
         else rollback_loop os i entry s)"

definition update_rollback :: "os_t \<Rightarrow> worker_state_t \<Rightarrow> worker_state_t outcome" where
  "update_rollback os s =
     rollback_loop os (nat (sint (tx_count (header (wk_log s)) - 1) + 1)) (os_stack_entry os) s"

section \<open>The transaction thread\<close>

text \<open>The parts of \<^verbatim>\<open>tx_manager_spawn\<close>: the address of the manager goes into the log's header;
  a socket is opened and its port goes there too.\<close>

definition log_head :: "(txlog_head_t \<Rightarrow> txlog_head_t) \<Rightarrow> worker_state_t \<Rightarrow> worker_state_t" where
  "log_head f s = s\<lparr>wk_log := (wk_log s)\<lparr>header := f (header (wk_log s))\<rparr>\<rparr>"

definition remember_tm :: "char list \<Rightarrow> u32 \<Rightarrow> worker_state_t \<Rightarrow> worker_state_t outcome" where
  "remember_tm host prt s =
     (let s = log_head (\<lambda>h. h\<lparr>tm_port := prt\<rparr>) s
      in attempt (strcpy (tm_host (header (wk_log s))) host) s
           (\<lambda>d. Running (log_head (\<lambda>h. h\<lparr>tm_host := d\<rparr>) s)))"

definition open_listener :: "os_t \<Rightarrow> u32 \<Rightarrow> worker_state_t \<Rightarrow> worker_state_t outcome" where
  "open_listener os prt s =
     attempt (server_alloc os prt 10) s (\<lambda>srv.
       let srv = snd (server_listen os srv)
       in Running (log_head (\<lambda>h. h\<lparr>tm_listen_port := srv_port srv\<rparr>) (s\<lparr>wk_server := Some srv\<rparr>)))"

text \<open>
  The thread that is created goes into the uncertain loop at once if \<^verbatim>\<open>uncertain\<close> is set.
\<close>

definition tx_manager_spawn ::
  "os_t \<Rightarrow> char list \<Rightarrow> u32 \<Rightarrow> u32 \<Rightarrow> worker_state_t \<Rightarrow> worker_state_t outcome" where
  "tx_manager_spawn os host prt transaction s =
     (let s = s\<lparr>is_active := True, wk_transaction := transaction, wk_server := None,
                wk_tm_port := prt, do_abort := False, do_commit := True\<rparr>
      in attempt (strcpy (wk_tm_host s) host) s (\<lambda>d.
         let s = s\<lparr>wk_tm_host := d\<rparr>
         in bnd (if uncertain s then Running s else remember_tm host prt s) (\<lambda>s.
            bnd (open_listener os (if uncertain s then tm_listen_port (header (wk_log s)) else 0) s) (\<lambda>s.
            Running (s\<lparr>wk_pc := (if uncertain s then TUncertain else TLoop)\<rparr>)))))"

text \<open>The end of the thread.\<close>

definition thread_exit :: "worker_state_t \<Rightarrow> worker_state_t outcome" where
  "thread_exit s = attempt (server_shutdown (wk_server s)) s
     (\<lambda>srv. Running (s\<lparr>wk_server := srv, is_active := False, wk_pc := TIdle\<rparr>))"

text \<open>The clock part that both loops of the thread share.\<close>

definition thread_clock :: "os_t \<Rightarrow> message_t \<Rightarrow> worker_state_t \<Rightarrow> worker_state_t outcome" where
  "thread_clock os msg s =
     (let s = s\<lparr>wk_vclock := vclock_update (node_id s) (wk_vclock s) (m_vclock msg)\<rparr>
      in attempt (vclock_increment (node_id s) (wk_vclock s)) s
           (\<lambda>vc. wk_write_clock os (s\<lparr>wk_vclock := vc\<rparr>)))"

definition log_decision :: "os_t \<Rightarrow> worker_state_t \<Rightarrow> worker_state_t outcome" where
  "log_decision os s = bnd (wk_viz_append os ''Commit'' s)
     (\<lambda>s. wk_append os (txentry_init LOG_COMMIT (wk_transaction s) (wk_vclock s)) s)"

definition wk_roll_back :: "os_t \<Rightarrow> worker_state_t \<Rightarrow> worker_state_t outcome" where
  "wk_roll_back os s = bnd (wk_viz_append os ''Abort'' s) (update_rollback os)"

text \<open>One iteration of \<^verbatim>\<open>tx_worker_uncertain\<close>; both of its returns end the thread.\<close>

definition tx_worker_uncertain :: "os_t \<Rightarrow> recv_event \<Rightarrow> worker_state_t \<Rightarrow> worker_state_t outcome" where
  "tx_worker_uncertain os ev s =
     attempt (server_recv (wk_server s) ev zero_msg no_addr) s (\<lambda>(bytes, msg, recv_addr).
       if bytes \<le> 0
       then wk_send os ((message_init (Some (wk_vclock s)))\<lparr>m_type := cmd_code ASK, m_tid := wk_transaction s\<rparr>) s
       else bnd (thread_clock os msg s) (\<lambda>s.
         case cmd_of (m_type msg) of
           Some COMMIT \<Rightarrow> bnd (log_decision os s) (\<lambda>s. thread_exit (s\<lparr>uncertain := False\<rparr>))
         | Some ABORT \<Rightarrow> bnd (wk_roll_back os s) (\<lambda>s. thread_exit (s\<lparr>uncertain := False\<rparr>))
         | Some PREPARE_TO_COMMIT \<Rightarrow> wk_viz_append os ''Unexpected PREPARE in uncertain state'' s
         | _ \<Rightarrow> wk_viz_append os ''Unknown command in uncertain state'' s))"

definition vote_commit :: "os_t \<Rightarrow> worker_state_t \<Rightarrow> worker_state_t outcome" where
  "vote_commit os s =
     (let vote = (message_init (Some (wk_vclock s)))\<lparr>m_tid := wk_transaction s, m_type := cmd_code PREPARED\<rparr>
      in bnd (wk_viz_append os ''Voting COMMIT'' s) (\<lambda>s.
         bnd (wk_append os (txentry_init LOG_PREPARED (wk_transaction s) (wk_vclock s)) s) (\<lambda>s.
         if sint (wk_delay s) < 0 then Halted (Exit 1) s
         else bnd (wk_send os vote s) (\<lambda>s. Running (s\<lparr>uncertain := True, wk_pc := TUncertain\<rparr>)))))"

definition vote_abort :: "os_t \<Rightarrow> worker_state_t \<Rightarrow> worker_state_t outcome" where
  "vote_abort os s =
     (let vote = (message_init (Some (wk_vclock s)))\<lparr>m_tid := wk_transaction s, m_type := cmd_code ABORT\<rparr>
      in bnd (wk_viz_append os ''Voting ABORT'' s) (\<lambda>s.
         let s = s\<lparr>do_abort := False, do_commit := True\<rparr>
         in if sint (wk_delay s) < 0 then Halted (Exit 1) s
            else bnd (wk_send os vote s) (\<lambda>s. Running (s\<lparr>uncertain := True, wk_pc := TUncertain\<rparr>))))"

text \<open>One iteration of the loop of \<^verbatim>\<open>tx_worker_thread\<close>.\<close>

definition tx_worker_loop :: "os_t \<Rightarrow> recv_event \<Rightarrow> worker_state_t \<Rightarrow> worker_state_t outcome" where
  "tx_worker_loop os ev s =
     attempt (server_recv (wk_server s) ev zero_msg no_addr) s (\<lambda>(bytes, msg, recv_addr).
       if bytes \<le> 0 then Running s
       else bnd (thread_clock os msg s) (\<lambda>s.
         case cmd_of (m_type msg) of
           Some PREPARE_TO_COMMIT \<Rightarrow>
             if do_commit s then vote_commit os s
             else if do_abort s then vote_abort os s
             else wk_viz_append os ''Dunno what to do for PREPARE :('' s
         | Some TX_ERROR \<Rightarrow>
             if \<not> terminated (m_strdata msg) then Halted Undef s
             else bnd (wk_viz_append os (''Manager Error: '' @ cstr (m_strdata msg)) s)
                    (\<lambda>s. if m_value msg \<noteq> 0 then thread_exit s else Running s)
         | Some COMMIT \<Rightarrow> bnd (log_decision os s) thread_exit
         | Some ABORT \<Rightarrow> bnd (wk_roll_back os s) thread_exit
         | _ \<Rightarrow> wk_viz_append os ''Unknown command'' s))"

definition tx_worker_thread :: "os_t \<Rightarrow> recv_event \<Rightarrow> worker_state_t \<Rightarrow> worker_state_t outcome" where
  "tx_worker_thread os ev s = (case wk_pc s of
       TIdle \<Rightarrow> Running s
     | TLoop \<Rightarrow> tx_worker_loop os ev s
     | TUncertain \<Rightarrow> tx_worker_uncertain os ev s)"

section \<open>The command loop, one definition per case\<close>

text \<open>\<^verbatim>\<open>BEGINTX\<close> and \<^verbatim>\<open>JOINTX\<close> differ in the message they send and the event they note.\<close>

definition wk_enter :: "os_t \<Rightarrow> cmdType \<Rightarrow> string \<Rightarrow> message_t \<Rightarrow> worker_state_t \<Rightarrow> worker_state_t outcome" where
  "wk_enter os cmd txt msg s =
     (if is_active s then Running s
      else bnd (tx_manager_spawn os (m_strdata msg) (m_port msg) (m_tid msg) s) (\<lambda>s.
           if wk_server s = None then Halted AssertFail s
           else bnd (wk_send os ((message_init (Some (wk_vclock s)))\<lparr>m_type := cmd_code cmd, m_tid := m_tid msg\<rparr>) s) (\<lambda>s.
           bnd (wk_append os (txentry_init LOG_BEGIN (wk_transaction s) (wk_vclock s)) s)
             (wk_viz_append os (txt @ fmt_d (m_tid msg))))))"

definition wk_begin :: "os_t \<Rightarrow> message_t \<Rightarrow> worker_state_t \<Rightarrow> worker_state_t outcome" where
  "wk_begin os = wk_enter os BEGINTX ''PASS: Begin transaction ''"

definition wk_join :: "os_t \<Rightarrow> message_t \<Rightarrow> worker_state_t \<Rightarrow> worker_state_t outcome" where
  "wk_join os = wk_enter os JOINTX ''PASS: Join transaction ''"

text \<open>The lines that log the old values, in front of each of the three updates.\<close>

definition wk_log_old :: "os_t \<Rightarrow> worker_state_t \<Rightarrow> worker_state_t outcome" where
  "wk_log_old os s =
     (let entry = (txentry_init LOG_UPDATE (wk_transaction s) (wk_vclock s))
                    \<lparr>old_a := objstore_get_a (wk_store s), old_b := objstore_get_b (wk_store s)\<rparr>
      in attempt (strcpy (old_id entry) (objstore_get_id (wk_store s))) s
           (\<lambda>d. wk_append os (entry\<lparr>old_id := d\<rparr>) s))"

definition wk_new_a :: "os_t \<Rightarrow> message_t \<Rightarrow> worker_state_t \<Rightarrow> worker_state_t outcome" where
  "wk_new_a os msg s =
     bnd (if is_active s then wk_log_old os s else Running s) (\<lambda>s.
     bnd (wk_sync os (wk_vclock s) (s\<lparr>wk_store := objstore_set_a (wk_store s) (m_value msg)\<rparr>)) (\<lambda>s.
     wk_viz_append os (''Set A = '' @ fmt_d (objstore_get_a (wk_store s))) s))"

definition wk_new_b :: "os_t \<Rightarrow> message_t \<Rightarrow> worker_state_t \<Rightarrow> worker_state_t outcome" where
  "wk_new_b os msg s =
     bnd (if is_active s then wk_log_old os s else Running s) (\<lambda>s.
     bnd (wk_sync os (wk_vclock s) (s\<lparr>wk_store := objstore_set_b (wk_store s) (m_value msg)\<rparr>)) (\<lambda>s.
     wk_viz_append os (''Set B = '' @ fmt_d (objstore_get_b (wk_store s))) s))"

text \<open>Inside a transaction the new identifier is not synchronised.\<close>

definition wk_new_id :: "os_t \<Rightarrow> message_t \<Rightarrow> worker_state_t \<Rightarrow> worker_state_t outcome" where
  "wk_new_id os msg s =
     bnd (if is_active s
          then bnd (wk_log_old os s)
                 (\<lambda>s. Running (s\<lparr>wk_store := objstore_set_id (wk_store s) (m_strdata msg)\<rparr>))
          else wk_sync os (wk_vclock s) (s\<lparr>wk_store := objstore_set_id (wk_store s) (m_strdata msg)\<rparr>)) (\<lambda>s.
     bnd (wk_read_id s) (\<lambda>s.
     wk_viz_append os (''Set ID = '' @ cstr (objstore_get_id (wk_store s))) s))"

definition wk_delay_response :: "os_t \<Rightarrow> message_t \<Rightarrow> worker_state_t \<Rightarrow> worker_state_t outcome" where
  "wk_delay_response os msg s =
     (if \<not> is_active s then wk_viz_append os ''Cannot pass delay - no active transaction'' s
      else bnd (wk_viz_append os ''Passing DELAY to manager'' s)
             (\<lambda>s. wk_send os (message_write_delay (message_init (Some (wk_vclock s))) (m_delay msg)) s))"

definition wk_crash :: "os_t \<Rightarrow> worker_state_t \<Rightarrow> worker_state_t outcome" where
  "wk_crash os s = bnd (wk_viz_append os ''Crashing'' s) (\<lambda>s. Halted (Exit 1) s)"

definition wk_commit :: "os_t \<Rightarrow> worker_state_t \<Rightarrow> worker_state_t outcome" where
  "wk_commit os s =
     (if \<not> is_active s then wk_viz_append os ''Cannot commit - no active transaction'' s
      else bnd (wk_viz_append os ''Passing COMMIT to manager'' s)
             (\<lambda>s. wk_send os ((message_write_commit (message_init (Some (wk_vclock s))))\<lparr>m_tid := wk_transaction s\<rparr>) s))"

definition wk_commit_crash :: "os_t \<Rightarrow> worker_state_t \<Rightarrow> worker_state_t outcome" where
  "wk_commit_crash os s =
     (if \<not> is_active s then wk_viz_append os ''Cannot pass commit crash - no active transaction'' s
      else bnd (wk_send os (message_write_commit_crash (message_init (Some (wk_vclock s)))) s)
             (wk_viz_append os ''Passing COMMIT CRASH to manager''))"

text \<open>The message that is built for the manager is never sent.\<close>

definition wk_abort :: "os_t \<Rightarrow> worker_state_t \<Rightarrow> worker_state_t outcome" where
  "wk_abort os s =
     (if \<not> is_active s then wk_viz_append os ''Cannot abort - no active transaction'' s
      else bnd (update_rollback os s) (\<lambda>s.
           wk_viz_append os ''Aborting transaction'' (s\<lparr>do_commit := False, do_abort := True\<rparr>)))"

definition wk_abort_crash :: "os_t \<Rightarrow> worker_state_t \<Rightarrow> worker_state_t outcome" where
  "wk_abort_crash os s =
     (if \<not> is_active s then wk_viz_append os ''Cannot pass abort crash - no active transaction'' s
      else bnd (wk_send os (message_write_abort_crash (message_init (Some (wk_vclock s)))) s)
             (wk_viz_append os ''Passing ABORT CRASH to manager''))"

definition wk_vote_abort :: "os_t \<Rightarrow> worker_state_t \<Rightarrow> worker_state_t outcome" where
  "wk_vote_abort os s =
     wk_viz_append os ''Will vote ABORT on next PREPARE'' (s\<lparr>do_abort := True, do_commit := False\<rparr>)"

definition wk_handle :: "os_t \<Rightarrow> message_t \<Rightarrow> worker_state_t \<Rightarrow> worker_state_t outcome" where
  "wk_handle os msg s = (case cmd_of (m_type msg) of
       Some BEGINTX \<Rightarrow> wk_begin os msg s
     | Some JOINTX \<Rightarrow> wk_join os msg s
     | Some NEW_A \<Rightarrow> wk_new_a os msg s
     | Some NEW_B \<Rightarrow> wk_new_b os msg s
     | Some NEW_IDSTR \<Rightarrow> wk_new_id os msg s
     | Some DELAY_RESPONSE \<Rightarrow> wk_delay_response os msg s
     | Some CRASH \<Rightarrow> wk_crash os s
     | Some COMMIT \<Rightarrow> wk_commit os s
     | Some COMMIT_CRASH \<Rightarrow> wk_commit_crash os s
     | Some ABORT \<Rightarrow> wk_abort os s
     | Some ABORT_CRASH \<Rightarrow> wk_abort_crash os s
     | Some VOTE_ABORT \<Rightarrow> wk_vote_abort os s
     | _ \<Rightarrow> wk_viz_append os ''Unknown command'' s)"

text \<open>One iteration of the \<^verbatim>\<open>while(1)\<close> loop of \<^verbatim>\<open>main\<close>. Commands carry no clock to merge.\<close>

definition wk_command :: "os_t \<Rightarrow> recv_event \<Rightarrow> worker_state_t \<Rightarrow> worker_state_t outcome" where
  "wk_command os ev s =
     attempt (server_recv (cmd_server s) ev zero_msg no_addr) s (\<lambda>(bytes, msg, recv_addr).
       if bytes \<le> 0 then Running s
       else attempt (vclock_increment (node_id s) (wk_vclock s)) s (\<lambda>vc.
            bnd (wk_write_clock os (s\<lparr>wk_vclock := vc\<rparr>)) (wk_handle os msg)))"

text \<open>A step of the process: an iteration of one of its threads.\<close>

datatype thread = MainThread | TxThread

definition wk_step :: "thread \<times> os_t \<times> recv_event \<Rightarrow> worker_state_t \<Rightarrow> worker_state_t outcome" where
  "wk_step = (\<lambda>(th, os, ev) s. case th of
       MainThread \<Rightarrow> wk_command os ev s
     | TxThread \<Rightarrow> tx_worker_thread os ev s)"

section \<open>Start-up\<close>

text \<open>What the last entry of the log makes a starting worker do.\<close>

definition wk_recover :: "os_t \<Rightarrow> worker_state_t \<Rightarrow> worker_state_t outcome" where
  "wk_recover os s =
     (let last_entry = txlog_last_entry (wk_log s) (os_stack_entry os)
      in case log_of (e_type last_entry) of
           Some LOG_PREPARED \<Rightarrow>
             (let s = s\<lparr>uncertain := True, is_active := True\<rparr>
              in tx_manager_spawn os (tm_host (header (wk_log s))) (tm_port (header (wk_log s)))
                   (e_transaction last_entry) s)
         | Some LOG_UPDATE \<Rightarrow> update_rollback os s
         | _ \<Rightarrow> Running s)"

text \<open>
  \<^verbatim>\<open>main\<close> up to its loop. \<open>w0\<close> is what the uninitialised local \<^verbatim>\<open>wstate\<close> holds; \<open>stored\<close> and
  \<open>logged\<close> are the files there are. A port that does not convert is reported and used all
  the same.
\<close>

definition wk_init :: "worker_state_t \<Rightarrow> u32 \<Rightarrow> objstore_t \<Rightarrow> txlog_t \<Rightarrow> worker_state_t" where
  "wk_init w0 prt store log =
     w0\<lparr>node_id := prt, wk_store := store, wk_log := log, wk_vclock := txlog_read_clock log,
       wk_pc := TIdle, cmd_server := None, wk_viz := viz_closed, wk_out := []\<rparr>"

text \<open>The first accesses to the store fault if it could not be mapped.\<close>

definition wk_with_store ::
  "os_t \<Rightarrow> (worker_state_t \<Rightarrow> worker_state_t outcome) \<Rightarrow> worker_state_t \<Rightarrow> worker_state_t outcome" where
  "wk_with_store os f s = attempt (objstore_mapped os (wk_store s)) s (\<lambda>store. f s)"

definition wk_wake :: "os_t \<Rightarrow> worker_state_t \<Rightarrow> worker_state_t outcome" where
  "wk_wake os s =
     bnd (if \<not> vclock_has (wk_vclock s) (node_id s)
          then attempt (vclock_add (wk_vclock s) (node_id s)) s
                 (\<lambda>vc. wk_with_store os (wk_sync os vc) (s\<lparr>wk_vclock := vc\<rparr>))
          else attempt (vclock_increment (node_id s) (wk_vclock s)) s
                 (\<lambda>vc. Running (s\<lparr>wk_vclock := vc\<rparr>))) (\<lambda>s.
     bnd (wk_with_store os wk_read_id s) (wk_viz_append os ''Started worker''))"

definition wk_boot :: "os_t \<Rightarrow> worker_state_t \<Rightarrow> worker_state_t outcome" where
  "wk_boot os s =
     bnd (wk_wake os s) (\<lambda>s.
     bnd (wk_recover os s) (\<lambda>s.
     attempt (server_alloc os (node_id s) 10) s
       (\<lambda>srv. Running (s\<lparr>cmd_server := Some (snd (server_listen os srv))\<rparr>))))"

definition wk_main_start ::
  "os_t \<Rightarrow> worker_state_t \<Rightarrow> char list list \<Rightarrow> objstore_t option \<Rightarrow> txlog_t option \<Rightarrow> halt + worker_state_t outcome" where
  "wk_main_start os w0 argv stored logged =
     (if length argv \<noteq> 2 then Inl (Exit (-1))
      else let prt = ucast (fst (strtoul10 (argv ! 1))) in
        (case objstore_init os stored of Inl h \<Rightarrow> Inl h
         | Inr store \<Rightarrow> (case txlog_open os logged of Inl h \<Rightarrow> Inl h
         | Inr log \<Rightarrow> (case txlog_mapped os log of Inl h \<Rightarrow> Inl h
         | Inr log \<Rightarrow> Inr (wk_boot os (wk_init w0 prt store log))))))"

end
