(* ===== verification/TWorkerUndo.thy ===== *)
theory TWorkerUndo
  imports TWorker
begin

text \<open>
  What undoing means for a worker. \<open>committed_vals\<close> is what its store would hold if the updates
  since the last beginning or decision in its log were undone. The lemmas say that
  \<^verbatim>\<open>update_rollback\<close> establishes these values, and that every other effect a handler is made
  of leaves them alone, even when the process stops half way.
\<close>

section \<open>Undoing, abstractly\<close>

type_synonym vals = "u32 \<times> u32 \<times> string"

definition is_update :: "txlog_entry_t \<Rightarrow> bool" where
  "is_update e \<longleftrightarrow> e_type e = log_code LOG_UPDATE"

definition boundary :: "txlog_entry_t \<Rightarrow> bool" where
  "boundary e \<longleftrightarrow> e_type e = log_code LOG_BEGIN \<or> e_type e = log_code LOG_ABORT \<or> e_type e = log_code LOG_COMMIT"

definition old_vals :: "txlog_entry_t \<Rightarrow> vals" where
  "old_vals e = (old_a e, old_b e, cstr (old_id e))"

text \<open>The entries since the last boundary, oldest first.\<close>

definition since :: "txlog_entry_t list \<Rightarrow> txlog_entry_t list" where
  "since es = rev (takeWhile (\<lambda>e. \<not> boundary e) (rev es))"

text \<open>The values before the first of the updates since the last boundary.\<close>

definition undo_vals :: "txlog_entry_t list \<Rightarrow> vals \<Rightarrow> vals" where
  "undo_vals es v = (case filter is_update (since es) of [] \<Rightarrow> v | u # _ \<Rightarrow> old_vals u)"

definition committed_vals :: "worker_state_t \<Rightarrow> vals" where
  "committed_vals s = undo_vals (log_entries (wk_log s)) (obj_vals (wk_store s))"

lemma update_no_boundary [simp]: "is_update e \<Longrightarrow> \<not> boundary e"
  by (auto simp: is_update_def boundary_def)

lemma since_append [simp]: "since (es @ [e]) = (if boundary e then [] else since es @ [e])"
  by (simp add: since_def)

lemma since_Nil [simp]: "since [] = []"
  by (simp add: since_def)

lemma undo_vals_Nil [simp]: "undo_vals [] v = v"
  by (simp add: undo_vals_def)

lemma undo_vals_boundary [simp]: "boundary e \<Longrightarrow> undo_vals (es @ [e]) v = v"
  by (simp add: undo_vals_def)

lemma undo_vals_update [simp]: "is_update e \<Longrightarrow> undo_vals (es @ [e]) v = undo_vals es (old_vals e)"
  by (auto simp: undo_vals_def split: list.splits)

lemma undo_vals_other [simp]: "\<not> boundary e \<Longrightarrow> \<not> is_update e \<Longrightarrow> undo_vals (es @ [e]) v = undo_vals es v"
  by (auto simp: undo_vals_def split: list.splits)

text \<open>Undoing twice is undoing once, also half way.\<close>

lemma undo_vals_idem [simp]: "undo_vals es (undo_vals es v) = undo_vals es v"
  by (simp add: undo_vals_def split: list.splits)

lemma entry_types [simp]:
  "is_update (txentry_init ty t vc) = (ty = LOG_UPDATE)"
  "boundary (txentry_init ty t vc) = (ty = LOG_BEGIN \<or> ty = LOG_ABORT \<or> ty = LOG_COMMIT)"
  unfolding is_update_def boundary_def txentry_init_fields log_code_inject by (rule refl)+

section \<open>Well-formed workers\<close>

definition ids_ok :: "txlog_entry_t list \<Rightarrow> bool" where
  "ids_ok es \<longleftrightarrow> (\<forall>e \<in> set es. is_update e \<longrightarrow> id_fits (old_id e))"

definition wk_wf :: "nat \<Rightarrow> worker_state_t \<Rightarrow> bool" where
  "wk_wf n s \<longleftrightarrow> log_room n (wk_log s) \<and> ids_ok (log_entries (wk_log s)) \<and> store_wf (wk_store s)"

lemma wk_wf_cmd [simp]: "wk_wf n (s\<lparr>cmd_server := c\<rparr>) = wk_wf n s"
  by (simp add: wk_wf_def)

lemma ids_ok_append [simp]: "ids_ok (es @ fs) \<longleftrightarrow> ids_ok es \<and> ids_ok fs"
  by (auto simp: ids_ok_def)

lemma wk_wf_mono: "wk_wf (Suc n) s \<Longrightarrow> wk_wf n s"
  by (simp add: wk_wf_def log_room_def)

lemma wk_wf_0: "wk_wf n s \<Longrightarrow> wk_wf 0 s"
  by (simp add: wk_wf_def log_room_def)

text \<open>
  The invariant of a run: a well-formed worker and, where \<open>V\<close> says so, the committed values.
\<close>

definition wk_keeps :: "vals option \<Rightarrow> nat \<Rightarrow> worker_state_t \<Rightarrow> bool" where
  "wk_keeps V n s \<longleftrightarrow> wk_wf n s \<and> (case V of None \<Rightarrow> True | Some v \<Rightarrow> committed_vals s = v)"

text \<open>What the invariant depends on: the log's entries and the store's values.\<close>

lemma wk_keeps_cong:
  assumes "wk_keeps V n s" and "log_entries (wk_log s') = log_entries (wk_log s)"
    and "log_room n (wk_log s) \<Longrightarrow> log_room m (wk_log s')"
    and "obj_vals (wk_store s') = obj_vals (wk_store s)" and "store_wf (wk_store s) \<Longrightarrow> store_wf (wk_store s')"
  shows "wk_keeps V m s'"
  using assms by (auto simp: wk_keeps_def wk_wf_def committed_vals_def split: option.splits)

lemma wk_keeps_mono: "wk_keeps V (Suc n) s \<Longrightarrow> wk_keeps V n s"
  by (auto simp: wk_keeps_def dest: wk_wf_mono)

lemma wk_keeps_0: "wk_keeps V n s \<Longrightarrow> wk_keeps V 0 s"
  by (auto simp: wk_keeps_def dest: wk_wf_0)

section \<open>Effects\<close>

abbreviation wk_ensures :: "vals option \<Rightarrow> nat \<Rightarrow> worker_state_t outcome \<Rightarrow> bool" where
  "wk_ensures V n \<equiv> ensures (wk_keeps V n) (wk_keeps V 0)"

lemma wk_ensures_final: "wk_keeps V n (final m) \<Longrightarrow> wk_ensures V n m"
  by (rule ensures_final) (auto intro: wk_keeps_0)

lemma wk_ensures_bnd:
  "wk_ensures V n m \<Longrightarrow> (\<And>s. wk_keeps V n s \<Longrightarrow> wk_ensures V k (f s)) \<Longrightarrow> wk_ensures V k (bnd m f)"
  by (rule ensures_bnd)

lemma viz_keeps [simp]: "wk_keeps V n s \<Longrightarrow> wk_ensures V n (wk_viz_append os t s)"
  by (rule wk_ensures_final) (auto simp: wk_viz_append_def intro: wk_keeps_cong)

lemma send_keeps [simp]: "wk_keeps V n s \<Longrightarrow> wk_ensures V n (wk_send os m s)"
  unfolding wk_send_def by (rule ensures_attempt) (auto intro: wk_keeps_cong wk_keeps_0)

lemma clock_keeps [simp]: "wk_keeps V n s \<Longrightarrow> wk_ensures V n (wk_write_clock os s)"
  by (rule wk_ensures_final) (auto simp: wk_write_clock_def intro: wk_keeps_cong)

lemma sync_keeps [simp]: "wk_keeps V n s \<Longrightarrow> wk_ensures V n (wk_sync os vc s)"
  by (rule wk_ensures_final) (auto simp: wk_sync_def intro: wk_keeps_cong)

lemma thread_exit_keeps [simp]: "wk_keeps V n s \<Longrightarrow> wk_ensures V n (thread_exit s)"
  unfolding thread_exit_def by (rule ensures_attempt) (auto intro: wk_keeps_cong wk_keeps_0)

lemma flags_keep [simp]:
  "wk_keeps V n (s\<lparr>wk_vclock := vc\<rparr>) = wk_keeps V n s" "wk_keeps V n (s\<lparr>uncertain := b\<rparr>) = wk_keeps V n s"
  "wk_keeps V n (s\<lparr>do_abort := b\<rparr>) = wk_keeps V n s" "wk_keeps V n (s\<lparr>do_commit := b\<rparr>) = wk_keeps V n s"
  "wk_keeps V n (s\<lparr>wk_pc := p\<rparr>) = wk_keeps V n s" "wk_keeps V n (s\<lparr>is_active := b\<rparr>) = wk_keeps V n s"
  "wk_keeps V n (s\<lparr>cmd_server := c\<rparr>) = wk_keeps V n s"
  by (simp_all add: wk_keeps_def wk_wf_def committed_vals_def split: option.splits)

text \<open>Logging an entry that is not an update.\<close>

lemma append_keeps:
  assumes "wk_keeps V (Suc n) s" and "\<not> is_update e" and "boundary e \<Longrightarrow> V = None"
  shows "wk_ensures V n (wk_append os e s)"
proof (rule wk_ensures_final)
  have "log_room (Suc n) (wk_log s)" using assms(1) by (simp add: wk_keeps_def wk_wf_def)
  note put = put_entry_room [OF this]
  show "wk_keeps V n (final (wk_append os e s))"
    using assms
    by (cases "boundary e")
      (auto simp: wk_append_def final_txlog_append wk_keeps_def wk_wf_def committed_vals_def put ids_ok_def
        split: option.splits)
qed

text \<open>Logging the old values and then changing the store.\<close>

lemma log_old_keeps:
  assumes keeps: "wk_keeps V (Suc n) s"
    and change: "\<And>st. store_wf st \<Longrightarrow> store_wf (f st)"
  shows "ensures (\<lambda>s. wk_keeps V n (s\<lparr>wk_store := f (wk_store s)\<rparr>)) (wk_keeps V 0) (wk_log_old os s)"
  unfolding wk_log_old_def Let_def
proof (rule ensures_attempt)
  fix d
  let ?e = "(txentry_init LOG_UPDATE (wk_transaction s) (wk_vclock s))
      \<lparr>old_a := objstore_get_a (wk_store s), old_b := objstore_get_b (wk_store s)\<rparr>"
  assume d: "strcpy (old_id ?e) (objstore_get_id (wk_store s)) = Inr d"
  let ?u = "?e\<lparr>old_id := d\<rparr>"
  have room: "log_room (Suc n) (wk_log s)" using keeps by (simp add: wk_keeps_def wk_wf_def)
  note put = put_entry_room [OF this]
  have u: "is_update ?u" by (simp add: is_update_def)
  have vals: "old_vals ?u = obj_vals (wk_store s)" and fits: "id_fits d"
    using strcpy_Inr [OF d] id_fits_terminated [of d] by (auto simp: old_vals_def obj_vals_def objstore_defs)
  have "wk_keeps V n (s'\<lparr>wk_store := f (wk_store s')\<rparr>)" if "s' = final (wk_append os ?u s)" for s'
    using that keeps u vals fits change
    by (auto simp: wk_append_def final_txlog_append wk_keeps_def wk_wf_def committed_vals_def put ids_ok_def
        split: option.splits)
  moreover have "wk_keeps V n (final (wk_append os ?u s))"
    using keeps u vals fits
    by (auto simp: wk_append_def final_txlog_append wk_keeps_def wk_wf_def committed_vals_def put ids_ok_def
        split: option.splits)
  ultimately show "ensures (\<lambda>s. wk_keeps V n (s\<lparr>wk_store := f (wk_store s)\<rparr>)) (wk_keeps V 0) (wk_append os ?u s)"
    by (cases "wk_append os ?u s") (auto intro: wk_keeps_0)
qed (use keeps wk_keeps_0 in blast)

section \<open>The roll-back\<close>

text \<open>If there is an update to undo, the present values do not matter.\<close>

lemma undo_vals_indep:
  assumes "is_update e" and "\<forall>f \<in> set fs. \<not> boundary f"
  shows "undo_vals (es @ e # fs) v = undo_vals (es @ e # fs) w"
  using assms
proof (induction fs rule: rev_induct)
  case Nil
  then show ?case using undo_vals_update [of e es] by simp
next
  case (snoc f fs)
  then show ?case
    using undo_vals_update [of f "es @ e # fs"] undo_vals_other [of f "es @ e # fs"] by (cases "is_update f") simp_all
qed

text \<open>
  With \<open>i\<close> entries still to look at: the values end up as the undoing of those entries says;
  while the log has not grown, the committed values are what they were, since the entries
  already looked at are updates that come later than the ones still to undo.
\<close>

text \<open>The abort that ends the roll-back names the transaction of the boundary.\<close>

definition abort_of :: "txlog_entry_t list \<Rightarrow> txlog_entry_t list" where
  "abort_of es = (case find boundary (rev es) of None \<Rightarrow> []
     | Some b \<Rightarrow> [txentry_init LOG_ABORT (e_transaction b) (e_vclock b)])"

definition undone :: "vals \<Rightarrow> txlog_entry_t list \<Rightarrow> nat \<Rightarrow> worker_state_t \<Rightarrow> bool" where
  "undone v es n s \<longleftrightarrow> wk_wf n s \<and> committed_vals s = v \<and> obj_vals (wk_store s) = v \<and> log_entries (wk_log s) = es"

lemma rollback_loop_keeps:
  assumes "i \<le> length es" and "log_entries (wk_log s) = es" and "wk_wf (Suc n) s"
    and "undo_vals (take i es) (obj_vals (wk_store s)) = v" and "undo_vals es (obj_vals (wk_store s)) = v"
    and "\<forall>f \<in> set (drop i es). \<not> boundary f"
  shows "ensures (undone v (es @ abort_of (take i es)) n)
     (\<lambda>s'. wk_wf 0 s' \<and> committed_vals s' = v \<and> \<not> os_msync os) (rollback_loop os i b s)"
  using assms
proof (induction i arbitrary: b s)
  case 0
  then show ?case by (simp add: undone_def committed_vals_def wk_wf_mono abort_of_def)
next
  case (Suc i)
  let ?e = "es ! i"
  have i: "i < length es" and tk: "take (Suc i) es = take i es @ [?e]"
    and dr: "drop i es = ?e # drop (Suc i) es"
    using Suc.prems(1) by (simp_all add: take_Suc_conv_app_nth Cons_nth_drop_Suc)
  have room: "log_room (Suc n) (wk_log s)" using Suc.prems(3) by (simp add: wk_wf_def)
  have rd: "txlog_read_entry (wk_log s) (of_nat i) b = ?e"
    using txlog_read_entry_in [OF room, of i b] i length_log_entries [OF room] Suc.prems(2) by simp
  consider "is_update ?e" | "boundary ?e" | "\<not> is_update ?e" "\<not> boundary ?e" by blast
  then show ?case
  proof cases
    case 1
    let ?st = "objstore_set_id (objstore_set_b (objstore_set_a (wk_store s) (old_a ?e)) (old_b ?e)) (old_id ?e)"
    have fits: "id_fits (old_id ?e)" using 1 i Suc.prems(2,3) by (auto simp: wk_wf_def ids_ok_def)
    have st: "obj_vals ?st = old_vals ?e" "store_wf ?st"
      using ob.restore_vals [OF fits] ob.restore_wf [OF _ fits] Suc.prems(3) by (simp_all add: old_vals_def wk_wf_def)
    have "es = take i es @ ?e # drop (Suc i) es" using i by (simp add: id_take_nth_drop)
    then have v: "undo_vals es (old_vals ?e) = v" "undo_vals (take i es) (old_vals ?e) = v"
      using undo_vals_indep [OF 1 Suc.prems(6), of "take i es"] Suc.prems(4,5) 1 by (metis, simp add: tk)
    let ?m = "wk_sync os (e_vclock ?e) (s\<lparr>wk_store := ?st\<rparr>)"
    have s: "log_entries (wk_log (final ?m)) = es" "wk_wf (Suc n) (final ?m)" "obj_vals (wk_store (final ?m)) = old_vals ?e"
      "terminated (objstore_get_id (wk_store (final ?m)))" "running ?m = os_msync os"
      using Suc.prems(2,3) st by (auto simp: wk_sync_def wk_wf_def store_wf_def objstore_get_id_def)
    have "ensures (undone v (es @ abort_of (take i es)) n)
       (\<lambda>s'. wk_wf 0 s' \<and> committed_vals s' = v \<and> \<not> os_msync os) (rollback_loop os i ?e (final ?m))"
      using Suc.IH [of "final ?m" ?e] i s v 1 Suc.prems(6) by (simp add: dr)
    moreover have "wk_wf 0 (final ?m) \<and> committed_vals (final ?m) = v"
      using s v wk_wf_0 by (auto simp: committed_vals_def)
    moreover have "abort_of (take (Suc i) es) = abort_of (take i es)" using 1 by (simp add: tk abort_of_def)
    ultimately show ?thesis
      using rd 1 s(4,5) unfolding is_update_def by (cases ?m) (simp_all add: wk_read_id_def)
  next
    case 2
    then have v: "obj_vals (wk_store s) = v" using Suc.prems(4) tk by simp
    let ?a = "txentry_init LOG_ABORT (e_transaction ?e) (e_vclock ?e)"
    have "undone v (es @ [?a]) n (final (wk_append os ?a s))" "running (wk_append os ?a s) = os_msync os"
      using put_entry_room [OF room] Suc.prems(2,3) v
      by (simp_all add: undone_def wk_append_def final_txlog_append wk_wf_def committed_vals_def ids_ok_def)
    moreover have "abort_of (take (Suc i) es) = [?a]" using 2 by (simp add: tk abort_of_def)
    ultimately show ?thesis
      using rd 2 by (cases "wk_append os ?a s") (auto simp: boundary_def Let_def undone_def dest: wk_wf_0)
  next
    case 3
    then have "undo_vals (take i es) (obj_vals (wk_store s)) = v" "abort_of (take (Suc i) es) = abort_of (take i es)"
      using Suc.prems(4) by (simp_all add: tk abort_of_def)
    then show ?thesis
      using Suc.IH [of s ?e] Suc.prems i rd 3 by (simp add: boundary_def is_update_def Let_def dr)
  qed
qed

lemma update_rollback_ensures:
  assumes "wk_wf (Suc n) s"
  shows "ensures (undone (committed_vals s) (log_entries (wk_log s) @ abort_of (log_entries (wk_log s))) n)
     (\<lambda>s'. wk_wf 0 s' \<and> committed_vals s' = committed_vals s \<and> \<not> os_msync os) (update_rollback os s)"
proof -
  have room: "log_room (Suc n) (wk_log s)" using assms by (simp add: wk_wf_def)
  have len: "nat (sint (tx_count (header (wk_log s)) - 1) + 1) = length (log_entries (wk_log s))"
    using sint_count_minus_1 [of "wk_log s"] length_log_entries [OF room] room by (simp add: log_room_def)
  let ?es = "log_entries (wk_log s)"
  have "ensures (undone (committed_vals s) (?es @ abort_of (take (length ?es) ?es)) n)
     (\<lambda>s'. wk_wf 0 s' \<and> committed_vals s' = committed_vals s \<and> \<not> os_msync os)
     (rollback_loop os (length ?es) (os_stack_entry os) s)"
    by (rule rollback_loop_keeps [OF order_refl refl assms]) (simp_all add: committed_vals_def)
  then show ?thesis unfolding update_rollback_def len by (simp only: take_all order_refl)
qed

text \<open>Nothing but the store and the log is touched.\<close>

definition wk_rest :: "worker_state_t \<Rightarrow> worker_state_t" where
  "wk_rest s = s\<lparr>wk_store := zero_store \<lparr>tv_sec = 0, tv_usec = 0\<rparr>, wk_log := \<lparr>log_slots = [], header = zero_head\<rparr>\<rparr>"

lemma wk_rest_eqD:
  assumes "wk_rest s' = wk_rest s"
  shows "wk_pc s' = wk_pc s" "is_active s' = is_active s" "uncertain s' = uncertain s" "wk_out s' = wk_out s"
    "node_id s' = node_id s" "wk_vclock s' = wk_vclock s" "wk_server s' = wk_server s" "wk_viz s' = wk_viz s"
    "wk_transaction s' = wk_transaction s" "do_commit s' = do_commit s" "do_abort s' = do_abort s"
    "cmd_server s' = cmd_server s"
  using assms by (cases s; cases s'; simp add: wk_rest_def)+

lemma wk_rest_effects [simp]:
  "wk_rest (final (wk_sync os vc s)) = wk_rest s" "wk_rest (final (wk_append os e s)) = wk_rest s"
  "wk_rest (s\<lparr>wk_store := st\<rparr>) = wk_rest s" "wk_rest (final (wk_read_id s)) = wk_rest s"
  by (simp_all add: wk_rest_def wk_sync_def wk_append_def wk_read_id_def)

lemma rollback_loop_rest: "wk_rest (final (rollback_loop os i b s)) = wk_rest s"
proof (induction i arbitrary: b s)
  case (Suc i)
  have "wk_rest (final (bnd (wk_sync os vc u) (\<lambda>s. bnd (wk_read_id s) (rollback_loop os i e)))) = wk_rest u" for vc u e
    using Suc.IH
    by (intro final_bndI [where P = "\<lambda>t. wk_rest t = wk_rest u"]) (metis final.simps(1) wk_rest_effects(1,4))+
  then show ?case using Suc.IH by (simp add: Let_def)
qed simp

lemma update_rollback_rest: "wk_rest (final (update_rollback os s)) = wk_rest s"
  by (simp add: update_rollback_def rollback_loop_rest)

lemma rollback_keeps: "wk_keeps V (Suc n) s \<Longrightarrow> wk_ensures V n (update_rollback os s)"
  by (rule ensures_mono [OF update_rollback_ensures]) (auto simp: wk_keeps_def undone_def split: option.splits)

section \<open>Every step\<close>

lemma log_head_keeps:
  assumes "wk_keeps V n s" and "\<And>h. tx_count (f h) = tx_count h"
  shows "wk_keeps V n (log_head f s)"
  using assms(1)
  by (rule wk_keeps_cong) (simp_all add: log_head_def log_entries_def log_room_def log_count_def assms(2))

lemma wk_keeps_fields:
  assumes "wk_keeps V n s" and "wk_log s' = wk_log s" and "wk_store s' = wk_store s"
  shows "wk_keeps V n s'"
  using assms by (auto intro: wk_keeps_cong)

lemma remember_tm_keeps: "wk_keeps V n s \<Longrightarrow> wk_ensures V n (remember_tm h p s)"
  unfolding remember_tm_def Let_def
  by (rule ensures_attempt) (auto intro!: log_head_keeps dest: wk_keeps_0)

lemma open_listener_keeps:
  assumes "wk_keeps V n s"
  shows "wk_ensures V n (open_listener os p s)"
proof -
  have "wk_keeps V n (s\<lparr>wk_server := r\<rparr>)" for r using assms by (rule wk_keeps_fields) simp_all
  then show ?thesis
    unfolding open_listener_def Let_def
    by (intro ensures_attempt) (auto intro!: log_head_keeps wk_keeps_0 [OF assms])
qed

lemma spawn_keeps:
  assumes "wk_keeps V n s"
  shows "wk_ensures V n (tx_manager_spawn os h p t s)"
proof -
  let ?s = "s\<lparr>is_active := True, wk_transaction := t, wk_server := None, wk_tm_port := p, do_abort := False, do_commit := True\<rparr>"
  have s: "wk_keeps V n ?s" "wk_keeps V n (?s\<lparr>wk_tm_host := h'\<rparr>)" for h'
    using assms by (auto intro: wk_keeps_fields)
  show ?thesis
    unfolding tx_manager_spawn_def Let_def
    by (intro ensures_attempt wk_ensures_bnd wk_keeps_0 [OF s(1)])
      (use s(2) in \<open>auto intro: remember_tm_keeps open_listener_keeps\<close>)
qed

lemma enter_keeps:
  assumes "wk_keeps V (Suc n) s" and "V \<noteq> None \<Longrightarrow> is_active s"
  shows "wk_ensures V n (wk_enter os c t msg s)"
proof (cases "is_active s")
  case True
  then show ?thesis using wk_keeps_mono [OF assms(1)] by (simp add: wk_enter_def)
next
  case False
  then have V: "V = None" using assms(2) by blast
  have log: "wk_ensures V n (bnd (wk_append os (txentry_init LOG_BEGIN t' vc) u) (wk_viz_append os x))"
    if "wk_keeps V (Suc n) u" for u t' vc x
    by (rule wk_ensures_bnd [OF append_keeps [OF that]]) (use V in \<open>auto intro: viz_keeps\<close>)
  have "wk_ensures V n (if wk_server u = None then Halted AssertFail u else
      bnd (wk_send os m u) (\<lambda>s. bnd (wk_append os (txentry_init LOG_BEGIN (wk_transaction s) (wk_vclock s)) s) (wk_viz_append os x)))"
    if "wk_keeps V (Suc n) u" for u m x
    using that by (auto intro: wk_ensures_bnd [OF send_keeps] log wk_keeps_0)
  with False show ?thesis
    unfolding wk_enter_def if_not_P [OF False] by (intro wk_ensures_bnd [OF spawn_keeps [OF assms(1)]])
qed

text \<open>The three updates: a change of the store that keeps it well-formed.\<close>

lemma update_keeps:
  assumes "wk_keeps V (Suc n) s" and "V \<noteq> None \<Longrightarrow> is_active s" and "\<And>st. store_wf st \<Longrightarrow> store_wf (f st)"
  shows "ensures (\<lambda>s. wk_keeps V n (s\<lparr>wk_store := f (wk_store s)\<rparr>)) (wk_keeps V 0)
     (if is_active s then wk_log_old os s else Running s)"
proof (cases "is_active s")
  case True
  then show ?thesis using log_old_keeps [OF assms(1,3)] by simp
next
  case False
  then have "V = None" using assms(2) by blast
  with False show ?thesis
    using assms(1,3) by (simp add: wk_keeps_def wk_wf_def log_room_def)
qed

lemma new_a_keeps:
  assumes "wk_keeps V (Suc n) s" and "V \<noteq> None \<Longrightarrow> is_active s"
  shows "wk_ensures V n (wk_new_a os msg s)"
  unfolding wk_new_a_def
  by (rule ensures_bnd [OF update_keeps [OF assms, where f = "\<lambda>st. objstore_set_a st (m_value msg)"]])
    (auto intro: wk_ensures_bnd [OF sync_keeps] ob.wf_set_a)

lemma new_b_keeps:
  assumes "wk_keeps V (Suc n) s" and "V \<noteq> None \<Longrightarrow> is_active s"
  shows "wk_ensures V n (wk_new_b os msg s)"
  unfolding wk_new_b_def
  by (rule ensures_bnd [OF update_keeps [OF assms, where f = "\<lambda>st. objstore_set_b st (m_value msg)"]])
    (auto intro: wk_ensures_bnd [OF sync_keeps] ob.wf_set_b)

lemma read_id_keeps: "wk_keeps V n s \<Longrightarrow> wk_ensures V n (wk_read_id s)"
  by (auto simp: wk_read_id_def dest: wk_keeps_0)

lemma new_id_keeps:
  assumes "wk_keeps V (Suc n) s" and "V \<noteq> None \<Longrightarrow> is_active s" and "id_fits (m_strdata msg)"
  shows "wk_ensures V n (wk_new_id os msg s)"
  unfolding wk_new_id_def
proof (rule wk_ensures_bnd)
  let ?f = "\<lambda>st. objstore_set_id st (m_strdata msg)"
  have "ensures (\<lambda>s. wk_keeps V n (s\<lparr>wk_store := ?f (wk_store s)\<rparr>)) (wk_keeps V 0)
     (if is_active s then wk_log_old os s else Running s)"
    using assms by (intro update_keeps) (auto intro: ob.wf_set_id)
  then show "wk_ensures V n (if is_active s
      then bnd (wk_log_old os s) (\<lambda>s. Running (s\<lparr>wk_store := ?f (wk_store s)\<rparr>))
      else wk_sync os (wk_vclock s) (s\<lparr>wk_store := ?f (wk_store s)\<rparr>))"
    by (cases "is_active s") (auto intro: ensures_bnd)
qed (auto intro: wk_ensures_bnd [OF read_id_keeps])

lemma abort_keeps: "wk_keeps V (Suc n) s \<Longrightarrow> wk_ensures V n (wk_abort os s)"
  unfolding wk_abort_def by (auto intro: wk_ensures_bnd [OF rollback_keeps] viz_keeps wk_keeps_mono)

lemma talk_keeps:
  assumes "wk_keeps V n s"
  shows "wk_ensures V n (wk_delay_response os msg s)" "wk_ensures V n (wk_commit os s)"
    "wk_ensures V n (wk_commit_crash os s)" "wk_ensures V n (wk_abort_crash os s)"
    "wk_ensures V n (wk_vote_abort os s)" "wk_ensures V n (wk_crash os s)"
  unfolding wk_delay_response_def wk_commit_def wk_commit_crash_def wk_abort_crash_def wk_vote_abort_def wk_crash_def
  using assms by (auto intro: wk_ensures_bnd [OF viz_keeps] wk_ensures_bnd [OF send_keeps] wk_keeps_0)

definition fits_msg :: "message_t \<Rightarrow> bool" where
  "fits_msg msg \<longleftrightarrow> length (m_strdata msg) = IDLEN \<and> terminated (m_strdata msg)"

lemma handle_keeps:
  assumes "wk_keeps V (Suc n) s" and "V \<noteq> None \<Longrightarrow> is_active s" and "fits_msg msg"
  shows "wk_ensures V n (wk_handle os msg s)"
proof -
  have "id_fits (m_strdata msg)" using assms(3) by (simp add: fits_msg_def id_fits_terminated)
  then show ?thesis
    unfolding wk_handle_def wk_begin_def wk_join_def
    using enter_keeps [OF assms(1,2)] new_a_keeps [OF assms(1,2)] new_b_keeps [OF assms(1,2)] new_id_keeps [OF assms(1,2)]
      abort_keeps [OF assms(1)] talk_keeps [OF wk_keeps_mono [OF assms(1)]] wk_keeps_mono [OF assms(1)]
    by (auto split: option.splits cmdType.splits)
qed

lemma command_keeps:
  assumes "wk_keeps V (Suc n) s" and "V \<noteq> None \<Longrightarrow> is_active s"
    and "\<And>len buf a. ev = RDatagram len buf a \<Longrightarrow> fits_msg (message_from_nbo buf)"
  shows "wk_ensures V n (wk_command os ev s)"
  unfolding wk_command_def
proof (rule ensures_attempt)
  fix r assume r: "server_recv (cmd_server s) ev zero_msg no_addr = Inr r"
  obtain len msg a where rr: "r = (len, msg, a)" by (cases r)
  have "fits_msg msg" if "0 < len"
    using server_recv_cases [OF r [unfolded rr]] that assms(3) by auto
  moreover have "wk_ensures V n (attempt (vclock_increment (node_id s) (wk_vclock s)) s (\<lambda>vc.
      bnd (wk_write_clock os (s\<lparr>wk_vclock := vc\<rparr>)) (wk_handle os msg)))" if "fits_msg msg"
  proof (rule ensures_attempt)
    fix vc
    have "ensures (\<lambda>s'. wk_keeps V (Suc n) s' \<and> is_active s' = is_active s) (wk_keeps V 0)
        (wk_write_clock os (s\<lparr>wk_vclock := vc\<rparr>))"
      using assms(1) clock_keeps [of V "Suc n" "s\<lparr>wk_vclock := vc\<rparr>" os]
      by (auto simp: wk_write_clock_def txlog_write_clock_def txlog_sync_def)
    then show "wk_ensures V n (bnd (wk_write_clock os (s\<lparr>wk_vclock := vc\<rparr>)) (wk_handle os msg))"
      by (rule ensures_bnd) (use handle_keeps [OF _ _ that] assms(2) in auto)
  qed (rule wk_keeps_0 [OF assms(1)])
  ultimately show "wk_ensures V n (case r of (bytes, msg, recv_addr) \<Rightarrow> if bytes \<le> 0 then Running s
      else attempt (vclock_increment (node_id s) (wk_vclock s)) s (\<lambda>vc.
        bnd (wk_write_clock os (s\<lparr>wk_vclock := vc\<rparr>)) (wk_handle os msg)))"
    using rr wk_keeps_mono [OF assms(1)] by auto
qed (rule wk_keeps_0 [OF assms(1)])

lemma thread_clock_keeps: "wk_keeps V n s \<Longrightarrow> wk_ensures V n (thread_clock os msg s)"
  unfolding thread_clock_def Let_def by (rule ensures_attempt) (auto dest: wk_keeps_0)

lemma log_decision_keeps: "wk_keeps None (Suc n) s \<Longrightarrow> wk_ensures None n (log_decision os s)"
  unfolding log_decision_def by (rule wk_ensures_bnd [OF viz_keeps]) (auto intro: append_keeps)

lemma roll_back_keeps: "wk_keeps V (Suc n) s \<Longrightarrow> wk_ensures V n (wk_roll_back os s)"
  unfolding wk_roll_back_def by (rule wk_ensures_bnd [OF viz_keeps]) (auto intro: rollback_keeps)

lemma vote_keeps:
  assumes "wk_keeps V (Suc n) s"
  shows "wk_ensures V n (vote_commit os s)" "wk_ensures V n (vote_abort os s)"
proof -
  have wait: "wk_ensures V n (if c then Halted (Exit 1) u
      else bnd (wk_send os m u) (\<lambda>s. Running (s\<lparr>uncertain := True, wk_pc := TUncertain\<rparr>)))"
    if "wk_keeps V n u" for u m c
    using that by (auto intro: wk_ensures_bnd [OF send_keeps] dest: wk_keeps_0)
  show "wk_ensures V n (vote_commit os s)"
    unfolding vote_commit_def Let_def
    by (intro wk_ensures_bnd [OF viz_keeps [OF assms]] wk_ensures_bnd [OF append_keeps] wait) auto
  show "wk_ensures V n (vote_abort os s)"
    unfolding vote_abort_def Let_def
    by (intro wk_ensures_bnd [OF viz_keeps [OF wk_keeps_mono [OF assms]]] wait) simp
qed

text \<open>What a thread may receive while the committed values are to stay: anything but a commit.\<close>

lemma thread_keeps:
  assumes "wk_keeps V (Suc n) s"
    and "\<And>len buf a. ev = RDatagram len buf a \<Longrightarrow> m_type (message_from_nbo buf) = cmd_code COMMIT \<Longrightarrow> V = None"
  shows "wk_ensures V n (tx_worker_thread os ev s)"
proof -
  have recv: "wk_ensures V n (attempt (server_recv (wk_server s) ev zero_msg no_addr) s
      (\<lambda>(bytes, msg, recv_addr). if bytes \<le> 0 then idle else bnd (thread_clock os msg s) (k msg)))"
    if idle: "wk_ensures V n idle" and k: "\<And>msg u. wk_keeps V (Suc n) u \<Longrightarrow> (m_type msg = cmd_code COMMIT \<Longrightarrow> V = None) \<Longrightarrow>
      wk_ensures V n (k msg u)" for idle k
  proof (rule ensures_attempt)
    fix r assume r: "server_recv (wk_server s) ev zero_msg no_addr = Inr r"
    obtain len msg a where rr: "r = (len, msg, a)" by (cases r)
    have "m_type msg = cmd_code COMMIT \<Longrightarrow> V = None" if "0 < len"
      using server_recv_cases [OF r [unfolded rr]] that assms(2) by auto
    then have "wk_ensures V n (bnd (thread_clock os msg s) (k msg))" if "0 < len"
      using that by (intro wk_ensures_bnd [OF thread_clock_keeps [OF assms(1)]] k) simp_all
    then show "wk_ensures V n (case r of (bytes, msg, recv_addr) \<Rightarrow> if bytes \<le> 0 then idle else bnd (thread_clock os msg s) (k msg))"
      using rr idle by auto
  qed (rule wk_keeps_0 [OF assms(1)])
  have leave: "wk_ensures V n (thread_exit (u\<lparr>uncertain := b\<rparr>))" if "wk_keeps V n u" for u b
    using that by simp
  have commit: "wk_ensures None n (bnd (log_decision os u) (\<lambda>s. thread_exit (s\<lparr>uncertain := False\<rparr>)))"
    "wk_ensures None n (bnd (log_decision os u) thread_exit)" if "wk_keeps None (Suc n) u" for u
    using that by (auto intro!: wk_ensures_bnd [OF log_decision_keeps])
  have abort: "wk_ensures V n (bnd (wk_roll_back os u) (\<lambda>s. thread_exit (s\<lparr>uncertain := False\<rparr>)))"
    "wk_ensures V n (bnd (wk_roll_back os u) thread_exit)" if "wk_keeps V (Suc n) u" for u
    using that leave by (auto intro!: wk_ensures_bnd [OF roll_back_keeps])
  show ?thesis
  proof (cases "wk_pc s")
    case TIdle
    then show ?thesis using wk_keeps_mono [OF assms(1)] by (simp add: tx_worker_thread_def)
  next
    case TLoop
    show ?thesis
      unfolding tx_worker_thread_def TLoop thread_pc.case tx_worker_loop_def
      by (rule recv) (auto simp: wk_keeps_mono [OF assms(1)] cmd_of_eq_Some
          intro!: vote_keeps commit abort wk_ensures_bnd [OF viz_keeps] viz_keeps
          split: option.splits cmdType.splits dest: wk_keeps_mono wk_keeps_0)
  next
    case TUncertain
    show ?thesis
      unfolding tx_worker_thread_def TUncertain thread_pc.case tx_worker_uncertain_def
      by (rule recv) (auto simp: cmd_of_eq_Some
          intro!: send_keeps [OF wk_keeps_mono [OF assms(1)]] commit abort viz_keeps
          split: option.splits cmdType.splits dest: wk_keeps_mono)
  qed
qed

section \<open>Runs\<close>

text \<open>
  The steps a run may take: messages with a string that ends in its buffer and, where the
  committed values are to stay, only while the transaction is open and no commit arrives.
\<close>

definition wk_acc :: "vals option \<Rightarrow> thread \<times> os_t \<times> recv_event \<Rightarrow> worker_state_t \<Rightarrow> bool" where
  "wk_acc V = (\<lambda>(th, os, ev) s. case ev of
       RDatagram len buf from \<Rightarrow>
         (let msg = message_from_nbo buf in fits_msg msg \<and>
            (V \<noteq> None \<longrightarrow> is_active s \<and> (th = TxThread \<longrightarrow> m_type msg \<noteq> cmd_code COMMIT)))
     | _ \<Rightarrow> True)"

lemma command_idle:
  assumes "\<And>len buf a. ev \<noteq> RDatagram len buf a" and "wk_keeps V (Suc n) s"
  shows "wk_ensures V n (wk_command os ev s)"
  unfolding wk_command_def
  by (rule ensures_attempt)
    (use assms wk_keeps_0 [OF assms(2)] wk_keeps_mono [OF assms(2)] server_recv_cases in \<open>fastforce+\<close>)

interpretation wk: guarded_machine wk_step "wk_acc V" "wk_keeps V" "wk_keeps V 0" for V
proof
  fix e s n
  assume acc: "wk_acc V e s" and keeps: "wk_keeps V (Suc n) s"
  obtain th os ev where e: "e = (th, os, ev)" by (cases e)
  show "wk_ensures V n (wk_step e s)"
  proof (cases th)
    case MainThread
    have "wk_ensures V n (wk_command os ev s)"
      using acc command_keeps [OF keeps, of ev os] command_idle [of ev V n s os] keeps
      by (cases ev) (auto simp: e wk_acc_def Let_def)
    then show ?thesis by (simp add: e MainThread wk_step_def)
  next
    case TxThread
    then show ?thesis
      using acc thread_keeps [OF keeps, of ev os] by (cases ev; cases V) (auto simp: e wk_step_def wk_acc_def Let_def)
  qed
qed

section \<open>Recovery\<close>

lemma last_entry_of:
  assumes "log_room n log" and "log_entries log \<noteq> []"
  shows "txlog_last_entry log buf = last (log_entries log)"
  using txlog_last_entry_spec [OF assms(1), of buf] assms(2) by simp

text \<open>A start that finds an update at the end of its log undoes the open transaction.\<close>

lemma wk_recover_update:
  assumes "wk_wf (Suc n) s" and "log_entries (wk_log s) \<noteq> []" and "is_update (last (log_entries (wk_log s)))"
  shows "wk_recover os s = update_rollback os s"
  using assms last_entry_of [of "Suc n" "wk_log s" "os_stack_entry os"]
  by (simp add: wk_recover_def wk_wf_def is_update_def log_of_code [of LOG_UPDATE, simplified])

text \<open>The start up to its recovery leaves the log, the values of the store and the flags alone.\<close>

lemma wk_wake_Running:
  assumes "wk_wake os s = Running s'"
  shows "wk_log s' = wk_log s" "obj_vals (wk_store s') = obj_vals (wk_store s)"
    "store_wf (wk_store s') = store_wf (wk_store s)" "uncertain s' = uncertain s" "is_active s' = is_active s"
    "wk_pc s' = wk_pc s" "node_id s' = node_id s" "wk_out s' = wk_out s" "wk_tm_host s' = wk_tm_host s"
    "viz_fd (wk_viz s') \<noteq> None"
  using assms
  by (auto simp: wk_wake_def wk_with_store_def objstore_mapped_def bnd_eq_Running attempt_def wk_sync_def objstore_sync_def wk_read_id_def
      wk_viz_append_def shitviz_append_def Let_def split: if_splits sum.splits option.splits)

lemma wk_main_start_Running:
  assumes "wk_main_start os w0 argv (Some store) (Some log) = Inr (Running s)"
  obtains s1 s2 srv where "wk_wake os (wk_init w0 (ucast (fst (strtoul10 (argv ! 1)))) store log) = Running s1"
    "wk_recover os s1 = Running s2" "s = s2\<lparr>cmd_server := Some srv\<rparr>"
  using assms
  by (auto simp: wk_main_start_def wk_boot_def objstore_init_def txlog_open_def txlog_mapped_def Let_def bnd_eq_Running attempt_eq_Running
      split: if_splits)

text \<open>What a start does with the values, by the last entry of the log.\<close>

lemma start_undoes:
  assumes start: "wk_main_start os w0 argv (Some store) (Some log) = Inr (Running s)"
    and room: "log_room (Suc n) log" and ids: "ids_ok (log_entries log)" and wf: "store_wf store"
    and last: "log_entries log \<noteq> []" "is_update (last (log_entries log))"
  shows "obj_vals (wk_store s) = undo_vals (log_entries log) (obj_vals store)" and "wk_wf n s"
    and "uncertain s = uncertain w0" and "is_active s = is_active w0"
    and "log_entries (wk_log s) = log_entries log @ abort_of (log_entries log)"
proof -
  obtain s1 s2 srv where s1: "wk_wake os (wk_init w0 (ucast (fst (strtoul10 (argv ! 1)))) store log) = Running s1"
    and s2: "wk_recover os s1 = Running s2" and s: "s = s2\<lparr>cmd_server := Some srv\<rparr>"
    using wk_main_start_Running [OF start] by blast
  note wake = wk_wake_Running [OF s1]
  have log1: "wk_log s1 = log" and wf1: "wk_wf (Suc n) s1" and c1: "committed_vals s1 = undo_vals (log_entries log) (obj_vals store)"
    using wake room ids wf by (simp_all add: wk_init_def wk_wf_def committed_vals_def)
  have r: "update_rollback os s1 = Running s2" using s2 wk_recover_update [OF wf1] last log1 by simp
  from update_rollback_ensures [OF wf1, of os] have "undone (committed_vals s1) (log_entries log @ abort_of (log_entries log)) n s2"
    by (simp add: r log1)
  moreover have "wk_rest s2 = wk_rest s1" using update_rollback_rest [of os s1] by (simp add: r)
  ultimately show "obj_vals (wk_store s) = undo_vals (log_entries log) (obj_vals store)" "wk_wf n s"
    "uncertain s = uncertain w0" "is_active s = is_active w0" "log_entries (wk_log s) = log_entries log @ abort_of (log_entries log)"
    using c1 s wake wk_rest_eqD [of s2 s1] by (simp_all add: undone_def wk_init_def)
qed

text \<open>
  A start that finds a prepared transaction is uncertain about it and keeps the new values.
\<close>

lemma spawn_uncertain:
  assumes "tx_manager_spawn os h p t s = Running s'" and "uncertain s"
  shows "wk_pc s' = TUncertain" "uncertain s'" "is_active s'" "wk_transaction s' = t" "wk_tm_port s' = p"
    "cstr (wk_tm_host s') = cstr h" "wk_server s' \<noteq> None" "wk_store s' = wk_store s"
    "log_entries (wk_log s') = log_entries (wk_log s)" "log_room n (wk_log s') = log_room n (wk_log s)"
    "wk_out s' = wk_out s" "wk_viz s' = wk_viz s" "wk_vclock s' = wk_vclock s" "node_id s' = node_id s"
  using assms
  by (auto simp: tx_manager_spawn_def attempt_eq_Running bnd_eq_Running open_listener_def log_head_def Let_def
      log_entries_def log_room_def log_count_def dest: strcpy_Inr)

lemma start_uncertain:
  assumes start: "wk_main_start os w0 argv (Some store) (Some log) = Inr (Running s)"
    and room: "log_room n log" and ids: "ids_ok (log_entries log)" and wf: "store_wf store"
    and last: "log_entries log \<noteq> []" "e_type (last (log_entries log)) = log_code LOG_PREPARED"
  shows "wk_pc s = TUncertain" "uncertain s" "wk_transaction s = e_transaction (last (log_entries log))"
    "wk_tm_port s = tm_port (header log)" "cstr (wk_tm_host s) = cstr (tm_host (header log))"
    "obj_vals (wk_store s) = obj_vals store" "log_entries (wk_log s) = log_entries log" "wk_wf n s"
    "wk_server s \<noteq> None" "viz_fd (wk_viz s) \<noteq> None"
proof -
  obtain s1 s2 srv where s1: "wk_wake os (wk_init w0 (ucast (fst (strtoul10 (argv ! 1)))) store log) = Running s1"
    and s2: "wk_recover os s1 = Running s2" and s: "s = s2\<lparr>cmd_server := Some srv\<rparr>"
    using wk_main_start_Running [OF start] by blast
  note wake = wk_wake_Running [OF s1]
  have log1: "wk_log s1 = log" using wake by (simp add: wk_init_def)
  let ?t = "e_transaction (last (log_entries log))"
  have "txlog_last_entry log (os_stack_entry os) = last (log_entries log)"
    using last_entry_of [OF room last(1)] .
  then have "tx_manager_spawn os (tm_host (header log)) (tm_port (header log)) ?t
      (s1\<lparr>uncertain := True, is_active := True\<rparr>) = Running s2"
    using s2 last(2) log1 by (simp add: wk_recover_def log_of_code [of LOG_PREPARED, simplified])
  from spawn_uncertain [OF this]
  show "wk_pc s = TUncertain" "uncertain s" "wk_transaction s = ?t"
    "wk_tm_port s = tm_port (header log)" "cstr (wk_tm_host s) = cstr (tm_host (header log))"
    "obj_vals (wk_store s) = obj_vals store" "log_entries (wk_log s) = log_entries log" "wk_wf n s"
    "wk_server s \<noteq> None" "viz_fd (wk_viz s) \<noteq> None"
    using s wake room ids wf log1 by (simp_all add: wk_init_def wk_wf_def)
qed

end
