(* ===== verification/TManager.thy ===== *)
theory TManager
  imports TxLog ShiViz
begin

text \<open>
  The transaction manager, \<^verbatim>\<open>src/tmanager.c\<close> and \<^verbatim>\<open>src/tmanager.h\<close>: its table of at most
  \<open>MAX_TRANSACTIONS\<close> transactions, one definition per \<^verbatim>\<open>case\<close> of the message loop, the
  start-up with the repair of the log, and the loop body \<open>tm_step\<close>. Pointers into the
  table are indices; a null pointer is \<open>None\<close>. The datagrams sent are kept in \<open>tm_out\<close>, in
  order. \<^verbatim>\<open>printf\<close> to standard output is left out.
\<close>

section \<open>State\<close>

definition MAX_TRANSACTIONS :: nat where
  [simp]: "MAX_TRANSACTIONS = 4"

datatype transaction_state = BEGIN_STATE | COMMIT_STATE | PREPARE_STATE | ABORT_STATE

fun state_code :: "transaction_state \<Rightarrow> u32" where
  "state_code BEGIN_STATE = 0"
| "state_code COMMIT_STATE = 1"
| "state_code PREPARE_STATE = 2"
| "state_code ABORT_STATE = 3"

record worker_t =
  nid :: u32
  w_address :: sockaddr_in

record transaction_t =
  t_state :: transaction_state
  t_tid :: u32
  t_nodes :: "worker_t list"
  nodeCount :: u32

record txmanager_t =
  tm_server :: "server_t option"
  tm_log :: txlog_t
  tm_vclock :: "vclock_t list"
  transactions :: "transaction_t list"
  tmgr_port :: u32
  commit_crash :: bool
  abort_crash :: bool
  tm_viz :: viz_t
  tm_out :: "datagram list"

definition zero_worker :: worker_t where
  "zero_worker = \<lparr>nid = 0, w_address = no_addr\<rparr>"

text \<open>A transaction cleared by \<^verbatim>\<open>memset\<close>: 0 is \<^verbatim>\<open>BEGIN_STATE\<close>.\<close>

definition zero_transaction :: transaction_t where
  "zero_transaction = \<lparr>t_state = BEGIN_STATE, t_tid = 0, t_nodes = replicate MAX_NODES zero_worker,
     nodeCount = 0\<rparr>"

definition upd_tx :: "nat \<Rightarrow> (transaction_t \<Rightarrow> transaction_t) \<Rightarrow> txmanager_t \<Rightarrow> txmanager_t" where
  "upd_tx i f s = s\<lparr>transactions := (transactions s)[i := f (transactions s ! i)]\<rparr>"

section \<open>Calls into the other components\<close>

definition tm_viz_append :: "os_t \<Rightarrow> string \<Rightarrow> txmanager_t \<Rightarrow> txmanager_t outcome" where
  "tm_viz_append os msg s =
     map_outcome (\<lambda>v. s\<lparr>tm_viz := v\<rparr>) (shitviz_append os (tmgr_port s) msg (tm_vclock s) (tm_viz s))"

definition tm_send :: "os_t \<Rightarrow> sockaddr_in \<Rightarrow> message_t \<Rightarrow> txmanager_t \<Rightarrow> txmanager_t outcome" where
  "tm_send os dest msg s =
     attempt (server_send os (tm_server s) dest msg) s (\<lambda>d. Running (s\<lparr>tm_out := tm_out s @ [d]\<rparr>))"

definition tm_append :: "os_t \<Rightarrow> txlog_entry_t \<Rightarrow> txmanager_t \<Rightarrow> txmanager_t outcome" where
  "tm_append os entry s = map_outcome (\<lambda>l. s\<lparr>tm_log := l\<rparr>) (txlog_append os (tm_log s) entry)"

text \<open>The refusal every handler sends in the same five lines: \<^verbatim>\<open>TX_ERROR\<close> with value 1 and a text.\<close>

definition tm_error :: "os_t \<Rightarrow> sockaddr_in \<Rightarrow> string \<Rightarrow> txmanager_t \<Rightarrow> txmanager_t outcome" where
  "tm_error os dest txt s =
     (let msg = (message_init (Some (tm_vclock s)))\<lparr>m_type := cmd_code TX_ERROR, m_value := 1\<rparr>
      in attempt (strcpy (m_strdata msg) (lit txt)) s
           (\<lambda>d. tm_send os dest (msg\<lparr>m_strdata := d\<rparr>) s))"

section \<open>The table\<close>

definition findTransaction :: "u32 \<Rightarrow> txmanager_t \<Rightarrow> nat option" where
  "findTransaction t s = first_index (\<lambda>tx. t_tid tx = t) (transactions s)"

definition new_transaction :: "u32 \<Rightarrow> sockaddr_in \<Rightarrow> transaction_t" where
  "new_transaction t dest_addr =
     zero_transaction\<lparr>t_state := BEGIN_STATE, t_tid := t, nodeCount := 1,
       t_nodes := (t_nodes zero_transaction)[0 := \<lparr>nid = port_of dest_addr, w_address = dest_addr\<rparr>]\<rparr>"

text \<open>
  \<^verbatim>\<open>addTransaction\<close>: the loop stops at the first slot that has the id or can be reused. The
  first result is the pointer it returns.
\<close>

definition addTransaction ::
  "os_t \<Rightarrow> u32 \<Rightarrow> sockaddr_in \<Rightarrow> txmanager_t \<Rightarrow> nat option \<times> txmanager_t outcome" where
  "addTransaction os t dest_addr s =
     (case first_index (\<lambda>tx. t_tid tx = t \<or> t_state tx = COMMIT_STATE \<or> t_state tx = ABORT_STATE
                          \<or> t_tid tx = 0) (transactions s) of
        Some i \<Rightarrow>
          if t_tid (transactions s ! i) = t
          then (None, bnd (tm_error os dest_addr ''TID already exists'' s)
                        (tm_viz_append os ''TID already exists''))
          else (Some i, Running (upd_tx i (\<lambda>_. new_transaction t dest_addr) s))
      | None \<Rightarrow> (None, bnd (tm_error os dest_addr ''Transaction queue full'' s)
                         (tm_viz_append os ''Transaction is full'')))"

definition joinTransaction :: "nat \<Rightarrow> sockaddr_in \<Rightarrow> txmanager_t \<Rightarrow> bool \<times> txmanager_t" where
  "joinTransaction i address s =
     (case first_index (\<lambda>w. nid w = 0) (t_nodes (transactions s ! i)) of
        Some k \<Rightarrow> (True, upd_tx i (\<lambda>tx. tx\<lparr>
            t_nodes := (t_nodes tx)[k := \<lparr>nid = port_of address, w_address = address\<rparr>],
            nodeCount := nodeCount tx + 1\<rparr>) s)
      | None \<Rightarrow> (False, s))"

fun send_workers :: "os_t \<Rightarrow> worker_t list \<Rightarrow> message_t \<Rightarrow> txmanager_t \<Rightarrow> txmanager_t outcome" where
  "send_workers os [] msg s = Running s"
| "send_workers os (w # ws) msg s =
     bnd (if nid w \<noteq> 0 then tm_send os (w_address w) msg s else Running s) (send_workers os ws msg)"

definition sendToAllWorkers :: "os_t \<Rightarrow> nat \<Rightarrow> message_t \<Rightarrow> txmanager_t \<Rightarrow> txmanager_t outcome" where
  "sendToAllWorkers os i msg s = send_workers os (t_nodes (transactions s ! i)) msg s"

definition checkTransactionLog :: "os_t \<Rightarrow> u32 \<Rightarrow> sockaddr_in \<Rightarrow> txmanager_t \<Rightarrow> txmanager_t outcome" where
  "checkTransactionLog os t recv_addr s =
     (case txlog_last_tx os (tm_log s) t of
        None \<Rightarrow> tm_viz_append os ''Unknown Transaction'' s
      | Some entry \<Rightarrow>
          let result_msg = (message_init (Some (tm_vclock s)))\<lparr>m_tid := e_transaction entry\<rparr>
          in (case log_of (e_type entry) of
              Some LOG_COMMIT \<Rightarrow>
                bnd (tm_send os recv_addr (result_msg\<lparr>m_type := cmd_code COMMIT\<rparr>) s)
                  (tm_viz_append os ''Commit'')
            | Some LOG_ABORT \<Rightarrow>
                bnd (tm_send os recv_addr (result_msg\<lparr>m_type := cmd_code ABORT\<rparr>) s)
                  (tm_viz_append os ''Abort'')
            | _ \<Rightarrow> tm_viz_append os ''Transaction is not commited/aborted'' s))"

section \<open>The message loop, one definition per case\<close>

definition tm_ask :: "os_t \<Rightarrow> message_t \<Rightarrow> sockaddr_in \<Rightarrow> txmanager_t \<Rightarrow> txmanager_t outcome" where
  "tm_ask os msg recv_addr s =
     (case txlog_last_tx os (tm_log s) (m_tid msg) of
        None \<Rightarrow> tm_viz_append os ''Unknown transaction array'' s
      | Some entry \<Rightarrow>
          let ask_msg = (message_init (Some (tm_vclock s)))\<lparr>m_tid := e_transaction entry\<rparr>
          in (case log_of (e_type entry) of
              Some LOG_COMMIT \<Rightarrow>
                bnd (tm_send os recv_addr (ask_msg\<lparr>m_type := cmd_code COMMIT\<rparr>) s)
                  (tm_viz_append os ''ASK: Commit'')
            | Some LOG_ABORT \<Rightarrow>
                bnd (tm_send os recv_addr (ask_msg\<lparr>m_type := cmd_code ABORT\<rparr>) s)
                  (tm_viz_append os ''ASK: Abort'')
            | _ \<Rightarrow> Running s))"

definition tm_begin :: "os_t \<Rightarrow> message_t \<Rightarrow> sockaddr_in \<Rightarrow> txmanager_t \<Rightarrow> txmanager_t outcome" where
  "tm_begin os msg recv_addr s =
     (if txlog_free_id os (tm_log s) (m_tid msg)
      then (case addTransaction os (m_tid msg) recv_addr s of
          (Some i, m) \<Rightarrow> bnd m (\<lambda>s. bnd (tm_viz_append os ''BEGINTX'' s)
            (\<lambda>s. tm_append os (txentry_init LOG_BEGIN (m_tid msg) (tm_vclock s)) s))
        | (None, m) \<Rightarrow> bnd m (tm_viz_append os ''BEGINTX Failed''))
      else bnd (tm_error os recv_addr ''TID already exists'' s) (tm_viz_append os ''TID Exists''))"

definition tm_commit :: "os_t \<Rightarrow> message_t \<Rightarrow> sockaddr_in \<Rightarrow> txmanager_t \<Rightarrow> txmanager_t outcome" where
  "tm_commit os msg recv_addr s =
     (case findTransaction (m_tid msg) s of
        None \<Rightarrow> checkTransactionLog os (m_tid msg) recv_addr s
      | Some i \<Rightarrow>
          if t_state (transactions s ! i) = PREPARE_STATE
          then tm_viz_append os ''Transaction in prepare state'' s
          else
            let s = upd_tx i (\<lambda>tx. tx\<lparr>t_state := PREPARE_STATE\<rparr>) s;
                msgCommit = (message_init (Some (tm_vclock s)))\<lparr>m_type := cmd_code PREPARE_TO_COMMIT\<rparr>
            in bnd (tm_viz_append os ''Prepare to commit'' s) (sendToAllWorkers os i msgCommit))"

definition tm_abort :: "os_t \<Rightarrow> message_t \<Rightarrow> sockaddr_in \<Rightarrow> txmanager_t \<Rightarrow> txmanager_t outcome" where
  "tm_abort os msg recv_addr s =
     (case findTransaction (m_tid msg) s of
        None \<Rightarrow> checkTransactionLog os (m_tid msg) recv_addr s
      | Some i \<Rightarrow>
          bnd (tm_viz_append os ''ABORT'' (upd_tx i (\<lambda>tx. tx\<lparr>t_state := ABORT_STATE\<rparr>) s)) (\<lambda>s.
          bnd (tm_append os (txentry_init LOG_ABORT (m_tid msg) (tm_vclock s)) s) (\<lambda>s.
          if abort_crash s then Halted (Exit 1) s
          else sendToAllWorkers os i
                 ((message_init (Some (tm_vclock s)))\<lparr>m_type := cmd_code ABORT\<rparr>) s)))"

text \<open>
  \<^verbatim>\<open>PREPARED\<close>: when the transaction is not in the table the log is consulted, and then the
  null pointer is dereferenced all the same. \<^verbatim>\<open>nodeCount\<close> is unsigned, so \<^verbatim>\<open><= 0\<close> is \<^verbatim>\<open>== 0\<close>.
\<close>

definition tm_decide :: "os_t \<Rightarrow> nat \<Rightarrow> txmanager_t \<Rightarrow> txmanager_t outcome" where
  "tm_decide os i s =
     bnd (tm_viz_append os ''COMMIT'' (upd_tx i (\<lambda>tx. tx\<lparr>t_state := COMMIT_STATE\<rparr>) s)) (\<lambda>s.
     bnd (tm_append os (txentry_init LOG_COMMIT (t_tid (transactions s ! i)) (tm_vclock s)) s) (\<lambda>s.
     if commit_crash s then Halted (Exit 1) s
     else sendToAllWorkers os i
            ((message_init (Some (tm_vclock s)))\<lparr>m_type := cmd_code COMMIT\<rparr>) s))"

definition tm_prepared :: "os_t \<Rightarrow> message_t \<Rightarrow> sockaddr_in \<Rightarrow> txmanager_t \<Rightarrow> txmanager_t outcome" where
  "tm_prepared os msg recv_addr s =
     (case findTransaction (m_tid msg) s of
        None \<Rightarrow> bnd (checkTransactionLog os (m_tid msg) recv_addr s) (\<lambda>s. Halted SegFault s)
      | Some i \<Rightarrow>
          if t_state (transactions s ! i) = ABORT_STATE
          then bnd (tm_error os recv_addr (''Transaction was already aborted'' @ [CHR 0x0A]) s)
                 (tm_viz_append os ''Transaction already aborted'')
          else
            let s = upd_tx i (\<lambda>tx. tx\<lparr>nodeCount := nodeCount tx - 1\<rparr>) s
            in if nodeCount (transactions s ! i) = 0 then tm_decide os i s
               else tm_viz_append os ''Worker sent prepared'' s)"

definition tm_join :: "os_t \<Rightarrow> message_t \<Rightarrow> sockaddr_in \<Rightarrow> txmanager_t \<Rightarrow> txmanager_t outcome" where
  "tm_join os msg recv_addr s =
     (case findTransaction (m_tid msg) s of
        None \<Rightarrow> checkTransactionLog os (m_tid msg) recv_addr s
      | Some i \<Rightarrow>
          if t_state (transactions s ! i) \<in> {PREPARE_STATE, COMMIT_STATE, ABORT_STATE}
          then bnd (tm_error os recv_addr
                      ''Transaction was already completed or is preparing to commit'' s)
                 (tm_viz_append os ''JOINTX Failed'')
          else (case joinTransaction i recv_addr s of
              (True, s) \<Rightarrow> tm_viz_append os ''Worker joined'' s
            | (False, s) \<Rightarrow> bnd (tm_error os recv_addr ''Transaction could not be joined'' s)
                             (tm_viz_append os ''JOINTX failed'')))"

definition tm_handle :: "os_t \<Rightarrow> message_t \<Rightarrow> sockaddr_in \<Rightarrow> txmanager_t \<Rightarrow> txmanager_t outcome" where
  "tm_handle os msg recv_addr s = (case cmd_of (m_type msg) of
       Some ASK \<Rightarrow> tm_ask os msg recv_addr s
     | Some BEGINTX \<Rightarrow> tm_begin os msg recv_addr s
     | Some COMMIT \<Rightarrow> tm_commit os msg recv_addr s
     | Some ABORT \<Rightarrow> tm_abort os msg recv_addr s
     | Some PREPARED \<Rightarrow> tm_prepared os msg recv_addr s
     | Some JOINTX \<Rightarrow> tm_join os msg recv_addr s
     | Some ABORT_CRASH \<Rightarrow> tm_viz_append os ''Set abort crash flag'' (s\<lparr>abort_crash := True\<rparr>)
     | Some COMMIT_CRASH \<Rightarrow> tm_viz_append os ''Commit crash flag'' (s\<lparr>commit_crash := True\<rparr>)
     | _ \<Rightarrow> tm_viz_append os ''Unknown command'' s)"

text \<open>The clock part of an iteration, then the \<^verbatim>\<open>switch\<close>.\<close>

definition tm_receive :: "os_t \<Rightarrow> message_t \<Rightarrow> sockaddr_in \<Rightarrow> txmanager_t \<Rightarrow> txmanager_t outcome" where
  "tm_receive os msg recv_addr s =
     (let s = s\<lparr>tm_vclock := vclock_update (tmgr_port s) (tm_vclock s) (m_vclock msg)\<rparr>
      in attempt (vclock_increment (tmgr_port s) (tm_vclock s)) s
           (\<lambda>vc. tm_handle os msg recv_addr (s\<lparr>tm_vclock := vc\<rparr>)))"

text \<open>One iteration of the \<^verbatim>\<open>while(1)\<close> loop of \<^verbatim>\<open>main\<close>.\<close>

definition tm_step :: "os_t \<times> recv_event \<Rightarrow> txmanager_t \<Rightarrow> txmanager_t outcome" where
  "tm_step = (\<lambda>(os, ev) s.
     attempt (server_recv (tm_server s) ev zero_msg no_addr) s
       (\<lambda>(bytes, msg, recv_addr).
          if bytes \<le> 0 then Running s else tm_receive os msg recv_addr s))"

section \<open>Start-up\<close>

text \<open>
  \<^verbatim>\<open>restoreTransactions\<close>: the inner loop looks from entry \<open>i\<close> on for a decision of the
  transaction; both loops read into their own buffer. The bound is the count at the start,
  although the log grows.
\<close>

fun restore_completed :: "txlog_t \<Rightarrow> u32 \<Rightarrow> nat list \<Rightarrow> txlog_entry_t \<Rightarrow> bool \<times> txlog_entry_t" where
  "restore_completed log t [] entry_2 = (False, entry_2)"
| "restore_completed log t (j # js) entry_2 =
     (let entry_2 = txlog_read_entry log (of_nat j) entry_2
      in if t = e_transaction entry_2
            \<and> (e_type entry_2 = log_code LOG_ABORT \<or> e_type entry_2 = log_code LOG_COMMIT)
         then (True, entry_2) else restore_completed log t js entry_2)"

fun restore_loop ::
  "os_t \<Rightarrow> nat \<Rightarrow> nat list \<Rightarrow> txlog_entry_t \<Rightarrow> txlog_entry_t \<Rightarrow> txmanager_t \<Rightarrow> txmanager_t outcome" where
  "restore_loop os count [] entry entry_2 s = Running s"
| "restore_loop os count (i # is) entry entry_2 s =
     (let entry = txlog_read_entry (tm_log s) (of_nat i) entry
      in if e_type entry = log_code LOG_BEGIN
         then (let (transaction_completed, entry_2) =
                 restore_completed (tm_log s) (e_transaction entry) [i..<count] entry_2
               in if transaction_completed then restore_loop os count is entry entry_2 s
                  else bnd (tm_append os (txentry_init LOG_ABORT (e_transaction entry) (tm_vclock s)) s)
                         (restore_loop os count is entry entry_2))
         else restore_loop os count is entry entry_2 s)"

definition restoreTransactions :: "os_t \<Rightarrow> txmanager_t \<Rightarrow> txmanager_t outcome" where
  "restoreTransactions os s =
     (let count = nat (sint (tx_count (header (tm_log s))))
      in restore_loop os count [0..<count] (os_stack_entry os) (os_stack_entry os) s)"

text \<open>The state \<^verbatim>\<open>main\<close> sets up, and what it does with it before the loop.\<close>

definition tm_init :: "os_t \<Rightarrow> u32 \<Rightarrow> txlog_t \<Rightarrow> server_t \<Rightarrow> txmanager_t" where
  "tm_init os prt log srv =
     \<lparr>tm_server = Some (snd (server_listen os srv)), tm_log = log, tm_vclock = txlog_read_clock log,
      transactions = replicate MAX_TRANSACTIONS zero_transaction, tmgr_port = prt,
      commit_crash = False, abort_crash = False, tm_viz = viz_closed, tm_out = []\<rparr>"

definition tm_boot :: "os_t \<Rightarrow> txmanager_t \<Rightarrow> txmanager_t outcome" where
  "tm_boot os s =
     attempt (if vclock_has (tm_vclock s) (tmgr_port s) then Inr (tm_vclock s)
              else vclock_add (tm_vclock s) (tmgr_port s)) s
       (\<lambda>vc. bnd (tm_viz_append os ''Started manager'' (s\<lparr>tm_vclock := vc\<rparr>)) (restoreTransactions os))"

text \<open>
  \<^verbatim>\<open>main\<close> up to its loop: \<open>argv\<close> and the log file there is. The clock is the first thing read
  from the mapped header. Before the log is open there is
  no state to leave behind, so a failure there is an \<open>Inl\<close>.
\<close>

definition tm_main_start :: "os_t \<Rightarrow> char list list \<Rightarrow> txlog_t option \<Rightarrow> halt + txmanager_t outcome" where
  "tm_main_start os argv file =
     (if length argv \<noteq> 2 then Inl (Exit (-1))
      else let prt = atoi (argv ! 1) in
        (case txlog_open os file of Inl h \<Rightarrow> Inl h
         | Inr log \<Rightarrow> (case server_alloc os prt 10 of Inl h \<Rightarrow> Inl h
         | Inr srv \<Rightarrow> (case txlog_mapped os log of Inl h \<Rightarrow> Inl h
         | Inr log \<Rightarrow> Inr (tm_boot os (tm_init os prt log srv))))))"

section \<open>Printing the table\<close>

definition printTransactions :: "txmanager_t \<Rightarrow> string" where
  "printTransactions s = concat (map (\<lambda>tx.
     if t_tid tx \<noteq> 0
     then ''TID: '' @ fmt_d (t_tid tx) @ '' state: '' @ fmt_d (state_code (t_state tx)) @ [CHR 0x0A]
     else ''TID: NULL'' @ [CHR 0x0A]) (transactions s))"

definition printWorkers :: "transaction_t \<Rightarrow> string" where
  "printWorkers tx =
     fmt_d (nodeCount tx) @ '' workers at Transaction party: '' @ fmt_d (t_tid tx) @ [CHR 0x0A] @
     concat (map (\<lambda>w. ''Worker: '' @ fmt_d (nid w) @ [CHR 0x0A]) (t_nodes tx))"

end
