(* ===== verification/TManagerProps.thy ===== *)
theory TManagerProps
  imports TManager
begin

text \<open>
  What the transaction manager keeps: the frame of the operations that only talk (they touch
  neither the table nor the log), the invariant that ties the table to the log, and its
  preservation by every case of the message loop.
\<close>

section \<open>Operations that only talk\<close>

text \<open>The state without its outputs.\<close>

definition core :: "txmanager_t \<Rightarrow> txmanager_t" where
  "core s = s\<lparr>tm_viz := viz_closed, tm_out := []\<rparr>"

lemma core_eqD:
  assumes "core s' = core s"
  shows "tm_log s' = tm_log s" "transactions s' = transactions s" "tm_vclock s' = tm_vclock s"
    "tmgr_port s' = tmgr_port s" "tm_server s' = tm_server s"
    "commit_crash s' = commit_crash s" "abort_crash s' = abort_crash s"
  using assms by (cases s; cases s'; simp add: core_def)+

lemma core_viz [simp]: "core (final (tm_viz_append os m s)) = core s"
  by (simp add: tm_viz_append_def core_def)

lemma core_send [simp]: "core (final (tm_send os a m s)) = core s"
  unfolding tm_send_def by (rule final_attemptI) (simp_all add: core_def)

lemma core_error [simp]: "core (final (tm_error os a t s)) = core s"
  unfolding tm_error_def Let_def by (rule final_attemptI) simp_all

lemma core_bnd:
  assumes "core (final m) = c" and "\<And>s. core s = c \<Longrightarrow> core (final (f s)) = c"
  shows "core (final (bnd m f)) = c"
  using assms by (rule final_bndI [where P = "\<lambda>s. core s = c"])

lemma core_send_workers [simp]: "core (final (send_workers os ws m s)) = core s"
proof (induction ws arbitrary: s)
  case (Cons w ws)
  show ?case unfolding send_workers.simps by (rule core_bnd) (simp_all add: Cons)
qed simp

lemma core_sendToAll [simp]: "core (final (sendToAllWorkers os i m s)) = core s"
  by (simp add: sendToAllWorkers_def)

lemma core_check [simp]: "core (final (checkTransactionLog os t a s)) = core s"
  unfolding checkTransactionLog_def Let_def
  by (auto intro!: core_bnd split: option.splits logEntryType.splits)

lemma core_error_viz: "core (final (bnd (tm_error os a t s) (tm_viz_append os m))) = core s"
  by (rule core_bnd) simp_all

lemma core_viz_send: "core (final (bnd (tm_viz_append os m s) (sendToAllWorkers os i msg))) = core s"
  by (rule core_bnd) simp_all

lemma core_ask [simp]: "core (final (tm_ask os m a s)) = core s"
  unfolding tm_ask_def Let_def
  by (auto intro!: core_bnd split: option.splits logEntryType.splits)

text \<open>A predicate of the core survives an operation that only talks.\<close>

lemma ensures_talk:
  assumes "core (final m) = core s" and "\<And>s'. core s' = core s \<Longrightarrow> P s'" and "\<And>s'. P s' \<Longrightarrow> Q s'"
  shows "ensures P Q m"
  using assms by (cases m) auto

section \<open>The table and the log\<close>

text \<open>What the log says of one transaction: the types of its entries, oldest first.\<close>

definition tx_types :: "txlog_entry_t list \<Rightarrow> u32 \<Rightarrow> u32 list" where
  "tx_types es t = map e_type (filter (\<lambda>e. e_transaction e = t) es)"

lemma tx_types_append [simp]: "tx_types (es @ fs) t = tx_types es t @ tx_types fs t"
  by (simp add: tx_types_def)

lemma tx_types_Nil [simp]: "tx_types [] t = []"
  by (simp add: tx_types_def)

lemma tx_types_Cons [simp]:
  "tx_types (e # es) t = (if e_transaction e = t then e_type e # tx_types es t else tx_types es t)"
  by (simp add: tx_types_def)

lemma tx_types_eq_Nil: "tx_types es t = [] \<longleftrightarrow> (\<forall>e \<in> set es. e_transaction e \<noteq> t)"
  by (auto simp: tx_types_def filter_empty_conv)

text \<open>A manager logs beginnings and decisions, nothing else.\<close>

definition is_decision :: "txlog_entry_t \<Rightarrow> bool" where
  "is_decision e \<longleftrightarrow> e_type e = log_code LOG_ABORT \<or> e_type e = log_code LOG_COMMIT"

definition mgr_log :: "txlog_entry_t list \<Rightarrow> bool" where
  "mgr_log es \<longleftrightarrow> (\<forall>e \<in> set es. e_type e = log_code LOG_BEGIN \<or> is_decision e)"

lemma mgr_log_append [simp]: "mgr_log (es @ fs) \<longleftrightarrow> mgr_log es \<and> mgr_log fs"
  by (auto simp: mgr_log_def)

lemma mgr_log_entry [simp]:
  "mgr_log [txentry_init LOG_BEGIN t vc]" "mgr_log [txentry_init LOG_ABORT t vc]"
  "mgr_log [txentry_init LOG_COMMIT t vc]" "mgr_log []"
  by (simp_all add: mgr_log_def is_decision_def)

section \<open>Slots of the table\<close>

lemma upd_tx_fields [simp]:
  "tm_log (upd_tx i f s) = tm_log s" "tm_vclock (upd_tx i f s) = tm_vclock s"
  "tmgr_port (upd_tx i f s) = tmgr_port s" "tm_server (upd_tx i f s) = tm_server s"
  "commit_crash (upd_tx i f s) = commit_crash s" "abort_crash (upd_tx i f s) = abort_crash s"
  "tm_viz (upd_tx i f s) = tm_viz s" "tm_out (upd_tx i f s) = tm_out s"
  "transactions (upd_tx i f s) = (transactions s)[i := f (transactions s ! i)]"
  by (simp_all add: upd_tx_def)

lemma findTransaction_SomeD:
  "findTransaction t s = Some i \<Longrightarrow> i < length (transactions s) \<and> t_tid (transactions s ! i) = t"
  by (auto simp: findTransaction_def dest: first_index_SomeD)

lemma findTransaction_None:
  "findTransaction t s = None \<longleftrightarrow> (\<forall>tx \<in> set (transactions s). t_tid tx \<noteq> t)"
  by (simp add: findTransaction_def first_index_None)

lemma addTransaction_SomeD:
  assumes "fst (addTransaction os t a s) = Some i"
  shows "i < length (transactions s)"
    and "addTransaction os t a s = (Some i, Running (upd_tx i (\<lambda>_. new_transaction t a) s))"
  using assms by (auto simp: addTransaction_def dest: first_index_less split: option.splits if_splits)

lemma core_add_fails:
  assumes "fst (addTransaction os t a s) = None"
  shows "core (final (bnd (snd (addTransaction os t a s)) (tm_viz_append os m))) = core s"
  using assms
  by (intro core_bnd) (auto simp: addTransaction_def core_error_viz split: option.splits if_splits)

lemma new_transaction_tid [simp]: "t_tid (new_transaction t a) = t"
  by (simp add: new_transaction_def)

lemma new_transaction_nodes [simp]: "length (t_nodes (new_transaction t a)) = MAX_NODES"
  by (simp add: new_transaction_def zero_transaction_def)

lemma distinct_nonzero_update:
  assumes "distinct (filter (\<lambda>t. t \<noteq> 0) xs)" and "i < length xs" and "x = 0 \<or> x = xs ! i \<or> x \<notin> set xs"
  shows "distinct (filter (\<lambda>t. t \<noteq> (0::u32)) (xs[i := x]))"
  using assms
proof (induction xs arbitrary: i)
  case (Cons y ys)
  show ?case
  proof (cases i)
    case (Suc k)
    have "set (ys[k := x]) \<subseteq> insert x (set ys)" by (rule set_update_subset_insert)
    then have "y \<noteq> 0 \<Longrightarrow> y \<notin> set (ys[k := x])"
      using Cons.prems Suc nth_mem by fastforce
    with Cons Suc show ?thesis by (cases "y = 0") auto
  qed (use Cons.prems in \<open>auto split: if_splits\<close>)
qed simp

section \<open>Disciplines: what the messages may do to a slot\<close>

text \<open>
  A discipline is a property \<open>ok\<close> of a slot and of the history its transaction has in the log
  (with the budget of the run), together with the requests \<open>may_commit\<close> and \<open>may_abort\<close> that
  are acceptable in a slot. The assumptions go through the transitions the message loop makes
  on a slot; the lemmas carry them through every handler, every early exit included. \<open>hist\<close>
  is what the discipline guarantees of every history in the log. Id 0 marks a free slot, of
  which nothing is claimed but its size.
\<close>

locale discipline =
  fixes ok :: "nat \<Rightarrow> u32 list \<Rightarrow> transaction_t \<Rightarrow> bool"
    and hist :: "u32 list \<Rightarrow> bool"
    and may_commit :: "transaction_t \<Rightarrow> bool"
    and may_abort :: "transaction_t \<Rightarrow> bool"
  assumes ok_less: "ok (Suc n) h tx \<Longrightarrow> ok n h tx"
    and ok_hist: "ok n h tx \<Longrightarrow> h \<noteq> [] \<and> hist h"
    and ok_new: "n < 2 ^ 31 \<Longrightarrow> ok n [log_code LOG_BEGIN] (new_transaction t a)"
    and ok_commit: "ok n h tx \<Longrightarrow> may_commit tx \<Longrightarrow> t_state tx \<noteq> PREPARE_STATE \<Longrightarrow>
      ok n h (tx\<lparr>t_state := PREPARE_STATE\<rparr>)"
    and ok_abort: "ok n h tx \<Longrightarrow> may_abort tx \<Longrightarrow> ok n (h @ [log_code LOG_ABORT]) (tx\<lparr>t_state := ABORT_STATE\<rparr>)"
    and ok_vote: "ok (Suc n) h tx \<Longrightarrow> Suc n < 2 ^ 31 \<Longrightarrow> t_state tx \<noteq> ABORT_STATE \<Longrightarrow> nodeCount tx \<noteq> 1 \<Longrightarrow>
      ok n h (tx\<lparr>nodeCount := nodeCount tx - 1\<rparr>)"
    and ok_last_vote: "ok n h tx \<Longrightarrow> t_state tx \<noteq> ABORT_STATE \<Longrightarrow> nodeCount tx = 1 \<Longrightarrow>
      ok n (h @ [log_code LOG_COMMIT]) (tx\<lparr>nodeCount := nodeCount tx - 1, t_state := COMMIT_STATE\<rparr>)"
    and ok_join: "ok n h tx \<Longrightarrow> t_state tx = BEGIN_STATE \<Longrightarrow>
      first_index (\<lambda>w. nid w = 0) (t_nodes tx) = Some k \<Longrightarrow>
      ok n h (tx\<lparr>t_nodes := (t_nodes tx)[k := \<lparr>nid = port_of a, w_address = a\<rparr>], nodeCount := nodeCount tx + 1\<rparr>)"
begin

definition slot_ok :: "nat \<Rightarrow> txlog_entry_t list \<Rightarrow> transaction_t \<Rightarrow> bool" where
  "slot_ok n es tx \<longleftrightarrow>
     length (t_nodes tx) = MAX_NODES \<and> (t_tid tx \<noteq> 0 \<longrightarrow> ok n (tx_types es (t_tid tx)) tx)"

definition table_ok :: "nat \<Rightarrow> txlog_entry_t list \<Rightarrow> transaction_t list \<Rightarrow> bool" where
  "table_ok n es txs \<longleftrightarrow> length txs = MAX_TRANSACTIONS \<and>
     distinct (filter (\<lambda>t. t \<noteq> 0) (map t_tid txs)) \<and> (\<forall>tx \<in> set txs. slot_ok n es tx)"

definition log_ok :: "nat \<Rightarrow> txlog_t \<Rightarrow> bool" where
  "log_ok n log \<longleftrightarrow> log_room n log \<and> mgr_log (log_entries log) \<and>
     (\<forall>t. t \<noteq> 0 \<longrightarrow> tx_types (log_entries log) t = [] \<or> hist (tx_types (log_entries log) t))"

definition inv :: "nat \<Rightarrow> txmanager_t \<Rightarrow> bool" where
  "inv n s \<longleftrightarrow> log_ok n (tm_log s) \<and> table_ok n (log_entries (tm_log s)) (transactions s)"

definition durable :: "txmanager_t \<Rightarrow> bool" where
  "durable s \<longleftrightarrow> log_ok 0 (tm_log s)"

lemma log_ok_less: "log_ok (Suc n) l \<Longrightarrow> log_ok n l"
  by (auto simp: log_ok_def log_room_def)

lemma inv_core: "core s' = core s \<Longrightarrow> inv n s \<Longrightarrow> inv n s'"
  using core_eqD(1,2) [of s' s] by (simp add: inv_def)

lemma inv_durable: "inv n s \<Longrightarrow> durable s"
  by (auto simp: inv_def durable_def log_ok_def log_room_def)

lemma inv_less: "inv (Suc n) s \<Longrightarrow> inv n s"
  by (auto simp: inv_def table_ok_def slot_ok_def dest: log_ok_less ok_less)

lemma inv_room: "inv n s \<Longrightarrow> log_room n (tm_log s)"
  by (simp add: inv_def log_ok_def)

lemma inv_slot: "inv n s \<Longrightarrow> i < length (transactions s) \<Longrightarrow> slot_ok n (log_entries (tm_log s)) (transactions s ! i)"
  by (simp add: inv_def table_ok_def)

text \<open>Replacing slot \<open>i\<close> and extending the log by entries of the transaction in that slot.\<close>

lemma table_ok_update:
  assumes tab: "table_ok n es txs" and i: "i < length txs"
    and id: "t_tid tx = 0 \<or> t_tid tx = t_tid (txs ! i) \<or> t_tid tx \<notin> set (map t_tid txs)"
    and only: "\<forall>e \<in> set fs. e_transaction e = t_tid tx"
    and new: "slot_ok n (es @ fs) tx"
  shows "table_ok n (es @ fs) (txs[i := tx])"
proof -
  have "slot_ok n (es @ fs) u" if u: "u \<in> set (txs[i := tx])" for u
  proof (cases "u = tx")
    case False
    then obtain j where j: "j < length txs" "j \<noteq> i" "u = txs ! j"
      using u i by (auto simp: in_set_conv_nth nth_list_update split: if_splits)
    then have uok: "slot_ok n es u" using tab by (auto simp: table_ok_def)
    have "t_tid u = 0 \<or> t_tid u \<noteq> t_tid tx"
    proof (rule ccontr)
      assume "\<not> ?thesis"
      then have nz: "t_tid u \<noteq> 0" and eq: "t_tid u = t_tid tx" by auto
      from j have "t_tid u \<in> set (map t_tid txs)" by (auto intro: nth_mem)
      with id j eq nz have "t_tid (txs ! i) = t_tid (txs ! j)" by metis
      with tab i j nz eq show False
        using distinct_filter_nth_neq [of "\<lambda>t. t \<noteq> 0" "map t_tid txs" i j]
        by (simp add: table_ok_def)
    qed
    then have "t_tid u \<noteq> 0 \<Longrightarrow> tx_types fs (t_tid u) = []"
      using only by (auto simp: tx_types_eq_Nil)
    with uok show ?thesis by (auto simp: slot_ok_def)
  qed (simp add: new)
  moreover have "distinct (filter (\<lambda>t. t \<noteq> 0) (map t_tid (txs[i := tx])))"
    using distinct_nonzero_update [of "map t_tid txs" i "t_tid tx"] tab i id
    by (simp add: table_ok_def map_update)
  ultimately show ?thesis using tab by (simp add: table_ok_def)
qed

text \<open>Changing a slot without logging.\<close>

lemma inv_upd_tx:
  assumes "inv n s" and "i < length (transactions s)"
    and "t_tid (f (transactions s ! i)) = t_tid (transactions s ! i)"
    and "slot_ok n (log_entries (tm_log s)) (f (transactions s ! i))"
  shows "inv n (upd_tx i f s)"
  using assms table_ok_update [of n "log_entries (tm_log s)" "transactions s" i "f (transactions s ! i)" "[]"]
  by (simp add: inv_def)

section \<open>The effects a handler is made of\<close>

text \<open>
  Logging one entry for the transaction that slot \<open>i\<close> now holds. The state \<open>s\<close> is the one
  before the slot was changed, since only there the invariant holds.
\<close>

lemma ensures_append:
  assumes inv: "inv (Suc n) s" and i: "i < length (transactions s)"
    and c: "core s' = core (upd_tx i f s)" and tx: "tx = f (transactions s ! i)"
    and id: "t_tid tx = 0 \<or> t_tid tx = t_tid (transactions s ! i) \<or> t_tid tx \<notin> set (map t_tid (transactions s))"
    and e: "e_transaction e = t_tid tx" "mgr_log [e]"
    and new: "slot_ok n (log_entries (tm_log s) @ [e]) tx"
  shows "ensures (inv n) durable (tm_append os e s')"
proof (rule ensures_final)
  let ?es = "log_entries (tm_log s)"
  have room: "log_room (Suc n) (tm_log s)" using inv by (rule inv_room)
  have tab: "table_ok n ?es (transactions s)" using inv_less [OF inv] by (simp add: inv_def)
  have "table_ok n (?es @ [e]) ((transactions s)[i := tx])"
    using table_ok_update [OF tab i id _ new] e by simp
  moreover have "log_ok n (final (txlog_append os (tm_log s) e))"
    using inv e new ok_hist [of n "tx_types (?es @ [e]) (t_tid tx)" tx]
    by (auto simp: inv_def log_ok_def slot_ok_def tl.append_entries [OF room] tl.append_room [OF room])
  ultimately show "inv n (final (tm_append os e s'))"
    using core_eqD(1,2) [OF c] tx by (simp add: tm_append_def inv_def tl.append_entries [OF room])
qed (rule inv_durable)

lemma ensures_core:
  assumes "core (final m) = core s" and "durable s"
  shows "ensures (\<lambda>s'. core s' = core s) durable m"
proof (rule ensures_final)
  show "core (final m) = core s" by (rule assms(1))
next
  fix s' assume "core s' = core s"
  then show "durable s'" using core_eqD(1) [of s' s] assms(2) by (simp add: durable_def)
qed

lemma talk_inv0: "core (final m) = core s \<Longrightarrow> inv n s \<Longrightarrow> ensures (inv n) durable m"
  by (rule ensures_talk [where s = s]) (auto dest: inv_durable inv_core)

lemma talk_inv1: "core (final m) = core s \<Longrightarrow> inv (Suc n) s \<Longrightarrow> ensures (inv n) durable m"
  by (rule talk_inv0 [OF _ inv_less])

lemmas talk_inv =
  talk_inv1 [OF core_viz] talk_inv1 [OF core_check] talk_inv1 [OF core_ask] talk_inv1 [OF core_error_viz]
  talk_inv1 [OF core_viz_send] talk_inv0 [OF core_viz] talk_inv0 [OF core_sendToAll]

text \<open>The two decisions: a new state for slot \<open>i\<close>, an event, one entry of that transaction.\<close>

lemma ensures_decision:
  assumes inv: "inv (Suc n) s" and i: "i < length (transactions s)" and tx: "tx = f (transactions s ! i)"
    and t: "t_tid tx = t_tid (transactions s ! i)" "e_transaction e = t_tid tx"
    and new: "slot_ok n (log_entries (tm_log s) @ [e]) tx" and ml: "mgr_log [e]"
    and rest: "\<And>s'. inv n s' \<Longrightarrow> ensures (inv n) durable (k s')"
    and e: "\<And>s'. core s' = core (upd_tx i f s) \<Longrightarrow> g s' = e"
  shows "ensures (inv n) durable
     (bnd (tm_viz_append os m (upd_tx i f s)) (\<lambda>s. bnd (tm_append os (g s) s) k))"
proof (rule ensures_bnd)
  show "ensures (\<lambda>s'. core s' = core (upd_tx i f s)) durable (tm_viz_append os m (upd_tx i f s))"
    using inv_durable [OF inv] by (intro ensures_core) (simp_all add: durable_def)
next
  fix s' assume c: "core s' = core (upd_tx i f s)"
  have "ensures (inv n) durable (tm_append os e s')"
    using t by (intro ensures_append [OF inv i c tx _ t(2) ml new]) simp
  then show "ensures (inv n) durable (bnd (tm_append os (g s') s') k)"
    unfolding e [OF c] by (rule ensures_bnd) (rule rest)
qed

section \<open>The handlers\<close>

text \<open>A message is acceptable if its request is, in the slot it is for.\<close>

definition acceptable :: "message_t \<Rightarrow> txmanager_t \<Rightarrow> bool" where
  "acceptable msg s \<longleftrightarrow> (\<forall>i. findTransaction (m_tid msg) s = Some i \<longrightarrow> m_tid msg \<noteq> 0 \<longrightarrow>
     (m_type msg = cmd_code COMMIT \<longrightarrow> may_commit (transactions s ! i)) \<and>
     (m_type msg = cmd_code ABORT \<longrightarrow> may_abort (transactions s ! i)))"

lemma tm_abort_inv:
  assumes inv: "inv (Suc n) s" and acc: "acceptable msg s" and ty: "m_type msg = cmd_code ABORT"
  shows "ensures (inv n) durable (tm_abort os msg a s)"
proof (cases "findTransaction (m_tid msg) s")
  case (Some i)
  from findTransaction_SomeD [OF Some] have i: "i < length (transactions s)" "t_tid (transactions s ! i) = m_tid msg"
    by auto
  let ?f = "\<lambda>tx. tx\<lparr>t_state := ABORT_STATE\<rparr>" and ?e = "txentry_init LOG_ABORT (m_tid msg) (tm_vclock s)"
  show ?thesis
    unfolding tm_abort_def Some option.case
  proof (rule ensures_decision [OF inv i(1), where tx = "?f (transactions s ! i)" and e = ?e])
    have "m_tid msg \<noteq> 0 \<Longrightarrow> may_abort (transactions s ! i)"
      using acc ty Some by (simp add: acceptable_def)
    then show "slot_ok n (log_entries (tm_log s) @ [?e]) (?f (transactions s ! i))"
      using inv_slot [OF inv_less [OF inv] i(1)] i(2) ok_abort by (simp add: slot_ok_def)
    fix s' assume "core s' = core (upd_tx i ?f s)"
    from core_eqD(3) [OF this] show "txentry_init LOG_ABORT (m_tid msg) (tm_vclock s') = ?e" by simp
  qed (use i in \<open>auto intro: talk_inv inv_durable\<close>)
qed (use inv in \<open>simp add: tm_abort_def talk_inv\<close>)

lemma tm_prepared_inv:
  assumes inv: "inv (Suc n) s"
  shows "ensures (inv n) durable (tm_prepared os msg a s)"
proof (cases "findTransaction (m_tid msg) s")
  case None
  have "ensures (inv n) durable (checkTransactionLog os (m_tid msg) a s)" using inv by (rule talk_inv)
  then show ?thesis
    unfolding tm_prepared_def None option.case by (rule ensures_bnd) (simp add: inv_durable)
next
  case (Some i)
  from findTransaction_SomeD [OF Some] have i: "i < length (transactions s)" by simp
  let ?tx = "transactions s ! i" and ?f = "\<lambda>tx. tx\<lparr>nodeCount := nodeCount tx - 1\<rparr>"
  note slot = inv_slot [OF inv i]
  have n: "Suc n < 2 ^ 31" using inv_room [OF inv] by (simp add: log_room_def)
  consider "t_state ?tx = ABORT_STATE" | "t_state ?tx \<noteq> ABORT_STATE" "nodeCount ?tx = 1"
    | "t_state ?tx \<noteq> ABORT_STATE" "nodeCount ?tx \<noteq> 1" by blast
  then show ?thesis
  proof cases
    case 1
    then show ?thesis using inv Some by (simp add: tm_prepared_def talk_inv)
  next
    case 2
    let ?g = "\<lambda>tx. tx\<lparr>nodeCount := nodeCount tx - 1, t_state := COMMIT_STATE\<rparr>"
    let ?e = "txentry_init LOG_COMMIT (t_tid ?tx) (tm_vclock s)"
    have two: "upd_tx i (\<lambda>tx. tx\<lparr>t_state := COMMIT_STATE\<rparr>) (upd_tx i ?f s) = upd_tx i ?g s"
      using i by (simp add: upd_tx_def)
    have "ensures (inv n) durable (tm_decide os i (upd_tx i ?f s))"
      unfolding tm_decide_def two
    proof (rule ensures_decision [OF inv i, where tx = "?g ?tx" and e = ?e])
      show "slot_ok n (log_entries (tm_log s) @ [?e]) (?g ?tx)"
        using slot ok_last_vote [OF ok_less] 2 by (simp add: slot_ok_def)
      fix s' assume "core s' = core (upd_tx i ?g s)"
      from core_eqD(2,3) [OF this] i
      show "txentry_init LOG_COMMIT (t_tid (transactions s' ! i)) (tm_vclock s') = ?e" by simp
    qed (auto intro: talk_inv inv_durable)
    then show ?thesis using 2 i Some by (simp add: tm_prepared_def)
  next
    case 3
    have "inv n (upd_tx i ?f s)"
      using slot ok_vote [OF _ n] 3 by (intro inv_upd_tx [OF inv_less [OF inv] i]) (simp_all add: slot_ok_def)
    then show ?thesis using 3 i Some by (simp add: tm_prepared_def talk_inv)
  qed
qed

lemma tm_commit_inv:
  assumes inv: "inv (Suc n) s" and acc: "acceptable msg s" and ty: "m_type msg = cmd_code COMMIT"
  shows "ensures (inv n) durable (tm_commit os msg a s)"
proof (cases "findTransaction (m_tid msg) s")
  case (Some i)
  from findTransaction_SomeD [OF Some] have i: "i < length (transactions s)" "t_tid (transactions s ! i) = m_tid msg"
    by simp_all
  have "inv (Suc n) (upd_tx i (\<lambda>tx. tx\<lparr>t_state := PREPARE_STATE\<rparr>) s)"
    if "t_state (transactions s ! i) \<noteq> PREPARE_STATE"
    using inv_slot [OF inv i(1)] ok_commit that acc ty Some i
    by (intro inv_upd_tx [OF inv i(1)]) (auto simp: slot_ok_def acceptable_def)
  then show ?thesis
    unfolding tm_commit_def Some option.case Let_def using inv by (auto intro: talk_inv)
qed (use inv in \<open>simp add: tm_commit_def talk_inv\<close>)

lemma tm_join_inv:
  assumes inv: "inv (Suc n) s"
  shows "ensures (inv n) durable (tm_join os msg a s)"
proof (cases "findTransaction (m_tid msg) s")
  case (Some i)
  from findTransaction_SomeD [OF Some] have i: "i < length (transactions s)" by simp
  have "inv (Suc n) (snd (joinTransaction i a s))" if "t_state (transactions s ! i) = BEGIN_STATE"
    using inv_slot [OF inv i] ok_join that inv
    by (auto simp: joinTransaction_def slot_ok_def intro!: inv_upd_tx [OF inv i] split: option.splits)
  with inv show ?thesis
    unfolding tm_join_def Some option.case
    by (cases "t_state (transactions s ! i)"; cases "joinTransaction i a s")
      (auto intro: talk_inv simp: joinTransaction_def split: bool.splits option.splits)
qed (use inv in \<open>simp add: tm_join_def talk_inv\<close>)

text \<open>Ids in the table are in the log, so a free id is not in the table.\<close>

lemma free_id_not_in_table:
  assumes inv: "inv n s" and free: "txlog_free_id os (tm_log s) t"
  shows "t = 0 \<or> t \<notin> set (map t_tid (transactions s))"
proof (rule ccontr)
  assume "\<not> ?thesis"
  then obtain tx where tx: "tx \<in> set (transactions s)" "t_tid tx = t" "t \<noteq> 0" by auto
  then have "tx_types (log_entries (tm_log s)) t \<noteq> []"
    using inv ok_hist by (auto simp: inv_def table_ok_def slot_ok_def)
  with free show False
    using tl.free_id_unused [OF inv_room [OF inv]] by (simp add: tx_types_eq_Nil)
qed

lemma tm_begin_inv:
  assumes inv: "inv (Suc n) s"
  shows "ensures (inv n) durable (tm_begin os msg a s)"
proof (cases "txlog_free_id os (tm_log s) (m_tid msg)")
  case True
  let ?t = "m_tid msg"
  show ?thesis
  proof (cases "fst (addTransaction os ?t a s)")
    case None
    then show ?thesis
      using True inv core_add_fails [OF None] unfolding tm_begin_def
      by (cases "addTransaction os ?t a s") (auto intro: talk_inv1 [where s = s])
  next
    case (Some i)
    let ?f = "\<lambda>_. new_transaction ?t a" and ?e = "\<lambda>vc. txentry_init LOG_BEGIN ?t vc"
    from addTransaction_SomeD [OF Some] have i: "i < length (transactions s)"
      and add: "addTransaction os ?t a s = (Some i, Running (upd_tx i ?f s))" by auto
    have "tx_types (log_entries (tm_log s)) ?t = []"
      using True tl.free_id_unused [OF inv_room [OF inv]] by (simp add: tx_types_eq_Nil)
    moreover have "n < 2 ^ 31" using inv_room [OF inv] by (simp add: log_room_def)
    ultimately have new: "slot_ok n (log_entries (tm_log s) @ [?e vc]) (new_transaction ?t a)" for vc
      using ok_new by (simp add: slot_ok_def)
    have "ensures (\<lambda>s'. core s' = core (upd_tx i ?f s)) durable (tm_viz_append os ''BEGINTX'' (upd_tx i ?f s))"
      using inv_durable [OF inv] by (intro ensures_core) (simp_all add: durable_def)
    then have "ensures (inv n) durable
        (bnd (tm_viz_append os ''BEGINTX'' (upd_tx i ?f s)) (\<lambda>s. tm_append os (?e (tm_vclock s)) s))"
      by (rule ensures_bnd)
        (use free_id_not_in_table [OF inv True] new in \<open>auto intro!: ensures_append [OF inv i _ refl]\<close>)
    then show ?thesis using True add by (simp add: tm_begin_def)
  qed
qed (use inv in \<open>simp add: tm_begin_def talk_inv\<close>)

section \<open>Every step keeps the invariant\<close>

lemma inv_flags [simp]:
  "inv n (s\<lparr>abort_crash := b\<rparr>) = inv n s" "inv n (s\<lparr>commit_crash := b\<rparr>) = inv n s"
  "inv n (s\<lparr>tm_vclock := vc\<rparr>) = inv n s"
  by (simp_all add: inv_def)

lemma tm_handle_inv:
  assumes "inv (Suc n) s" and "acceptable msg s"
  shows "ensures (inv n) durable (tm_handle os msg a s)"
  unfolding tm_handle_def using assms
  by (auto split: option.splits cmdType.splits simp: cmd_of_eq_Some
      intro: tm_abort_inv tm_prepared_inv tm_commit_inv tm_join_inv tm_begin_inv talk_inv)

lemma tm_receive_inv:
  assumes "inv (Suc n) s" and "acceptable msg s"
  shows "ensures (inv n) durable (tm_receive os msg a s)"
  unfolding tm_receive_def Let_def
proof (rule ensures_attempt)
  fix vc
  show "ensures (inv n) durable (tm_handle os msg a (s\<lparr>tm_vclock := vclock_update (tmgr_port s) (tm_vclock s) (m_vclock msg)\<rparr>\<lparr>tm_vclock := vc\<rparr>))"
    using assms by (intro tm_handle_inv) (simp_all add: acceptable_def findTransaction_def)
qed (use assms inv_durable [of "Suc n" s] in \<open>simp add: durable_def\<close>)

text \<open>An event is acceptable if the message it delivers is.\<close>

definition acc :: "os_t \<times> recv_event \<Rightarrow> txmanager_t \<Rightarrow> bool" where
  "acc e s = (case snd e of RDatagram len buf from \<Rightarrow> acceptable (message_from_nbo buf) s | _ \<Rightarrow> True)"

lemma tm_step_inv:
  assumes "acc e s" and "inv (Suc n) s"
  shows "ensures (inv n) durable (tm_step e s)"
proof -
  obtain os ev where e: "e = (os, ev)" by (cases e)
  show ?thesis
    unfolding e tm_step_def prod.case
  proof (rule ensures_attempt)
    fix r assume r: "server_recv (tm_server s) ev zero_msg no_addr = Inr r"
    obtain len msg a where rr: "r = (len, msg, a)" by (cases r)
    have "0 < len \<Longrightarrow> acceptable msg s"
      using server_recv_cases [OF r [unfolded rr]] assms(1) e by (auto simp: acc_def)
    then show "ensures (inv n) durable (case r of (bytes, msg, recv_addr) \<Rightarrow>
        if bytes \<le> 0 then Running s else tm_receive os msg recv_addr s)"
      using assms(2) rr by (auto dest: inv_less intro: tm_receive_inv)
  qed (rule inv_durable [OF assms(2)])
qed

sublocale machine: guarded_machine tm_step acc inv durable
  by unfold_locales (rule tm_step_inv)

end

end
