(* ===== verification/TManagerDisc.thy ===== *)
theory TManagerDisc
  imports TManagerProps
begin

text \<open>
  Two disciplines for the manager.

  \<^item> \<open>agree\<close> accepts every message: whatever arrives, the table agrees with the log. A slot in
    \<^verbatim>\<open>BEGIN_STATE\<close> has only its beginning in the log; a slot in a decided state has that
    decision as its last entry.
  \<^item> \<open>once\<close> accepts commit requests for transactions that are not decided, and abort requests
    for transactions that are not committed; \<open>disciplined\<close> adds that what is logged names a
    transaction, with an id other than 0: then no transaction is ever both committed and
    aborted. The manager does not check this itself.
\<close>

section \<open>The table agrees with the log\<close>

text \<open>A history starts with the beginning of the transaction.\<close>

definition begins :: "u32 list \<Rightarrow> bool" where
  "begins h \<longleftrightarrow> hd h = log_code LOG_BEGIN"

definition tx_agrees :: "u32 list \<Rightarrow> transaction_t \<Rightarrow> bool" where
  "tx_agrees h tx \<longleftrightarrow> h \<noteq> [] \<and> begins h \<and>
     (case t_state tx of
        BEGIN_STATE \<Rightarrow> h = [log_code LOG_BEGIN]
      | PREPARE_STATE \<Rightarrow> True
      | COMMIT_STATE \<Rightarrow> last h = log_code LOG_COMMIT
      | ABORT_STATE \<Rightarrow> last h = log_code LOG_ABORT)"

interpretation agree: discipline "\<lambda>n. tx_agrees" begins "\<lambda>tx. True" "\<lambda>tx. True"
  by unfold_locales
    (auto simp: tx_agrees_def begins_def new_transaction_def zero_transaction_def hd_append
      split: transaction_state.splits)

text \<open>The invariant of the first discipline, written out.\<close>

definition tm_inv :: "nat \<Rightarrow> txmanager_t \<Rightarrow> bool" where
  "tm_inv n s \<longleftrightarrow>
     log_room n (tm_log s) \<and> mgr_log (log_entries (tm_log s)) \<and>
     (\<forall>t. t \<noteq> 0 \<longrightarrow> tx_types (log_entries (tm_log s)) t = [] \<or>
        begins (tx_types (log_entries (tm_log s)) t)) \<and>
     length (transactions s) = MAX_TRANSACTIONS \<and>
     distinct (filter (\<lambda>t. t \<noteq> 0) (map t_tid (transactions s))) \<and>
     (\<forall>tx \<in> set (transactions s). length (t_nodes tx) = MAX_NODES \<and>
        (t_tid tx \<noteq> 0 \<longrightarrow> tx_agrees (tx_types (log_entries (tm_log s)) (t_tid tx)) tx))"

definition tm_durable :: "txlog_t \<Rightarrow> bool" where
  "tm_durable log \<longleftrightarrow> log_room 0 log \<and> mgr_log (log_entries log) \<and>
     (\<forall>t. t \<noteq> 0 \<longrightarrow> tx_types (log_entries log) t = [] \<or> begins (tx_types (log_entries log) t))"

lemma agree_inv: "agree.inv = tm_inv"
  by (intro ext)
    (simp add: agree.inv_def agree.log_ok_def agree.table_ok_def agree.slot_ok_def tm_inv_def conj_assoc)

lemma agree_durable: "agree.durable = (\<lambda>s. tm_durable (tm_log s))"
  by (intro ext) (simp add: agree.durable_def agree.log_ok_def tm_durable_def)

lemma agree_acc [simp]: "agree.acc e s"
  by (simp add: agree.acc_def agree.acceptable_def split: recv_event.splits)

lemma admissible_all: "(\<And>e s. acc e s) \<Longrightarrow> admissible acc step es s"
  by (induction es arbitrary: s) (auto split: outcome.splits)

lemma tm_run_inv:
  "tm_inv (n + length es) s \<Longrightarrow> ensures (tm_inv n) (\<lambda>s. tm_durable (tm_log s)) (run_machine tm_step es s)"
  using agree.machine.run_inv [of n es s]
  by (simp add: agree_inv agree_durable admissible_all)

section \<open>One decision\<close>

text \<open>Nothing is logged after a beginning, or one commit, or aborts only.\<close>

definition one_decision :: "u32 list \<Rightarrow> bool" where
  "one_decision h \<longleftrightarrow> h \<noteq> [] \<and> hd h = log_code LOG_BEGIN \<and>
     (tl h = [log_code LOG_COMMIT] \<or> set (tl h) \<subseteq> {log_code LOG_ABORT})"

text \<open>
  In a committed slot the vote counter is 0, or it has wrapped around and is so large that the
  rest of the run cannot bring it back to 1.
\<close>

definition tx_once :: "nat \<Rightarrow> u32 list \<Rightarrow> transaction_t \<Rightarrow> bool" where
  "tx_once n h tx \<longleftrightarrow> one_decision h \<and>
     (case t_state tx of
        BEGIN_STATE \<Rightarrow> h = [log_code LOG_BEGIN]
      | PREPARE_STATE \<Rightarrow> h = [log_code LOG_BEGIN]
      | COMMIT_STATE \<Rightarrow> h = [log_code LOG_BEGIN, log_code LOG_COMMIT] \<and>
          (nodeCount tx = 0 \<or> 2 ^ 31 + n \<le> unat (nodeCount tx))
      | ABORT_STATE \<Rightarrow> set (tl h) \<subseteq> {log_code LOG_ABORT})"

definition asks_undecided :: "transaction_t \<Rightarrow> bool" where
  "asks_undecided tx \<longleftrightarrow> t_state tx = BEGIN_STATE \<or> t_state tx = PREPARE_STATE"

definition not_committed :: "transaction_t \<Rightarrow> bool" where
  "not_committed tx \<longleftrightarrow> t_state tx \<noteq> COMMIT_STATE"

lemma one_decision_abort:
  "one_decision h \<Longrightarrow> set (tl h) \<subseteq> {log_code LOG_ABORT} \<Longrightarrow> one_decision (h @ [log_code LOG_ABORT])"
  by (cases h) (auto simp: one_decision_def)

lemma count_down:
  assumes "c = 0 \<or> 2 ^ 31 + Suc n \<le> unat c" and "Suc n < 2 ^ 31"
  shows "2 ^ 31 + n \<le> unat (c - 1 :: u32)"
proof (cases "c = 0")
  case True
  then show ?thesis using assms(2) by (simp add: unsigned_minus_1_eq_mask mask_eq_exp_minus_1)
next
  case False
  then show ?thesis using assms(1) by (simp add: unat_minus_one)
qed

interpretation once: discipline tx_once one_decision asks_undecided not_committed
proof unfold_locales
  fix n h tx
  assume "tx_once (Suc n) h tx" and "Suc n < 2 ^ 31" and "t_state tx \<noteq> ABORT_STATE" and "nodeCount tx \<noteq> 1"
  then show "tx_once n h (tx\<lparr>nodeCount := nodeCount tx - 1\<rparr>)"
    using count_down [of "nodeCount tx" n] by (auto simp: tx_once_def split: transaction_state.splits)
next
  fix n h tx
  assume "tx_once n h tx" and "not_committed tx"
  then show "tx_once n (h @ [log_code LOG_ABORT]) (tx\<lparr>t_state := ABORT_STATE\<rparr>)"
    by (cases h) (auto simp: tx_once_def not_committed_def one_decision_def split: transaction_state.splits)
qed (auto simp: tx_once_def asks_undecided_def one_decision_def new_transaction_def zero_transaction_def
      split: transaction_state.splits)

text \<open>
  The requests the second discipline accepts, as a predicate of events: a request that is logged
  names a transaction (id 0 marks the free slots, and the manager takes it for the id of the
  first of them), a commit request is not for a decided one and an abort request not for a
  committed one.
\<close>

definition logs :: "u32 set" where
  "logs = {cmd_code BEGINTX, cmd_code ABORT, cmd_code PREPARED}"

definition disciplined :: "os_t \<times> recv_event \<Rightarrow> txmanager_t \<Rightarrow> bool" where
  "disciplined e s = (case snd e of
       RDatagram len buf from \<Rightarrow>
         (let msg = message_from_nbo buf in
            (m_type msg \<in> logs \<longrightarrow> m_tid msg \<noteq> 0) \<and>
            (case findTransaction (m_tid msg) s of
              None \<Rightarrow> True
            | Some i \<Rightarrow>
                (m_type msg \<noteq> cmd_code COMMIT \<or> t_state (transactions s ! i) \<in> {BEGIN_STATE, PREPARE_STATE}) \<and>
                (m_type msg \<noteq> cmd_code ABORT \<or> t_state (transactions s ! i) \<noteq> COMMIT_STATE)))
     | _ \<Rightarrow> True)"

lemma once_acc: "disciplined e s \<Longrightarrow> once.acc e s"
  by (auto simp: once.acc_def once.acceptable_def disciplined_def asks_undecided_def not_committed_def Let_def
      split: recv_event.splits option.splits)

text \<open>Every entry is about a transaction, and none is both committed and aborted.\<close>

definition real_ids :: "txlog_entry_t list \<Rightarrow> bool" where
  "real_ids es \<longleftrightarrow> (\<forall>e \<in> set es. e_transaction e \<noteq> 0)"

lemma real_ids_simps [simp]:
  "real_ids []" "real_ids (es @ fs) \<longleftrightarrow> real_ids es \<and> real_ids fs" "real_ids (e # es) \<longleftrightarrow> e_transaction e \<noteq> 0 \<and> real_ids es"
  by (auto simp: real_ids_def)

definition no_conflict :: "txlog_entry_t list \<Rightarrow> bool" where
  "no_conflict es \<longleftrightarrow> \<not> (\<exists>c \<in> set es. \<exists>a \<in> set es. e_transaction c = e_transaction a \<and>
     e_type c = log_code LOG_COMMIT \<and> e_type a = log_code LOG_ABORT)"

lemma tx_types_mem: "e \<in> set es \<Longrightarrow> e_type e \<in> set (tx_types es (e_transaction e))"
  by (simp add: tx_types_def)

lemma one_decision_no_conflict:
  "one_decision h \<Longrightarrow> \<not> (log_code LOG_COMMIT \<in> set h \<and> log_code LOG_ABORT \<in> set h)"
  by (cases h) (auto simp: one_decision_def)

lemma log_ok_no_conflict: "once.log_ok n log \<Longrightarrow> real_ids (log_entries log) \<Longrightarrow> no_conflict (log_entries log)"
  unfolding no_conflict_def once.log_ok_def real_ids_def
  by (metis one_decision_no_conflict tx_types_mem empty_iff empty_set)

end
