(* ===== verification/TManagerStart.thy ===== *)
theory TManagerStart
  imports TManagerDisc
begin

text \<open>
  Starting the manager on an old log: \<^verbatim>\<open>restoreTransactions\<close> appends an abort for exactly the
  transactions that were begun and not decided, changes nothing else, and leaves a manager
  that satisfies the invariant and answers for every transaction that was ever begun.
\<close>

section \<open>What has to be aborted\<close>

definition decided_in :: "txlog_entry_t list \<Rightarrow> u32 \<Rightarrow> bool" where
  "decided_in es t \<longleftrightarrow> (\<exists>e \<in> set es. e_transaction e = t \<and> is_decision e)"

text \<open>The beginnings that no decision follows, oldest first.\<close>

fun undecided :: "txlog_entry_t list \<Rightarrow> u32 list" where
  "undecided [] = []"
| "undecided (e # es) =
     (if e_type e = log_code LOG_BEGIN \<and> \<not> decided_in (e # es) (e_transaction e)
      then e_transaction e # undecided es else undecided es)"

lemma length_undecided: "length (undecided es) \<le> length es"
  by (induction es) auto

section \<open>The loops\<close>

lemma restore_completed_in:
  assumes "log_room n log" and "set js \<subseteq> {..<log_count log}"
  shows "fst (restore_completed log t js buf) \<longleftrightarrow>
     (\<exists>j \<in> set js. e_transaction (log_entries log ! j) = t \<and> is_decision (log_entries log ! j))"
  using assms by (induction js arbitrary: buf) (auto simp: txlog_read_entry_in Let_def is_decision_def)

lemma restore_completed_range:
  assumes room: "log_room n log" and es: "log_entries log = es @ ds" and "i \<le> length es"
  shows "fst (restore_completed log t [i..<length es] buf) = decided_in (drop i es) t"
proof -
  have len: "log_count log = length es + length ds"
    using length_log_entries [OF room] es by simp
  then have "fst (restore_completed log t [i..<length es] buf) \<longleftrightarrow>
      (\<exists>j. i \<le> j \<and> j < length es \<and> e_transaction (es ! j) = t \<and> is_decision (es ! j))"
    using es by (subst restore_completed_in [OF room]) (auto simp: nth_append)
  then show ?thesis by (auto simp: decided_in_def Bex_def in_set_drop)
qed

abbreviation abort_entries :: "vclock_t list \<Rightarrow> u32 list \<Rightarrow> txlog_entry_t list" where
  "abort_entries vc ts \<equiv> map (\<lambda>t. txentry_init LOG_ABORT t vc) ts"

lemma tm_append_cases:
  "tm_append os e s = (if os_msync os then Running else Halted (Exit (-1)))
     (s\<lparr>tm_log := final (txlog_append os (tm_log s) e)\<rparr>)"
  by (simp add: tm_append_def txlog_append_def txlog_write_clock_def txlog_sync_def Let_def)

text \<open>One iteration of the outer loop; the contents of the buffers do not matter.\<close>

lemma restore_loop_step:
  assumes es: "log_entries (tm_log s) = es @ ds" and i: "i < length es" and room: "log_room n (tm_log s)"
  shows "\<exists>b' b2'. restore_loop os (length es) [i..<length es] b b2 s =
     (if e_type (es ! i) = log_code LOG_BEGIN \<and> \<not> decided_in (drop i es) (e_transaction (es ! i))
      then bnd (tm_append os (txentry_init LOG_ABORT (e_transaction (es ! i)) (tm_vclock s)) s)
             (restore_loop os (length es) [Suc i..<length es] b' b2')
      else restore_loop os (length es) [Suc i..<length es] b' b2' s)"
proof -
  let ?e = "es ! i" and ?log = "tm_log s"
  have up: "[i..<length es] = i # [Suc i..<length es]" using i by (rule upt_conv_Cons)
  have "log_count ?log = length es + length ds" using length_log_entries [OF room] es by simp
  then have rd: "txlog_read_entry ?log (of_nat i) b = ?e"
    using txlog_read_entry_in [OF room, of i] es i by (simp add: nth_append)
  obtain fin b2' where rc: "restore_completed ?log (e_transaction ?e) [i..<length es] b2 = (fin, b2')"
    by fastforce
  have "fin = decided_in (drop i es) (e_transaction ?e)"
    using restore_completed_range [OF room es, of i "e_transaction ?e" b2] i rc by simp
  then have "restore_loop os (length es) (i # [Suc i..<length es]) b b2 s =
     (if e_type ?e = log_code LOG_BEGIN \<and> \<not> decided_in (drop i es) (e_transaction ?e)
      then bnd (tm_append os (txentry_init LOG_ABORT (e_transaction ?e) (tm_vclock s)) s)
             (restore_loop os (length es) [Suc i..<length es] ?e b2')
      else restore_loop os (length es) [Suc i..<length es] ?e
             (if e_type ?e = log_code LOG_BEGIN then b2' else b2) s)"
    using rd rc by (simp add: Let_def)
  then show ?thesis
    unfolding up by (cases "e_type ?e = log_code LOG_BEGIN") (simp_all, blast+)
qed

lemma restore_loop_spec:
  assumes "log_entries (tm_log s) = es @ ds" and "i \<le> length es"
    and "log_room (n + length (undecided (drop i es))) (tm_log s)"
    and "undecided (drop i es) \<noteq> [] \<Longrightarrow> os_msync os"
  shows "\<exists>l. restore_loop os (length es) [i..<length es] b b2 s = Running (s\<lparr>tm_log := l\<rparr>) \<and>
     log_entries l = es @ ds @ abort_entries (tm_vclock s) (undecided (drop i es)) \<and> log_room n l"
  using assms
proof (induction "length es - i" arbitrary: i b b2 s ds)
  case 0
  then show ?case by (intro exI [where x = "tm_log s"]) simp
next
  case (Suc k)
  then have i: "i < length es" and k: "k = length es - Suc i" by simp_all
  let ?e = "es ! i" and ?log = "tm_log s"
  have d: "drop i es = ?e # drop (Suc i) es" using i by (simp add: Cons_nth_drop_Suc)
  obtain b' b2' where step: "restore_loop os (length es) [i..<length es] b b2 s =
     (if e_type ?e = log_code LOG_BEGIN \<and> \<not> decided_in (drop i es) (e_transaction ?e)
      then bnd (tm_append os (txentry_init LOG_ABORT (e_transaction ?e) (tm_vclock s)) s)
             (restore_loop os (length es) [Suc i..<length es] b' b2')
      else restore_loop os (length es) [Suc i..<length es] b' b2' s)"
    using restore_loop_step [OF Suc.prems(1) i Suc.prems(3)] by blast
  show ?case
  proof (cases "e_type ?e = log_code LOG_BEGIN \<and> \<not> decided_in (drop i es) (e_transaction ?e)")
    case False
    then have u: "undecided (drop i es) = undecided (drop (Suc i) es)" using d by auto
    then show ?thesis
      unfolding step if_not_P [OF False] using Suc.hyps(1) [OF k] Suc.prems i by auto
  next
    case True
    let ?a = "txentry_init LOG_ABORT (e_transaction ?e) (tm_vclock s)"
    let ?s = "s\<lparr>tm_log := final (txlog_append os ?log ?a)\<rparr>"
    have u: "undecided (drop i es) = e_transaction ?e # undecided (drop (Suc i) es)"
      using True by (simp add: d)
    then have room: "log_room (Suc (n + length (undecided (drop (Suc i) es)))) ?log" and ms: "os_msync os"
      using Suc.prems(3,4) by simp_all
    have "log_entries (tm_log ?s) = es @ (ds @ [?a])"
      using tl.append_entries [OF room] Suc.prems(1) by simp
    moreover have "log_room (n + length (undecided (drop (Suc i) es))) (tm_log ?s)"
      using tl.append_room [OF room] by simp
    ultimately show ?thesis
      unfolding step if_P [OF True]
      using Suc.hyps(1) [OF k, of ?s "ds @ [?a]" b' b2'] i u ms by (auto simp: tm_append_cases)
  qed
qed

lemma sint_count:
  "log_room n log \<Longrightarrow> nat (sint (tx_count (header log))) = log_count log"
  by (simp add: log_room_def log_count_def sint_small)

lemma restoreTransactions_spec:
  assumes "log_room (n + length (undecided (log_entries (tm_log s)))) (tm_log s)"
    and "undecided (log_entries (tm_log s)) \<noteq> [] \<Longrightarrow> os_msync os"
  shows "\<exists>l. restoreTransactions os s = Running (s\<lparr>tm_log := l\<rparr>) \<and> log_room n l \<and>
     log_entries l = log_entries (tm_log s) @
       abort_entries (tm_vclock s) (undecided (log_entries (tm_log s)))"
  using restore_loop_spec [of s "log_entries (tm_log s)" "[]" 0 n os] assms
  by (fastforce simp: restoreTransactions_def sint_count length_log_entries Let_def)

section \<open>After the repair every transaction is decided\<close>

lemma decided_in_append: "decided_in (es @ fs) t \<longleftrightarrow> decided_in es t \<or> decided_in fs t"
  by (auto simp: decided_in_def)

lemma undecided_or_decided:
  "e \<in> set es \<Longrightarrow> e_type e = log_code LOG_BEGIN \<Longrightarrow>
     decided_in es (e_transaction e) \<or> e_transaction e \<in> set (undecided es)"
  by (induction es) (auto simp: decided_in_def)

lemma undecided_is_begun:
  "t \<in> set (undecided es) \<Longrightarrow> \<exists>e \<in> set es. e_transaction e = t \<and> e_type e = log_code LOG_BEGIN"
  by (induction es) (auto split: if_splits)

text \<open>The last entry of a transaction that is not waiting for the repair is its decision.\<close>

lemma last_of_decided:
  assumes "mgr_log es" and "t \<notin> set (undecided es)" and "tx_types es t \<noteq> []"
  shows "last (tx_types es t) = log_code LOG_COMMIT \<or> last (tx_types es t) = log_code LOG_ABORT"
  using assms
proof (induction es)
  case (Cons e es)
  show ?case
  proof (cases "tx_types es t = []")
    case True
    then have "e_transaction e = t" using Cons.prems(3) by (simp split: if_splits)
    moreover have "\<not> decided_in es t" using True by (auto simp: tx_types_eq_Nil decided_in_def)
    ultimately show ?thesis
      using Cons.prems True by (auto simp: mgr_log_def is_decision_def decided_in_def split: if_splits)
  next
    case False
    moreover have "t \<notin> set (undecided es)" using Cons.prems(2) by (auto split: if_splits)
    moreover have "mgr_log es" using Cons.prems(1) by (simp add: mgr_log_def)
    ultimately show ?thesis using Cons.IH by simp
  qed
qed simp

lemma tx_types_abort_entries:
  "tx_types (abort_entries vc ts) t = replicate (count_list ts t) (log_code LOG_ABORT)"
  by (induction ts) simp_all

text \<open>
  The whole start: a manager that gets into its loop has an empty table, the old log with
  the missing aborts behind it, and satisfies the invariant.
\<close>

definition restored :: "vclock_t list \<Rightarrow> txlog_entry_t list \<Rightarrow> txlog_entry_t list" where
  "restored vc es = es @ abort_entries vc (undecided es)"

lemma mgr_log_restored: "mgr_log es \<Longrightarrow> mgr_log (restored vc es)"
  by (auto simp: restored_def mgr_log_def is_decision_def)

lemma last_restored:
  assumes "mgr_log es" and "tx_types es t \<noteq> []"
  shows "last (tx_types (restored vc es) t) =
     (if t \<in> set (undecided es) then log_code LOG_ABORT else last (tx_types es t))"
  using assms(2) by (auto simp: restored_def tx_types_abort_entries last_append count_list_0_iff)

text \<open>A repair that needs an abort does not get past a failing \<^verbatim>\<open>msync\<close>.\<close>

lemma restore_loop_no_sync:
  assumes "\<not> os_msync os" and "log_entries (tm_log u) = es @ ds" and "i \<le> length es"
    and "log_room m (tm_log u)" and "restore_loop os (length es) [i..<length es] b b2 u = Running u'"
  shows "undecided (drop i es) = []"
  using assms
proof (induction "length es - i" arbitrary: i b b2)
  case (Suc k)
  then have i: "i < length es" and k: "k = length es - Suc i" by simp_all
  have "drop i es = es ! i # drop (Suc i) es" using i by (simp add: Cons_nth_drop_Suc)
  with restore_loop_step [OF Suc.prems(2) i Suc.prems(4), of os b b2] Suc.prems Suc.hyps(1) [OF k] i
  show ?case by (auto simp: tm_append_cases split: if_splits)
qed simp

lemma restoreTransactions_Running:
  assumes room: "log_room (n + length (undecided (log_entries (tm_log s)))) (tm_log s)"
    and run: "restoreTransactions os s = Running s'"
  shows "\<exists>l. s' = s\<lparr>tm_log := l\<rparr> \<and> log_room n l \<and> log_entries l = restored (tm_vclock s) (log_entries (tm_log s))"
proof -
  have "undecided (log_entries (tm_log s)) = []" if "\<not> os_msync os"
    using restore_loop_no_sync [OF that, of s "log_entries (tm_log s)" "[]" 0] run room length_log_entries [OF room]
    by (fastforce simp: restoreTransactions_def Let_def sint_count [OF room])
  with restoreTransactions_spec [OF room, of os] run show ?thesis by (auto simp: restored_def)
qed

text \<open>Where the start fails in the middle of the repair, a part of the missing aborts is there.\<close>

lemma restore_loop_halted:
  assumes "\<not> os_msync os" and "log_entries (tm_log u) = es @ ds" and "i \<le> length es"
    and "log_room (Suc n) (tm_log u)"
  shows "\<exists>l. final (restore_loop os (length es) [i..<length es] b b2 u) = u\<lparr>tm_log := l\<rparr> \<and> log_room n l \<and>
     log_entries l = es @ ds @ abort_entries (tm_vclock u) (take 1 (undecided (drop i es)))"
  using assms
proof (induction "length es - i" arbitrary: i b b2)
  case 0
  then show ?case by (intro exI [where x = "tm_log u"]) (simp add: log_room_def)
next
  case (Suc k)
  then have i: "i < length es" and k: "k = length es - Suc i" by simp_all
  have d: "drop i es = es ! i # drop (Suc i) es" using i by (simp add: Cons_nth_drop_Suc)
  have app: "log_entries (final (txlog_append os (tm_log u) e)) = (es @ ds) @ [e]"
    "log_room n (final (txlog_append os (tm_log u) e))" for e
    using tl.append_entries [OF Suc.prems(4)] tl.append_room [OF Suc.prems(4)] Suc.prems(2) by simp_all
  let ?c = "e_type (es ! i) = log_code LOG_BEGIN \<and> \<not> decided_in (drop i es) (e_transaction (es ! i))"
  obtain b' b2' where step: "restore_loop os (length es) [i..<length es] b b2 u =
     (if ?c then bnd (tm_append os (txentry_init LOG_ABORT (e_transaction (es ! i)) (tm_vclock u)) u)
             (restore_loop os (length es) [Suc i..<length es] b' b2')
      else restore_loop os (length es) [Suc i..<length es] b' b2' u)"
    using restore_loop_step [OF Suc.prems(2) i Suc.prems(4)] by blast
  show ?case
  proof (cases ?c)
    case True
    then have "undecided (drop i es) = e_transaction (es ! i) # undecided (drop (Suc i) es)" by (simp add: d)
    then show ?thesis
      unfolding step if_P [OF True] using Suc.prems(1) app by (auto simp: tm_append_cases)
  next
    case False
    then have "undecided (drop i es) = undecided (drop (Suc i) es)" by (auto simp: d)
    then show ?thesis
      unfolding step if_not_P [OF False] using Suc.hyps(1) [OF k Suc.prems(1,2) _ Suc.prems(4)] i by simp
  qed
qed

lemma restoreTransactions_final:
  assumes room: "log_room (n + Suc (length (undecided (log_entries (tm_log s))))) (tm_log s)"
  shows "\<exists>l ts. final (restoreTransactions os s) = s\<lparr>tm_log := l\<rparr> \<and> log_room n l \<and>
     set ts \<subseteq> set (undecided (log_entries (tm_log s))) \<and>
     log_entries l = log_entries (tm_log s) @ abort_entries (tm_vclock s) ts"
proof (cases "os_msync os")
  case True
  with restoreTransactions_spec [of n s os] room show ?thesis
    by (fastforce simp: log_room_def)
next
  case False
  have "log_room (Suc n) (tm_log s)" using room by (simp add: log_room_def)
  with restore_loop_halted [OF False, of s "log_entries (tm_log s)" "[]" 0 n "os_stack_entry os" "os_stack_entry os"]
  obtain l where l: "final (restoreTransactions os s) = s\<lparr>tm_log := l\<rparr>" "log_room n l"
    "log_entries l = log_entries (tm_log s) @ abort_entries (tm_vclock s) (take 1 (undecided (log_entries (tm_log s))))"
    by (auto simp: restoreTransactions_def Let_def sint_count [OF room] length_log_entries [OF room])
  moreover have "set (take 1 (undecided (log_entries (tm_log s)))) \<subseteq> set (undecided (log_entries (tm_log s)))"
    by (rule set_take_subset)
  ultimately show ?thesis by blast
qed

section \<open>The repair keeps the disciplines\<close>

lemma undecided_history:
  assumes "t \<in> set (undecided es)"
  shows "\<exists>xs ys. tx_types es t = xs @ log_code LOG_BEGIN # ys \<and>
     log_code LOG_COMMIT \<notin> set ys \<and> log_code LOG_ABORT \<notin> set ys"
  using assms
proof (induction es)
  case (Cons e es)
  show ?case
  proof (cases "t \<in> set (undecided es)")
    case True
    with Cons.IH obtain xs ys where "tx_types es t = xs @ log_code LOG_BEGIN # ys"
      "log_code LOG_COMMIT \<notin> set ys" "log_code LOG_ABORT \<notin> set ys" by blast
    then show ?thesis
      by (intro exI [where x = "(if e_transaction e = t then [e_type e] else []) @ xs"] exI [where x = ys]) simp
  next
    case False
    with Cons.prems have "e_transaction e = t" "e_type e = log_code LOG_BEGIN" "\<not> decided_in es t"
      by (auto simp: decided_in_def split: if_splits)
    then show ?thesis
      by (intro exI [where x = "[]"] exI [where x = "tx_types es t"])
        (auto simp: tx_types_def decided_in_def is_decision_def)
  qed
qed simp

lemma one_decision_undecided:
  assumes "one_decision (tx_types es t)" and "t \<in> set (undecided es)"
  shows "tx_types es t = [log_code LOG_BEGIN]"
proof -
  obtain xs ys where h: "tx_types es t = xs @ log_code LOG_BEGIN # ys"
    and ys: "log_code LOG_COMMIT \<notin> set ys" "log_code LOG_ABORT \<notin> set ys"
    using undecided_history [OF assms(2)] by blast
  with assms(1) show ?thesis by (cases xs; cases ys) (auto simp: one_decision_def)
qed

lemma begins_append: "h \<noteq> [] \<Longrightarrow> begins h \<Longrightarrow> begins (h @ g)"
  by (simp add: begins_def)

lemma hist_restored:
  assumes "set ts \<subseteq> set (undecided es)" and "tx_types es t = [] \<or> H (tx_types es t)"
    and "H = begins \<or> H = one_decision"
  shows "tx_types (es @ abort_entries vc ts) t = [] \<or> H (tx_types (es @ abort_entries vc ts) t)"
proof (cases "t \<in> set ts")
  case False
  then have "count_list ts t = 0" by simp
  then show ?thesis using assms(2) by (simp add: tx_types_abort_entries)
next
  case True
  then have "tx_types es t \<noteq> []" using undecided_history [of t es] assms(1) by force
  moreover have "one_decision ([log_code LOG_BEGIN] @ replicate k (log_code LOG_ABORT))" for k
    by (auto simp: one_decision_def)
  ultimately show ?thesis
    using assms True one_decision_undecided [of es t]
    by (auto simp: tx_types_abort_entries begins_append)
qed

lemma log_ok_restored:
  assumes "set ts \<subseteq> set (undecided (log_entries log))" and "log_entries l = log_entries log @ abort_entries vc ts"
    and "log_room n l"
  shows "agree.log_ok m log \<Longrightarrow> agree.log_ok n l" and "once.log_ok m log \<Longrightarrow> once.log_ok n l"
proof -
  have "mgr_log (abort_entries vc ts)" by (auto simp: mgr_log_def is_decision_def)
  then show "agree.log_ok m log \<Longrightarrow> agree.log_ok n l" and "once.log_ok m log \<Longrightarrow> once.log_ok n l"
    unfolding agree.log_ok_def once.log_ok_def assms(2)
    using assms(3) hist_restored [OF assms(1), of _ begins vc] hist_restored [OF assms(1), of _ one_decision vc]
    by (simp_all only: mgr_log_append) blast+
qed

section \<open>The whole start\<close>

lemma tm_main_start_core:
  assumes "tm_main_start os argv (Some log) = Inr m"
  obtains s0 where "tm_log s0 = log" "tm_out s0 = []" "tm_server s0 \<noteq> None"
    "transactions s0 = replicate MAX_TRANSACTIONS zero_transaction"
    "(\<exists>h. m = Halted h s0) \<or> viz_fd (tm_viz s0) \<noteq> None \<and> m = restoreTransactions os s0"
proof -
  from assms obtain prt srv where m: "m = tm_boot os (tm_init os prt log srv)"
    by (auto simp: tm_main_start_def txlog_open_def txlog_mapped_def Let_def split: if_splits sum.splits)
  let ?s = "tm_init os prt log srv"
  have s: "tm_log ?s = log" "tm_out ?s = []" "tm_server ?s \<noteq> None"
      "transactions ?s = replicate MAX_TRANSACTIONS zero_transaction"
    by (simp_all add: tm_init_def)
  note m = m [unfolded tm_boot_def]
  show thesis
  proof (cases "if vclock_has (tm_vclock ?s) (tmgr_port ?s) then Inr (tm_vclock ?s)
              else vclock_add (tm_vclock ?s) (tmgr_port ?s)")
    case (Inl h)
    then have "m = Halted h ?s" using m by (simp only: attempt_Inl)
    then show thesis using s by (intro that [of ?s]) blast+
  next
    case (Inr vc)
    let ?v = "tm_viz_append os ''Started manager'' (?s\<lparr>tm_vclock := vc\<rparr>)"
    have v: "viz_fd (tm_viz s') \<noteq> None" if "?v = Running s'" for s'
      using that by (auto simp: tm_viz_append_def shitviz_append_def split: if_splits option.splits)
    have "core (final ?v) = core (?s\<lparr>tm_vclock := vc\<rparr>)" by simp
    from core_eqD [OF this] s have f: "tm_log (final ?v) = log" "tm_server (final ?v) \<noteq> None"
      "transactions (final ?v) = replicate MAX_TRANSACTIONS zero_transaction" by simp_all
    have "tm_out (final ?v) = []" by (simp add: tm_viz_append_def tm_init_def)
    then show thesis
      using f v m unfolding Inr attempt_Inr by (intro that [of "final ?v"]; cases ?v) simp_all
  qed
qed

lemma tm_main_start_final:
  assumes start: "tm_main_start os argv (Some log) = Inr m"
    and room: "log_room (n + Suc (length (undecided (log_entries log)))) log"
  shows "\<exists>ts vc. set ts \<subseteq> set (undecided (log_entries log)) \<and> log_room n (tm_log (final m)) \<and>
     log_entries (tm_log (final m)) = log_entries log @ abort_entries vc ts \<and>
     transactions (final m) = replicate MAX_TRANSACTIONS zero_transaction"
proof -
  obtain s0 where s0: "tm_log s0 = log"
    "transactions s0 = replicate MAX_TRANSACTIONS zero_transaction"
    "(\<exists>h. m = Halted h s0) \<or> m = restoreTransactions os s0"
    by (rule tm_main_start_core [OF start]) blast
  have "log_room n log" using room by (simp add: log_room_def)
  with s0 restoreTransactions_final [of n s0 os] room show ?thesis
    by (auto simp del: MAX_TRANSACTIONS_def) (metis empty_subsetI empty_set append_Nil2 list.simps(8))
qed

lemma empty_table_ok:
  "agree.table_ok n es (replicate MAX_TRANSACTIONS zero_transaction)"
  "once.table_ok n es (replicate MAX_TRANSACTIONS zero_transaction)"
  by (simp_all add: agree.table_ok_def agree.slot_ok_def once.table_ok_def once.slot_ok_def zero_transaction_def)

lemma start_inv:
  assumes "tm_main_start os argv (Some log) = Inr m"
    and "log_room (n + Suc (length (undecided (log_entries log)))) log"
  shows "agree.log_ok k log \<Longrightarrow> agree.inv n (final m)" and "once.log_ok k log \<Longrightarrow> once.inv n (final m)"
  using tm_main_start_final [OF assms] empty_table_ok log_ok_restored
  unfolding agree.inv_def once.inv_def by (metis (no_types))+

text \<open>
  A manager that gets into its loop has an empty table and the old log with exactly the
  missing aborts behind it.
\<close>

lemma tm_main_start_spec:
  assumes start: "tm_main_start os argv (Some log) = Inr (Running s)"
    and room: "log_room (n + length (undecided (log_entries log))) log"
  shows "log_room n (tm_log s)" and "log_entries (tm_log s) = restored (tm_vclock s) (log_entries log)"
    and "tm_server s \<noteq> None" and "viz_fd (tm_viz s) \<noteq> None" and "tm_out s = []"
    and "transactions s = replicate MAX_TRANSACTIONS zero_transaction"
proof -
  obtain s0 where s0: "restoreTransactions os s0 = Running s" "tm_log s0 = log"
    "tm_server s0 \<noteq> None" "viz_fd (tm_viz s0) \<noteq> None" "tm_out s0 = []"
    "transactions s0 = replicate MAX_TRANSACTIONS zero_transaction"
    by (rule tm_main_start_core [OF start]) auto
  with restoreTransactions_Running [of n s0 os s] room obtain l where
    l: "s = s0\<lparr>tm_log := l\<rparr>" "log_room n l" "log_entries l = restored (tm_vclock s0) (log_entries log)"
    by auto
  then show "log_room n (tm_log s)" "log_entries (tm_log s) = restored (tm_vclock s) (log_entries log)" "tm_server s \<noteq> None"
    "viz_fd (tm_viz s) \<noteq> None" "tm_out s = []" "transactions s = replicate MAX_TRANSACTIONS zero_transaction"
    using s0 by simp_all
qed

section \<open>The log only grows\<close>

text \<open>By one entry at most in an iteration of the message loop, and for a transaction of \<open>T\<close>.\<close>

definition grows :: "u32 set \<Rightarrow> txlog_t \<Rightarrow> txmanager_t outcome \<Rightarrow> bool" where
  "grows T l m \<longleftrightarrow> (\<exists>fs. length fs \<le> 1 \<and> e_transaction ` set fs \<subseteq> T \<and> log_entries (tm_log (final m)) = log_entries l @ fs)"

lemma grows_core: "core (final m) = core s \<Longrightarrow> tm_log s = l \<Longrightarrow> grows T l m"
  by (auto dest: core_eqD(1) simp: grows_def)

lemma grows_append: "tm_log s = l \<Longrightarrow> log_room (Suc n) l \<Longrightarrow> e_transaction e \<in> T \<Longrightarrow> grows T l (tm_append os e s)"
  by (simp add: grows_def tm_append_def tl.append_entries)

lemma grows_after:
  assumes "grows T l m" and "\<And>s. core (final (f s)) = core s"
  shows "grows T l (bnd m f)"
  using assms(1) core_eqD(1) [OF assms(2)] by (cases m) (auto simp: grows_def)

lemma grows_viz_append:
  assumes "tm_log s = l" and "log_room (Suc n) l" and "\<And>u. core u = core s \<Longrightarrow> e_transaction (g u) \<in> T"
  shows "grows T l (bnd (tm_viz_append os x s) (\<lambda>s. tm_append os (g s) s))"
proof -
  have "tm_log (final (tm_viz_append os x s)) = l" using assms(1) core_eqD(1) [OF core_viz] by simp
  moreover have "core (final (tm_viz_append os x s)) = core s" by (rule core_viz)
  ultimately show ?thesis using grows_append [OF _ assms(2)] assms(3)
    by (cases "tm_viz_append os x s") (auto simp: grows_def)
qed

lemma grows_decision:
  assumes "tm_log s = l" and "log_room (Suc n) l" and "\<And>u. core u = core s \<Longrightarrow> e_transaction (g u) \<in> T"
    and "\<And>s. core (final (k s)) = core s"
  shows "grows T l (bnd (tm_viz_append os x s) (\<lambda>s. bnd (tm_append os (g s) s) k))"
  using grows_after [OF grows_viz_append [OF assms(1-3)] assms(4)] by (simp add: bnd_assoc)

lemma handle_grows:
  assumes room: "log_room (Suc n) (tm_log s)" and T: "m_type msg \<in> logs \<Longrightarrow> m_tid msg \<in> T"
  shows "grows T (tm_log s) (tm_handle os msg a s)"
proof -
  have crash: "core (final (if c u then Halted h u else sendToAllWorkers os i (g u) u)) = core u" for c h g i u
    by simp
  have opened: "grows T (tm_log s) (tm_begin os msg a s)" if t: "m_tid msg \<in> T"
  proof (cases "addTransaction os (m_tid msg) a s")
    case (Pair r m)
    show ?thesis
    proof (cases r)
      case None
      then show ?thesis
        using core_add_fails [of os "m_tid msg" a s] Pair core_error_viz
        by (auto simp: tm_begin_def intro!: grows_core [of _ s])
    next
      case (Some i)
      then show ?thesis
        using addTransaction_SomeD(2) [of os "m_tid msg" a s i] Pair t
        by (auto simp: tm_begin_def intro!: grows_core [of _ s] core_error_viz grows_viz_append [OF _ room])
    qed
  qed
  have abort: "grows T (tm_log s) (tm_abort os msg a s)" if t: "m_tid msg \<in> T"
  proof (cases "findTransaction (m_tid msg) s")
    case None
    then show ?thesis by (auto simp: tm_abort_def intro!: grows_core [of _ s])
  next
    case (Some i)
    have "grows T (tm_log s) (bnd (tm_viz_append os ''ABORT'' (upd_tx i (\<lambda>tx. tx\<lparr>t_state := ABORT_STATE\<rparr>) s)) (\<lambda>s.
          bnd (tm_append os (txentry_init LOG_ABORT (m_tid msg) (tm_vclock s)) s) (\<lambda>s.
          if abort_crash s then Halted (Exit 1) s
          else sendToAllWorkers os i ((message_init (Some (tm_vclock s)))\<lparr>m_type := cmd_code ABORT\<rparr>) s)))"
      using t by (intro grows_decision [OF _ room] crash) simp_all
    then show ?thesis using Some by (simp add: tm_abort_def)
  qed
  have vote: "grows T (tm_log s) (tm_prepared os msg a s)" if t: "m_tid msg \<in> T"
  proof (cases "findTransaction (m_tid msg) s")
    case None
    then show ?thesis by (auto simp: tm_prepared_def intro!: grows_core [of _ s] core_bnd)
  next
    case (Some i)
    let ?s = "upd_tx i (\<lambda>tx. tx\<lparr>nodeCount := nodeCount tx - 1\<rparr>) s"
    let ?u = "upd_tx i (\<lambda>tx. tx\<lparr>t_state := COMMIT_STATE\<rparr>) ?s"
    have "t_tid (transactions u ! i) = m_tid msg" if "core u = core ?u" for u
      using core_eqD(2) [OF that] findTransaction_SomeD [OF Some] by simp
    then have "grows T (tm_log s) (tm_decide os i ?s)"
      unfolding tm_decide_def using t by (intro grows_decision [OF _ room] crash) simp_all
    then show ?thesis
      using Some by (auto simp: tm_prepared_def Let_def intro!: grows_core [of _ s] core_error_viz grows_core [OF core_viz])
  qed
  have rest: "grows T (tm_log s) (tm_commit os msg a s)" "grows T (tm_log s) (tm_join os msg a s)"
    by (auto simp: tm_commit_def tm_join_def joinTransaction_def Let_def intro!: grows_core [of _ s] core_error_viz
        grows_core [OF core_viz_send] grows_core [OF core_viz] grows_core [OF core_error_viz] split: option.split)
  show ?thesis
    using T
    by (auto simp: tm_handle_def cmd_of_eq_Some logs_def intro!: opened abort vote rest grows_core [OF core_viz] grows_core [OF core_ask]
        split: option.split cmdType.split)
qed

lemma grows_attempt: "tm_log s = l \<Longrightarrow> (\<And>x. grows T l (k x)) \<Longrightarrow> grows T l (attempt r s k)"
  by (cases r) (simp_all add: grows_def)

text \<open>The transactions an event may log something about.\<close>

definition may_log :: "u32 set \<Rightarrow> os_t \<times> recv_event \<Rightarrow> bool" where
  "may_log T e \<longleftrightarrow> (case snd e of
       RDatagram len buf a \<Rightarrow> m_type (message_from_nbo buf) \<in> logs \<longrightarrow> m_tid (message_from_nbo buf) \<in> T
     | _ \<Rightarrow> True)"

lemma may_log_UNIV [simp]: "may_log UNIV e"
  by (simp add: may_log_def split: recv_event.split)

lemma may_log_disciplined: "disciplined e s \<Longrightarrow> may_log (- {0}) e"
  by (auto simp: may_log_def disciplined_def Let_def split: recv_event.splits)

lemma step_grows:
  assumes "log_room (Suc n) (tm_log s)" and "may_log T e"
  shows "grows T (tm_log s) (tm_step e s)"
proof -
  have "grows T (tm_log s) (tm_handle os msg a (s\<lparr>tm_vclock := vc\<rparr>))" if "m_type msg \<in> logs \<Longrightarrow> m_tid msg \<in> T" for os msg a vc
    using handle_grows [of n "s\<lparr>tm_vclock := vc\<rparr>" msg T] assms that by simp
  then have "grows T (tm_log s) (tm_receive os msg a s)" if "m_type msg \<in> logs \<Longrightarrow> m_tid msg \<in> T" for os msg a
    unfolding tm_receive_def Let_def using that by (intro grows_attempt) simp_all
  moreover have "grows T (tm_log s) (Running s)" "grows T (tm_log s) (Halted h s)" for h by (simp_all add: grows_def)
  ultimately show ?thesis
    using assms(2) unfolding tm_step_def may_log_def
    by (cases e; cases "snd e") (auto simp: server_recv_def server_recv_timeout_def intro!: grows_attempt split: option.split)
qed

text \<open>Under the discipline nothing is logged about id 0.\<close>

lemma step_real_ids:
  assumes "disciplined e s" and "log_room (Suc n) (tm_log s)" and "real_ids (log_entries (tm_log s))"
  shows "real_ids (log_entries (tm_log (final (tm_step e s))))"
proof -
  have "grows (- {0}) (tm_log s) (tm_step e s)" by (rule step_grows [OF assms(2) may_log_disciplined [OF assms(1)]])
  then show ?thesis using assms(3) by (auto simp: grows_def real_ids_def)
qed

text \<open>The invariant of a disciplined run, and what such a run leaves.\<close>

definition mgr_sane :: "nat \<Rightarrow> txmanager_t \<Rightarrow> bool" where
  "mgr_sane n s \<longleftrightarrow> once.inv n s \<and> real_ids (log_entries (tm_log s))"

definition log_sane :: "txlog_t \<Rightarrow> bool" where
  "log_sane log \<longleftrightarrow> once.log_ok 0 log \<and> real_ids (log_entries log)"

lemma mgr_sane_log: "mgr_sane n s \<Longrightarrow> log_sane (tm_log s)"
  using once.inv_durable [of n s] by (simp add: mgr_sane_def log_sane_def once.durable_def)

interpretation sane: guarded_machine tm_step disciplined mgr_sane "\<lambda>s. log_sane (tm_log s)"
proof
  fix e s n
  assume acc: "disciplined e s" and inv: "mgr_sane (Suc n) s"
  then have "ensures (once.inv n) once.durable (tm_step e s)"
    using once.machine.step_inv [OF once_acc [OF acc]] by (simp add: mgr_sane_def)
  moreover have "real_ids (log_entries (tm_log (final (tm_step e s))))"
    using step_real_ids [OF acc] inv once.inv_room by (auto simp: mgr_sane_def)
  ultimately show "ensures (mgr_sane n) (\<lambda>s. log_sane (tm_log s)) (tm_step e s)"
    by (cases "tm_step e s") (simp_all add: mgr_sane_def log_sane_def once.durable_def)
qed

lemma start_sane:
  assumes "tm_main_start os argv (Some log) = Inr m"
    and "log_room (n + Suc (length (undecided (log_entries log)))) log" and "log_sane log"
  shows "mgr_sane n (final m)"
proof -
  obtain ts vc where "set ts \<subseteq> set (undecided (log_entries log))"
    "log_entries (tm_log (final m)) = log_entries log @ abort_entries vc ts"
    using tm_main_start_final [OF assms(1,2)] by blast
  moreover have "t \<noteq> 0" if "t \<in> set (undecided (log_entries log))" for t
    using undecided_is_begun [OF that] assms(3) by (auto simp: log_sane_def real_ids_def)
  ultimately have "real_ids (log_entries (tm_log (final m)))" using assms(3) by (auto simp: log_sane_def real_ids_def)
  then show ?thesis using start_inv(2) [OF assms(1,2), of 0] assms(3) by (simp add: mgr_sane_def log_sane_def)
qed

section \<open>The life of a log\<close>

text \<open>
  The log of a manager over any number of its lives: a fresh log; a start, which may fail
  half way through its repair; a run that ends in any way, or is cut off after any number of
  iterations. Every life fits into the counters, and its messages are disciplined.
\<close>

inductive mgr_log_life :: "txlog_t \<Rightarrow> bool" where
  fresh: "txlog_open os None = Inr log \<Longrightarrow> mgr_log_life log"
| life: "mgr_log_life log \<Longrightarrow> tm_main_start os argv (Some log) = Inr m \<Longrightarrow>
     log_room (length es + Suc (length (undecided (log_entries log)))) log \<Longrightarrow>
     (\<And>s. m = Running s \<Longrightarrow> admissible disciplined tm_step es s) \<Longrightarrow>
     mgr_log_life (tm_log (final (bnd m (run_machine tm_step es))))"

lemma mgr_log_life_sane: "mgr_log_life log \<Longrightarrow> log_sane log"
proof (induction rule: mgr_log_life.induct)
  case (fresh os log)
  then show ?case
    by (auto simp: txlog_open_def log_sane_def once.log_ok_def log_room_def log_entries_def log_count_def zero_head_def
        split: if_splits)
next
  case (life log os argv m es)
  have inv: "mgr_sane (length es) (final m)" using start_sane [OF life.hyps(2,3) life.IH] .
  show ?case
  proof (cases m)
    case (Running s)
    with inv life.hyps(4) have "ensures (mgr_sane 0) (\<lambda>s. log_sane (tm_log s)) (run_machine tm_step es s)"
      using sane.run_inv [of 0 es s] by simp
    then show ?thesis
      using Running mgr_sane_log by (cases "run_machine tm_step es s") auto
  qed (use inv mgr_sane_log in auto)
qed

end
