(* ===== verification/MgrTalk.thy ===== *)
theory MgrTalk
  imports TManagerStart
begin

text \<open>
  What the manager's datagrams may be trusted for. Every socket a worker opens for a transaction
  belongs to that transaction; \<open>own\<close> says which, for every address. If the requests that reach
  the manager name the transaction of the socket they came from, then each slot of its table
  holds only sockets of its own transaction, and a \<^verbatim>\<open>COMMIT\<close> goes out only to sockets of
  transactions whose commit is in the log. The set \<open>K\<close> of transactions whose commit is known
  only grows.
\<close>

section \<open>Requests\<close>

text \<open>The messages by which the manager looks a transaction up.\<close>

definition request :: "message_t \<Rightarrow> bool" where
  "request msg \<longleftrightarrow> cmd_of (m_type msg) \<in> Some ` {BEGINTX, JOINTX, COMMIT, ABORT, ASK, PREPARED}"

definition from_owner :: "(sockaddr_in \<Rightarrow> u32) \<Rightarrow> sockaddr_in \<Rightarrow> message_t \<Rightarrow> bool" where
  "from_owner own a msg \<longleftrightarrow> (request msg \<longrightarrow> m_tid msg = own a)"

section \<open>Honest managers\<close>

definition has_commit :: "txlog_entry_t list \<Rightarrow> u32 \<Rightarrow> bool" where
  "has_commit es t \<longleftrightarrow> log_code LOG_COMMIT \<in> set (tx_types es t)"

definition tx_owned :: "(sockaddr_in \<Rightarrow> u32) \<Rightarrow> transaction_t \<Rightarrow> bool" where
  "tx_owned own tx \<longleftrightarrow> (\<forall>w \<in> set (t_nodes tx). nid w \<noteq> 0 \<longrightarrow> own (w_address w) = t_tid tx)"

definition commits_true :: "(sockaddr_in \<Rightarrow> u32) \<Rightarrow> txlog_entry_t list \<Rightarrow> datagram list \<Rightarrow> bool" where
  "commits_true own es ds \<longleftrightarrow> (\<forall>d \<in> set ds. told COMMIT (dg_msg d) \<longrightarrow> has_commit es (own (dg_dest d)))"

definition mgr_honest :: "(sockaddr_in \<Rightarrow> u32) \<Rightarrow> u32 set \<Rightarrow> txmanager_t \<Rightarrow> bool" where
  "mgr_honest own K s \<longleftrightarrow> (\<forall>tx \<in> set (transactions s). tx_owned own tx) \<and>
     commits_true own (log_entries (tm_log s)) (tm_out s) \<and> (\<forall>t \<in> K. has_commit (log_entries (tm_log s)) t)"

lemma has_commit_append [simp]: "has_commit (es @ fs) t \<longleftrightarrow> has_commit es t \<or> has_commit fs t"
  by (auto simp: has_commit_def)

lemma commits_true_more: "commits_true own es ds \<Longrightarrow> commits_true own (es @ fs) ds"
  by (auto simp: commits_true_def)

lemma commits_true_snoc [simp]:
  "commits_true own es (ds @ [d]) \<longleftrightarrow> commits_true own es ds \<and>
     (told COMMIT (dg_msg d) \<longrightarrow> has_commit es (own (dg_dest d)))"
  by (auto simp: commits_true_def)

lemma honest_upd:
  assumes "mgr_honest own K s" and "i < length (transactions s) \<Longrightarrow> tx_owned own (f (transactions s ! i))"
  shows "mgr_honest own K (upd_tx i f s)"
proof (cases "i < length (transactions s)")
  case True
  then show ?thesis
    using assms set_update_subset_insert [of "transactions s" i "f (transactions s ! i)"]
    by (auto simp: mgr_honest_def)
next
  case False
  then show ?thesis using assms(1) by (simp add: mgr_honest_def list_update_beyond)
qed

lemma honest_slot: "mgr_honest own K s \<Longrightarrow> i < length (transactions s) \<Longrightarrow> tx_owned own (transactions s ! i)"
  by (simp add: mgr_honest_def)

section \<open>Effects\<close>

text \<open>
  The handlers are followed with the pair of facts that a state is honest and has the core it
  had, which is what the next effect needs to know.
\<close>

definition honest_like :: "(sockaddr_in \<Rightarrow> u32) \<Rightarrow> u32 set \<Rightarrow> txmanager_t \<Rightarrow> txmanager_t \<Rightarrow> bool" where
  "honest_like own K s s' \<longleftrightarrow> mgr_honest own K s' \<and> core s' = core s"

lemma honest_like_refl [simp]: "honest_like own K s s = mgr_honest own K s"
  by (simp add: honest_like_def)

lemma honest_likeD: "honest_like own K s s' \<Longrightarrow> mgr_honest own K s'" "honest_like own K s s' \<Longrightarrow> core s' = core s"
  by (simp_all add: honest_like_def)

lemma viz_honest [simp]: "honest_like own K s u \<Longrightarrow> honest_like own K s (final (tm_viz_append os m u))"
  by (simp add: honest_like_def tm_viz_append_def mgr_honest_def) (simp add: core_def)

lemma send_honest:
  assumes "honest_like own K s u" and "m_type msg = cmd_code COMMIT \<Longrightarrow> has_commit (log_entries (tm_log s)) (own dest)"
  shows "honest_like own K s (final (tm_send os dest msg u))"
  unfolding tm_send_def
proof (rule final_attemptI)
  fix d assume "server_send os (tm_server u) dest msg = Inr d"
  from server_send_Inr [OF this] show "honest_like own K s (final (Running (u\<lparr>tm_out := tm_out u @ [d]\<rparr>)))"
    using assms core_eqD(1) [of u s] by (simp add: honest_like_def mgr_honest_def nbo.dec_enc) (simp add: core_def)
qed (rule assms(1))

lemma like_bnd:
  assumes "honest_like own K s (final m)" and "\<And>u. honest_like own K s u \<Longrightarrow> honest_like own K s (final (f u))"
  shows "honest_like own K s (final (bnd m f))"
  using assms by (rule final_bndI [where P = "honest_like own K s"])

lemma viz_after: "honest_like own K s (final m) \<Longrightarrow> honest_like own K s (final (bnd m (tm_viz_append os x)))"
  by (rule like_bnd) simp_all

lemma error_honest [simp]: "honest_like own K s u \<Longrightarrow> honest_like own K s (final (tm_error os a t u))"
  unfolding tm_error_def Let_def by (rule final_attemptI) (simp, rule send_honest, simp_all)

lemma send_workers_honest:
  assumes "honest_like own K s u"
    and "\<And>w. w \<in> set ws \<Longrightarrow> nid w \<noteq> 0 \<Longrightarrow> m_type msg = cmd_code COMMIT \<Longrightarrow>
      has_commit (log_entries (tm_log s)) (own (w_address w))"
  shows "honest_like own K s (final (send_workers os ws msg u))"
  using assms
proof (induction ws arbitrary: u)
  case (Cons w ws)
  show ?case
    unfolding send_workers.simps
    by (rule like_bnd) (use Cons send_honest [OF Cons.prems(1)] in \<open>auto split: if_splits\<close>)
qed simp

lemma send_all_honest:
  assumes "mgr_honest own K s" and "i < length (transactions s)"
    and "m_type msg = cmd_code COMMIT \<Longrightarrow> has_commit (log_entries (tm_log s)) (t_tid (transactions s ! i))"
  shows "mgr_honest own K (final (sendToAllWorkers os i msg s))"
  using honest_slot [OF assms(1,2)] assms(1,3) send_workers_honest [of own K s s "t_nodes (transactions s ! i)" msg os]
  by (auto simp: sendToAllWorkers_def tx_owned_def dest: honest_likeD)

lemma append_honest:
  assumes "mgr_honest own K s" and "log_room (Suc n) (tm_log s)"
  shows "mgr_honest own K (final (tm_append os e s))"
  using assms tl.append_entries [OF assms(2), of os e]
  by (simp add: tm_append_def mgr_honest_def commits_true_more)

section \<open>The handlers\<close>

lemma last_commit:
  assumes "txlog_last_tx os log t = Some e" and "log_room n log" and "e_type e = log_code LOG_COMMIT"
  shows "has_commit (log_entries log) (e_transaction e)"
  using tl.last_tx_SomeD [OF assms(2,1)] assms(3)
  by (force simp: has_commit_def tx_types_def)

lemma from_log_honest:
  assumes "mgr_honest own K s" and "log_room n (tm_log s)" and "t = own a"
  shows "honest_like own K s (final (checkTransactionLog os t a s))"
    and "m_tid msg = t \<Longrightarrow> honest_like own K s (final (tm_ask os msg a s))"
proof -
  have reply: "honest_like own K s (final (bnd (tm_send os a m s) (tm_viz_append os x)))"
    if "m_type m = cmd_code COMMIT \<Longrightarrow> has_commit (log_entries (tm_log s)) t" for m x
    using assms(1,3) that by (intro viz_after send_honest) simp_all
  have commit: "has_commit (log_entries (tm_log s)) t" if "txlog_last_tx os (tm_log s) t = Some e" "e_type e = log_code LOG_COMMIT" for e
    using last_commit [OF that(1) assms(2) that(2)] tl.last_tx_SomeD(2) [OF assms(2) that(1)] by simp
  show "honest_like own K s (final (checkTransactionLog os t a s))"
    "m_tid msg = t \<Longrightarrow> honest_like own K s (final (tm_ask os msg a s))"
    unfolding checkTransactionLog_def tm_ask_def Let_def
    using assms(1) commit by (auto simp: log_of_eq_Some intro!: reply split: option.splits logEntryType.splits)
qed

lemma begin_honest:
  assumes "mgr_honest own K s" and "log_room (Suc n) (tm_log s)" and "m_tid msg = own a"
  shows "mgr_honest own K (final (tm_begin os msg a s))"
proof (cases "addTransaction os (m_tid msg) a s")
  case (Pair r m)
  have talk: "honest_like own K s (final (bnd (tm_error os a x s) (tm_viz_append os y)))" for x y
    using assms(1) by (intro viz_after) simp
  show ?thesis
  proof (cases r)
    case None
    then have "honest_like own K s (final m)"
      using Pair talk by (auto simp: addTransaction_def split: option.splits if_splits)
    then have "honest_like own K s (final (bnd m (tm_viz_append os ''BEGINTX Failed'')))"
      by (rule viz_after)
    then show ?thesis using None Pair talk by (auto simp: tm_begin_def dest: honest_likeD)
  next
    case (Some i)
    have m: "m = Running (upd_tx i (\<lambda>_. new_transaction (m_tid msg) a) s)"
      using addTransaction_SomeD(2) [of os "m_tid msg" a s i] Some Pair by simp
    let ?u = "upd_tx i (\<lambda>_. new_transaction (m_tid msg) a) s"
    have "tx_owned own (new_transaction (m_tid msg) a)"
      using assms(3) set_update_subset_insert
      by (force simp: tx_owned_def new_transaction_def zero_transaction_def zero_worker_def)
    then have u: "honest_like own K ?u ?u" using assms(1) by (simp add: honest_upd)
    have "mgr_honest own K (final (tm_append os e v))" if "honest_like own K ?u v" for e v
      using append_honest [OF honest_likeD(1) [OF that]] core_eqD(1) [OF honest_likeD(2) [OF that]] assms(2) by simp
    then have "mgr_honest own K (final (bnd (tm_viz_append os ''BEGINTX'' ?u)
        (\<lambda>s. tm_append os (txentry_init LOG_BEGIN (m_tid msg) (tm_vclock s)) s)))"
      using viz_honest [OF u, of os "''BEGINTX''"] by (cases "tm_viz_append os ''BEGINTX'' ?u") (auto dest: honest_likeD)
    then show ?thesis using Some Pair m talk by (auto simp: tm_begin_def dest: honest_likeD)
  qed
qed

text \<open>The two decisions: a new state for slot \<open>i\<close>, an event, an entry, and then the workers are told.\<close>

lemma decision_honest:
  assumes "mgr_honest own K s" and "log_room (Suc n) (tm_log s)" and i: "i < length (transactions s)"
    and f: "tx_owned own (f (transactions s ! i))"
    and g: "\<And>u. core u = core (upd_tx i f s) \<Longrightarrow> g u = e"
    and c: "\<And>u. m_type (msg u) = cmd_code COMMIT \<Longrightarrow> has_commit [e] (t_tid (f (transactions s ! i)))"
  shows "mgr_honest own K (final (bnd (tm_viz_append os m (upd_tx i f s)) (\<lambda>s. bnd (tm_append os (g s) s)
     (\<lambda>s. if crash s then Halted h s else sendToAllWorkers os i (msg s) s))))"
proof -
  let ?u = "upd_tx i f s" and ?k = "\<lambda>s. if crash s then Halted h s else sendToAllWorkers os i (msg s) s"
  have u: "honest_like own K ?u ?u" using assms(1) f by (simp add: honest_upd)
  have tell: "mgr_honest own K (final (?k v))"
    if "mgr_honest own K v" "transactions v = transactions ?u" "log_entries (tm_log v) = log_entries (tm_log s) @ [e]" for v
    using that i c send_all_honest [of own K v i "msg v" os] by simp
  have "mgr_honest own K (final (bnd (tm_append os (g v) v) ?k))" if "honest_like own K ?u v" for v
  proof -
    have v: "tm_log v = tm_log s" "transactions v = transactions ?u" "g v = e"
      using core_eqD(1,2) [OF honest_likeD(2) [OF that]] g [OF honest_likeD(2) [OF that]] by simp_all
    have "mgr_honest own K (final (tm_append os e v))" "transactions (final (tm_append os e v)) = transactions ?u"
      "log_entries (tm_log (final (tm_append os e v))) = log_entries (tm_log s) @ [e]"
      using append_honest [OF honest_likeD(1) [OF that]] assms(2) v by (simp_all add: tm_append_def tl.append_entries)
    then show ?thesis using tell unfolding v(3) by (cases "tm_append os e v") simp_all
  qed
  then show ?thesis
    using viz_honest [OF u, of os m] by (cases "tm_viz_append os m ?u") (auto dest: honest_likeD)
qed

lemma tx_owned_fields [simp]:
  "tx_owned own (tx\<lparr>t_state := x\<rparr>) = tx_owned own tx" "tx_owned own (tx\<lparr>nodeCount := c\<rparr>) = tx_owned own tx"
  by (simp_all add: tx_owned_def)

lemma abort_honest:
  assumes "mgr_honest own K s" and "log_room (Suc n) (tm_log s)" and "m_tid msg = own a"
  shows "mgr_honest own K (final (tm_abort os msg a s))"
proof (cases "findTransaction (m_tid msg) s")
  case None
  then show ?thesis using from_log_honest(1) [OF assms] by (auto simp: tm_abort_def dest: honest_likeD)
next
  case (Some i)
  then have i: "i < length (transactions s)" using findTransaction_SomeD by blast
  show ?thesis
    unfolding tm_abort_def Some option.case
    by (rule decision_honest [OF assms(1,2) i, where e = "txentry_init LOG_ABORT (m_tid msg) (tm_vclock s)"])
      (use honest_slot [OF assms(1) i] in \<open>auto dest: core_eqD(3)\<close>)
qed

lemma prepared_honest:
  assumes "mgr_honest own K s" and "log_room (Suc n) (tm_log s)" and "m_tid msg = own a"
  shows "mgr_honest own K (final (tm_prepared os msg a s))"
proof (cases "findTransaction (m_tid msg) s")
  case None
  have "honest_like own K s (final (bnd (checkTransactionLog os (m_tid msg) a s) (\<lambda>s. Halted SegFault s)))"
    by (rule like_bnd [OF from_log_honest(1) [OF assms]]) simp
  then show ?thesis using None by (auto simp: tm_prepared_def dest: honest_likeD)
next
  case (Some i)
  then have i: "i < length (transactions s)" using findTransaction_SomeD by blast
  let ?s = "upd_tx i (\<lambda>tx. tx\<lparr>nodeCount := nodeCount tx - 1\<rparr>) s"
  have s: "mgr_honest own K ?s" using assms(1) honest_slot [OF assms(1) i] by (simp add: honest_upd)
  have "mgr_honest own K (final (tm_decide os i ?s))"
    unfolding tm_decide_def
  proof (rule decision_honest [OF s, where e = "txentry_init LOG_COMMIT (t_tid (transactions s ! i)) (tm_vclock s)" and n = n])
    fix u assume "core u = core (upd_tx i (\<lambda>tx. tx\<lparr>t_state := COMMIT_STATE\<rparr>) ?s)"
    from core_eqD(2,3) [OF this] i
    show "txentry_init LOG_COMMIT (t_tid (transactions u ! i)) (tm_vclock u) =
        txentry_init LOG_COMMIT (t_tid (transactions s ! i)) (tm_vclock s)" by simp
  qed (use assms(2) i honest_slot [OF assms(1) i] in \<open>simp_all add: has_commit_def\<close>)
  moreover have "honest_like own K s (final (bnd (tm_error os a x s) (tm_viz_append os y)))" for x y
    using assms(1) by (intro viz_after) simp
  moreover have "honest_like own K ?s (final (tm_viz_append os y ?s))" for y using s by (intro viz_honest) simp
  ultimately show ?thesis using Some by (auto simp: tm_prepared_def Let_def dest: honest_likeD)
qed

lemma commit_honest:
  assumes "mgr_honest own K s" and "log_room n (tm_log s)" and "m_tid msg = own a"
  shows "mgr_honest own K (final (tm_commit os msg a s))"
proof (cases "findTransaction (m_tid msg) s")
  case None
  then show ?thesis using from_log_honest(1) [OF assms] by (auto simp: tm_commit_def dest: honest_likeD)
next
  case (Some i)
  then have i: "i < length (transactions s)" using findTransaction_SomeD by blast
  let ?s = "upd_tx i (\<lambda>tx. tx\<lparr>t_state := PREPARE_STATE\<rparr>) s"
  have s: "honest_like own K ?s ?s" using assms(1) honest_slot [OF assms(1) i] by (simp add: honest_upd)
  have "honest_like own K ?s (final (sendToAllWorkers os i (m\<lparr>m_type := cmd_code PREPARE_TO_COMMIT\<rparr>) u))" if "honest_like own K ?s u" for u m
    unfolding sendToAllWorkers_def by (rule send_workers_honest [OF that]) simp
  then have "honest_like own K ?s (final (bnd (tm_viz_append os x ?s) (sendToAllWorkers os i (m\<lparr>m_type := cmd_code PREPARE_TO_COMMIT\<rparr>))))" for x m
    by (rule like_bnd [OF viz_honest [OF s]])
  moreover have "honest_like own K s (final (tm_viz_append os y s))" for y using assms(1) by (intro viz_honest) simp
  ultimately show ?thesis using Some unfolding tm_commit_def Let_def by (auto dest: honest_likeD simp del: cmd_code.simps)
qed

lemma join_honest:
  assumes "mgr_honest own K s" and "log_room n (tm_log s)" and "m_tid msg = own a"
  shows "mgr_honest own K (final (tm_join os msg a s))"
proof (cases "findTransaction (m_tid msg) s")
  case None
  then show ?thesis using from_log_honest(1) [OF assms] by (auto simp: tm_join_def dest: honest_likeD)
next
  case (Some i)
  then have i: "i < length (transactions s)" "t_tid (transactions s ! i) = own a"
    using findTransaction_SomeD assms(3) by auto
  have owned: "tx_owned own (tx\<lparr>t_nodes := (t_nodes tx)[k := \<lparr>nid = port_of a, w_address = a\<rparr>], nodeCount := c\<rparr>)"
    if "tx_owned own tx" "t_tid tx = own a" for tx k c
    using that set_update_subset_insert [of "t_nodes tx" k] by (fastforce simp: tx_owned_def)
  have "mgr_honest own K (snd (joinTransaction i a s))"
    using assms(1) honest_slot [OF assms(1) i(1)] i(2) owned
    by (auto simp: joinTransaction_def intro!: honest_upd split: option.splits)
  then have "honest_like own K (snd (joinTransaction i a s)) (final (tm_viz_append os y (snd (joinTransaction i a s))))" for y
    by (intro viz_honest) simp
  moreover have "honest_like own K s (final (bnd (tm_error os a x s) (tm_viz_append os y)))" for x y
    using assms(1) by (intro viz_after) simp
  ultimately show ?thesis
    unfolding tm_join_def Some option.case
    by (cases "joinTransaction i a s") (auto simp: joinTransaction_def dest: honest_likeD split: bool.splits option.splits)
qed

section \<open>Every step, every start\<close>

lemma handle_honest:
  assumes "mgr_honest own K s" and "log_room (Suc n) (tm_log s)" and "from_owner own a msg"
  shows "mgr_honest own K (final (tm_handle os msg a s))"
proof -
  have viz: "mgr_honest own K (final (tm_viz_append os x u))" if "mgr_honest own K u" for x u
    by (rule honest_likeD(1) [OF viz_honest [of own K u]]) (simp add: that)
  have fl: "mgr_honest own K (s\<lparr>abort_crash := b\<rparr>)" "mgr_honest own K (s\<lparr>commit_crash := b\<rparr>)" for b
    using assms(1) by (simp_all add: mgr_honest_def)
  have ask: "mgr_honest own K (final (tm_ask os msg a s))" if "m_tid msg = own a"
    using from_log_honest(2) [OF assms(1,2) refl that] by (rule honest_likeD)
  show ?thesis
    using assms(3) ask viz [OF assms(1)] viz [OF fl(1)] viz [OF fl(2)] begin_honest [OF assms(1,2), of msg a os]
      abort_honest [OF assms(1,2), of msg a os] prepared_honest [OF assms(1,2), of msg a os]
      commit_honest [OF assms(1,2), of msg a os] join_honest [OF assms(1,2), of msg a os]
    unfolding tm_handle_def from_owner_def request_def
    by (auto split: option.split cmdType.split)
qed

lemma step_honest:
  assumes "mgr_honest own K s" and "log_room (Suc n) (tm_log s)"
    and "\<And>len buf a. ev = RDatagram len buf a \<Longrightarrow> from_owner own a (message_from_nbo buf)"
  shows "mgr_honest own K (final (tm_step (os, ev) s))"
  unfolding tm_step_def prod.case
proof (rule final_attemptI)
  fix r assume r: "server_recv (tm_server s) ev zero_msg no_addr = Inr r"
  obtain len msg a where rr: "r = (len, msg, a)" by (cases r)
  have "mgr_honest own K (final (tm_receive os msg a s))" if "0 < len"
  proof -
    have "from_owner own a msg" using server_recv_cases [OF r [unfolded rr]] that assms(3) by auto
    moreover have vc: "mgr_honest own K (s\<lparr>tm_vclock := vc\<rparr>)" for vc using assms(1) by (simp add: mgr_honest_def)
    moreover have "log_room (Suc n) (tm_log (s\<lparr>tm_vclock := vc\<rparr>))" for vc using assms(2) by simp
    ultimately have h: "mgr_honest own K (final (tm_handle os msg a (s\<lparr>tm_vclock := vc\<rparr>)))" for vc
      using handle_honest by blast
    show ?thesis
      unfolding tm_receive_def Let_def by (rule final_attemptI) (simp_all add: vc h)
  qed
  then show "mgr_honest own K (final (case r of (bytes, msg, recv_addr) \<Rightarrow> if bytes \<le> 0 then Running s else tm_receive os msg recv_addr s))"
    using assms(1) rr by auto
qed (rule assms(1))

lemma restore_loop_out: "tm_out (final (restore_loop os count is b c s)) = tm_out s"
proof (induction os count "is" b c s rule: restore_loop.induct)
  case (2 os count i "is" b c s)
  have "tm_out (final (bnd (tm_append os e s) (restore_loop os count is b' c'))) = tm_out s"
    if "\<And>u. tm_out (final (restore_loop os count is b' c' u)) = tm_out u" for e b' c'
    using that by (intro final_bndI [where P = "\<lambda>u. tm_out u = tm_out s"]) (simp_all add: tm_append_def)
  then show ?case using 2 by (auto simp: Let_def split: prod.splits)
qed simp

lemma start_honest:
  assumes "tm_main_start os argv (Some log) = Inr m"
    and "log_room (Suc (length (undecided (log_entries log)))) log" and "\<forall>t \<in> K. has_commit (log_entries log) t"
  shows "mgr_honest own K (final m)"
proof -
  obtain s0 where "tm_out s0 = []" "(\<exists>h. m = Halted h s0) \<or> m = restoreTransactions os s0"
    by (rule tm_main_start_core [OF assms(1)]) blast
  then have "tm_out (final m) = []" by (auto simp: restoreTransactions_def Let_def restore_loop_out)
  then show ?thesis
    using tm_main_start_final [OF assms(1), of 0] assms(2,3)
    by (auto simp: mgr_honest_def commits_true_def tx_owned_def zero_transaction_def zero_worker_def)
qed

end
