(* ===== verification/WkTalk.thy ===== *)
theory WkTalk
  imports TWorkerUndo MgrTalk
begin

text \<open>
  The worker's side of what goes over the network. A worker on the host \<open>ip\<close> talks to the
  manager from the socket it opened for the transaction; \<open>own\<close> says which transaction a socket
  belongs to. If each socket is used for one transaction only, every request names the
  transaction of its socket; and if a commit is received only where the transaction of the
  socket is in \<open>K\<close>, then the log holds commits of such transactions only. Both are kept
  through crashes: a worker that starts on a prepared transaction opens the same port again.
\<close>

section \<open>Linked workers\<close>

definition sock_addr :: "u32 \<Rightarrow> u32 \<Rightarrow> sockaddr_in" where
  "sock_addr ip prt = \<lparr>sin_family = AF_INET, sin_port = htons (ucast prt), sin_addr = ip\<rparr>"

definition ends_prepared :: "txlog_entry_t list \<Rightarrow> bool" where
  "ends_prepared es \<longleftrightarrow> es \<noteq> [] \<and> e_type (last es) = log_code LOG_PREPARED"

text \<open>What holds of the files of a worker, whether it runs or not, and of what it has sent.\<close>

definition wk_sound :: "(sockaddr_in \<Rightarrow> u32) \<Rightarrow> u32 \<Rightarrow> u32 set \<Rightarrow> worker_state_t \<Rightarrow> bool" where
  "wk_sound own ip K s \<longleftrightarrow>
     (\<forall>d \<in> set (wk_out s). from_owner own (sock_addr ip (dg_src d)) (message_from_nbo (dg_msg d))) \<and>
     (\<forall>e \<in> set (log_entries (wk_log s)). e_type e = log_code LOG_COMMIT \<longrightarrow> e_transaction e \<in> K) \<and>
     (ends_prepared (log_entries (wk_log s)) \<longrightarrow>
        tm_listen_port (header (wk_log s)) \<noteq> 0 \<and> (\<exists>e \<in> set (log_entries (wk_log s)). boundary e) \<and>
        own (sock_addr ip (tm_listen_port (header (wk_log s)))) = e_transaction (last (log_entries (wk_log s))))"

text \<open>The sockets an active worker has, and the one it would open again, belong to its transaction.\<close>

definition sockets_own :: "(sockaddr_in \<Rightarrow> u32) \<Rightarrow> u32 \<Rightarrow> worker_state_t \<Rightarrow> bool" where
  "sockets_own own ip s \<longleftrightarrow>
     tm_listen_port (header (wk_log s)) \<noteq> 0 \<and>
     own (sock_addr ip (tm_listen_port (header (wk_log s)))) = wk_transaction s \<and>
     (\<forall>srv. wk_server s = Some srv \<longrightarrow> own (sock_addr ip (srv_port srv)) = wk_transaction s)"

definition wk_linked :: "(sockaddr_in \<Rightarrow> u32) \<Rightarrow> u32 \<Rightarrow> u32 set \<Rightarrow> nat \<Rightarrow> worker_state_t \<Rightarrow> bool" where
  "wk_linked own ip K n s \<longleftrightarrow> wk_sound own ip K s \<and> log_room n (wk_log s) \<and>
     (is_active s \<longleftrightarrow> wk_pc s \<noteq> TIdle) \<and> (uncertain s \<longleftrightarrow> wk_pc s = TUncertain) \<and>
     (is_active s \<longrightarrow> sockets_own own ip s \<and> (\<exists>e \<in> set (log_entries (wk_log s)). boundary e)) \<and>
     (wk_pc s \<noteq> TUncertain \<longrightarrow> \<not> ends_prepared (log_entries (wk_log s)))"

abbreviation links where
  "links own ip K n \<equiv> ensures (wk_linked own ip K n) (wk_sound own ip K)"

lemma ends_prepared_snoc [simp]: "ends_prepared (es @ [e]) \<longleftrightarrow> e_type e = log_code LOG_PREPARED"
  by (simp add: ends_prepared_def)

lemma wk_sound_mono: "wk_sound own ip K s \<Longrightarrow> K \<subseteq> K' \<Longrightarrow> wk_sound own ip K' s"
  by (auto simp: wk_sound_def)

lemma linked_grow: "wk_linked own ip K n s \<Longrightarrow> K \<subseteq> K' \<Longrightarrow> wk_linked own ip K' n s"
  by (auto simp: wk_linked_def intro: wk_sound_mono)

lemma linked_sound: "wk_linked own ip K n s \<Longrightarrow> wk_sound own ip K s"
  by (simp add: wk_linked_def)

lemma linked_mono: "wk_linked own ip K (Suc n) s \<Longrightarrow> wk_linked own ip K n s"
  by (simp add: wk_linked_def log_room_def)

lemma links_bnd:
  "links own ip K n m \<Longrightarrow> (\<And>s. wk_linked own ip K n s \<Longrightarrow> links own ip K k (f s)) \<Longrightarrow> links own ip K k (bnd m f)"
  by (rule ensures_bnd)

lemma links_attempt:
  "wk_sound own ip K s \<Longrightarrow> (\<And>a. r = Inr a \<Longrightarrow> links own ip K n (k a)) \<Longrightarrow> links own ip K n (attempt r s k)"
  by (rule ensures_attempt)

section \<open>Effects\<close>

text \<open>What both predicates depend on: a step that changes none of it keeps them.\<close>

definition wk_view where
  "wk_view s = (wk_out s, log_entries (wk_log s), log_count (wk_log s), length (log_slots (wk_log s)),
     tm_listen_port (header (wk_log s)), wk_transaction s, wk_server s, is_active s, uncertain s, wk_pc s)"

lemma linked_view: "wk_view s' = wk_view s \<Longrightarrow> wk_linked own ip K n s' = wk_linked own ip K n s"
  by (simp add: wk_view_def wk_linked_def wk_sound_def sockets_own_def log_room_def)

lemma links_view:
  assumes "wk_linked own ip K n s" and "wk_view (final m) = wk_view s"
  shows "links own ip K n m"
  using assms(1) linked_view [OF assms(2)] by (intro ensures_final) (auto intro: linked_sound)

lemma view_effects [simp]:
  "wk_view (final (wk_viz_append os m s)) = wk_view s" "wk_view (final (wk_sync os vc s)) = wk_view s"
  "wk_view (final (wk_write_clock os s)) = wk_view s" "wk_view (final (wk_read_id s)) = wk_view s"
  "wk_view (s\<lparr>wk_store := st\<rparr>) = wk_view s" "wk_view (s\<lparr>wk_vclock := vc\<rparr>) = wk_view s"
  "wk_view (s\<lparr>do_abort := b\<rparr>) = wk_view s" "wk_view (s\<lparr>do_commit := b\<rparr>) = wk_view s"
  "wk_view (s\<lparr>cmd_server := c\<rparr>) = wk_view s"
  by (simp_all add: wk_view_def wk_viz_append_def wk_sync_def wk_write_clock_def wk_read_id_def log_count_def final_txlog_write_clock
      log_entries_def)

lemma links_effects [simp]:
  assumes "wk_linked own ip K n s"
  shows "links own ip K n (wk_viz_append os m s)" "links own ip K n (wk_sync os vc s)"
    "links own ip K n (wk_write_clock os s)" "links own ip K n (wk_read_id s)"
  using assms by (auto intro: links_view)

lemma linked_updates [simp]:
  "wk_linked own ip K n (s\<lparr>wk_store := st\<rparr>) = wk_linked own ip K n s"
  "wk_linked own ip K n (s\<lparr>wk_vclock := vc\<rparr>) = wk_linked own ip K n s"
  "wk_linked own ip K n (s\<lparr>do_abort := b\<rparr>) = wk_linked own ip K n s"
  "wk_linked own ip K n (s\<lparr>do_commit := b\<rparr>) = wk_linked own ip K n s"
  "wk_linked own ip K n (s\<lparr>cmd_server := c\<rparr>) = wk_linked own ip K n s"
  by (rule linked_view, simp)+

lemma server_send_src: "server_send os server dest msg = Inr d \<Longrightarrow> \<exists>srv. server = Some srv \<and> dg_src d = srv_port srv"
  by (auto simp: server_send_def Let_def split: option.splits if_splits)

text \<open>Sending from the socket of the transaction: a request must name it.\<close>

lemma send_links:
  assumes "wk_linked own ip K n s" and "is_active s" and "request msg \<Longrightarrow> m_tid msg = wk_transaction s"
  shows "links own ip K n (wk_send os msg s)"
  unfolding wk_send_def
proof (rule links_attempt [OF linked_sound [OF assms(1)]])
  fix d assume d: "server_send_to os (wk_server s) (wk_tm_host s) (wk_tm_port s) msg = Inr d"
  then have "dg_msg d = message_to_nbo msg" using server_send_Inr [OF d [unfolded server_send_to_def]] by simp
  moreover obtain srv where "wk_server s = Some srv" "dg_src d = srv_port srv"
    using server_send_src [OF d [unfolded server_send_to_def]] by blast
  moreover have "sockets_own own ip s" using assms(1,2) by (simp add: wk_linked_def)
  ultimately have "from_owner own (sock_addr ip (dg_src d)) (message_from_nbo (dg_msg d))"
    using assms(3) by (simp add: from_owner_def nbo.dec_enc sockets_own_def)
  then show "links own ip K n (Running (s\<lparr>wk_out := wk_out s @ [d]\<rparr>))"
    using assms(1) by (auto simp: wk_linked_def wk_sound_def sockets_own_def)
qed

text \<open>Logging anything but a promise: a commit must be of \<open>K\<close>.\<close>

lemma append_linked:
  assumes "wk_linked own ip K (Suc n) s" and "e_type e = log_code LOG_COMMIT \<Longrightarrow> e_transaction e \<in> K"
    and "e_type e \<noteq> log_code LOG_PREPARED"
  shows "wk_linked own ip K n (final (wk_append os e s))"
proof -
  have "log_room (Suc n) (wk_log s)" using assms(1) by (simp add: wk_linked_def)
  note put = put_entry_room [OF this]
  show ?thesis
    using assms by (auto simp: wk_append_def final_txlog_append wk_linked_def wk_sound_def sockets_own_def put)
qed

lemma append_links:
  assumes "wk_linked own ip K (Suc n) s" and "e_type e = log_code LOG_COMMIT \<Longrightarrow> e_transaction e \<in> K"
    and "e_type e \<noteq> log_code LOG_PREPARED"
  shows "links own ip K n (wk_append os e s)"
  using append_linked [OF assms, of os] by (intro ensures_final) (auto intro: linked_sound)

section \<open>Rolling back\<close>

lemma rollback_loop_links:
  assumes "wk_linked own ip K (Suc n) s" and "i \<le> length (log_entries (wk_log s))"
  shows "ensures (\<lambda>s'. wk_linked own ip K n s' \<and> wk_rest s' = wk_rest s \<and>
       ((\<exists>e \<in> set (take i (log_entries (wk_log s))). boundary e) \<longrightarrow> \<not> ends_prepared (log_entries (wk_log s'))))
     (wk_sound own ip K) (rollback_loop os i b s)"
  using assms
proof (induction i arbitrary: b s)
  case 0
  then show ?case using linked_mono by auto
next
  case (Suc i)
  let ?es = "log_entries (wk_log s)"
  have room: "log_room (Suc n) (wk_log s)" using Suc.prems(1) by (simp add: wk_linked_def)
  have read: "txlog_read_entry (wk_log s) (of_nat i) b = ?es ! i"
    using txlog_read_entry_in [OF room, of i] Suc.prems(2) length_log_entries [OF room] by simp
  have take: "take (Suc i) ?es = take i ?es @ [?es ! i]" using Suc.prems(2) by (simp add: take_Suc_conv_app_nth)
  define e where "e = ?es ! i"
  consider "e_type e = log_code LOG_UPDATE" | "boundary e" | "e_type e \<noteq> log_code LOG_UPDATE" "\<not> boundary e" by blast
  then show ?case
  proof cases
    case 1
    then have nb: "\<not> boundary e" by (auto simp: boundary_def)
    let ?st = "objstore_set_id (objstore_set_b (objstore_set_a (wk_store s) (old_a e)) (old_b e)) (old_id e)"
    let ?m = "bnd (wk_sync os (e_vclock e) (s\<lparr>wk_store := ?st\<rparr>)) wk_read_id"
    have view: "wk_view (final ?m) = wk_view s"
      by (rule final_bndI [where P = "\<lambda>u. wk_view u = wk_view s"]) simp_all
    have rest: "wk_rest (final ?m) = wk_rest s"
      by (rule final_bndI [where P = "\<lambda>u. wk_rest u = wk_rest s"]) (simp_all)
    have "ensures (\<lambda>u. wk_linked own ip K (Suc n) u \<and> wk_view u = wk_view s \<and> wk_rest u = wk_rest s) (wk_sound own ip K) ?m"
      using Suc.prems(1) linked_view [OF view, of own ip K "Suc n"] view rest
      by (cases ?m) (auto intro: linked_sound)
    then have "ensures (\<lambda>s'. wk_linked own ip K n s' \<and> wk_rest s' = wk_rest s \<and>
       ((\<exists>e \<in> set (take i ?es). boundary e) \<longrightarrow> \<not> ends_prepared (log_entries (wk_log s'))))
     (wk_sound own ip K) (bnd ?m (rollback_loop os i e))"
    proof (rule ensures_bnd)
      fix u assume u: "wk_linked own ip K (Suc n) u \<and> wk_view u = wk_view s \<and> wk_rest u = wk_rest s"
      then have "log_entries (wk_log u) = ?es" by (simp add: wk_view_def)
      then show "ensures (\<lambda>s'. wk_linked own ip K n s' \<and> wk_rest s' = wk_rest s \<and>
         ((\<exists>e \<in> set (take i ?es). boundary e) \<longrightarrow> \<not> ends_prepared (log_entries (wk_log s'))))
         (wk_sound own ip K) (rollback_loop os i e u)"
        using Suc.IH [of u e] Suc.prems(2) u by simp
    qed
    then show ?thesis using 1 nb by (simp add: Let_def read take e_def [symmetric])
  next
    case 2
    have "ensures (\<lambda>s'. wk_linked own ip K n s' \<and> wk_rest s' = wk_rest s \<and> \<not> ends_prepared (log_entries (wk_log s')))
       (wk_sound own ip K) (wk_append os (txentry_init LOG_ABORT (e_transaction e) (e_vclock e)) s)"
      using append_linked [OF Suc.prems(1), of "txentry_init LOG_ABORT (e_transaction e) (e_vclock e)" os]
        wk_rest_effects(2) [of os "txentry_init LOG_ABORT (e_transaction e) (e_vclock e)" s]
      by (intro ensures_final) (auto simp: wk_append_def final_txlog_append put_entry_room [OF room] intro: linked_sound)
    then show ?thesis
      using 2 by (auto simp: Let_def read e_def [symmetric] boundary_def elim: ensures_mono)
  next
    case 3
    have "ensures (\<lambda>s'. wk_linked own ip K n s' \<and> wk_rest s' = wk_rest s \<and>
       ((\<exists>e \<in> set (take i ?es). boundary e) \<longrightarrow> \<not> ends_prepared (log_entries (wk_log s'))))
     (wk_sound own ip K) (rollback_loop os i e s)"
      using Suc.IH [of s e] Suc.prems by simp
    then show ?thesis using 3 by (simp add: Let_def read take e_def [symmetric] boundary_def)
  qed
qed

lemma rollback_links:
  assumes "wk_linked own ip K (Suc n) s"
  shows "ensures (\<lambda>s'. wk_linked own ip K n s' \<and> wk_rest s' = wk_rest s \<and> (is_active s \<longrightarrow> \<not> ends_prepared (log_entries (wk_log s'))))
     (wk_sound own ip K) (update_rollback os s)"
proof -
  have room: "log_room (Suc n) (wk_log s)" using assms by (simp add: wk_linked_def)
  have "nat (sint (tx_count (header (wk_log s)) - 1) + 1) = length (log_entries (wk_log s))"
    using sint_count_minus_1 [of "wk_log s"] length_log_entries [OF room] room by (simp add: log_room_def)
  then show ?thesis
    unfolding update_rollback_def
    using rollback_loop_links [OF assms order_refl, of os "os_stack_entry os"] assms
    by (auto simp: wk_linked_def elim!: ensures_mono)
qed

section \<open>Entering a transaction\<close>

text \<open>
  The socket the operating system gives for transaction \<open>t\<close>: it is bound, its port is not 0, and
  it is never used for another transaction.
\<close>

definition fresh_socket :: "(sockaddr_in \<Rightarrow> u32) \<Rightarrow> u32 \<Rightarrow> os_t \<Rightarrow> u32 \<Rightarrow> bool" where
  "fresh_socket own ip os t \<longleftrightarrow> 0 \<le> os_socket os \<and> os_bind os \<and> (ucast (ntohs (os_autoport os)) :: u32) \<noteq> 0 \<and>
     own (sock_addr ip (ucast (ntohs (os_autoport os)))) = t"

text \<open>A worker that has opened its socket and has not yet logged the beginning.\<close>

definition wk_opened :: "(sockaddr_in \<Rightarrow> u32) \<Rightarrow> u32 \<Rightarrow> u32 set \<Rightarrow> nat \<Rightarrow> u32 \<Rightarrow> worker_state_t \<Rightarrow> bool" where
  "wk_opened own ip K n t s \<longleftrightarrow> wk_sound own ip K s \<and> log_room n (wk_log s) \<and> \<not> ends_prepared (log_entries (wk_log s)) \<and>
     sockets_own own ip s \<and> wk_transaction s = t \<and> is_active s \<and> wk_pc s = TLoop \<and> \<not> uncertain s"

lemma sound_quiet:
  assumes "wk_sound own ip K s" and "\<not> ends_prepared (log_entries (wk_log s))"
    and "wk_out s' = wk_out s" and "log_entries (wk_log s') = log_entries (wk_log s)"
  shows "wk_sound own ip K s'"
  using assms by (simp add: wk_sound_def)

lemma log_head_entries [simp]:
  assumes "\<And>h. tx_count (f h) = tx_count h"
  shows "log_entries (wk_log (log_head f s)) = log_entries (wk_log s)" "log_room n (wk_log (log_head f s)) = log_room n (wk_log s)"
  by (simp_all add: log_head_def log_entries_def log_room_def log_count_def assms)

lemma log_head_fields [simp]:
  "wk_out (log_head f s) = wk_out s" "wk_transaction (log_head f s) = wk_transaction s" "wk_server (log_head f s) = wk_server s"
  "is_active (log_head f s) = is_active s" "uncertain (log_head f s) = uncertain s" "wk_pc (log_head f s) = wk_pc s"
  "header (wk_log (log_head f s)) = f (header (wk_log s))"
  by (simp_all add: log_head_def)

lemma open_listener_fresh:
  assumes "fresh_socket own ip os (wk_transaction s)" and "wk_sound own ip K s" and "\<not> ends_prepared (log_entries (wk_log s))"
  shows "ensures (\<lambda>u. sockets_own own ip u \<and> wk_out u = wk_out s \<and> log_entries (wk_log u) = log_entries (wk_log s) \<and>
      (\<forall>n. log_room n (wk_log u) = log_room n (wk_log s)) \<and> wk_transaction u = wk_transaction s \<and> is_active u = is_active s \<and>
      uncertain u = uncertain s \<and> wk_server u \<noteq> None)
     (wk_sound own ip K) (open_listener os 0 s)"
  unfolding open_listener_def Let_def
proof (rule ensures_attempt)
  fix srv assume "server_alloc os 0 10 = Inr srv"
  then have "srv_port srv = 0" by (auto simp: server_alloc_def split: if_splits)
  then have "srv_port (snd (server_listen os srv)) = ucast (ntohs (os_autoport os))"
    using assms(1) by (simp add: fresh_socket_def server_listen_def Let_def)
  then show "ensures (\<lambda>u. sockets_own own ip u \<and> wk_out u = wk_out s \<and> log_entries (wk_log u) = log_entries (wk_log s) \<and>
      (\<forall>n. log_room n (wk_log u) = log_room n (wk_log s)) \<and> wk_transaction u = wk_transaction s \<and> is_active u = is_active s \<and>
      uncertain u = uncertain s \<and> wk_server u \<noteq> None)
     (wk_sound own ip K) (Running (log_head (tm_listen_port_update (\<lambda>_. srv_port (snd (server_listen os srv)))) (s\<lparr>wk_server := Some (snd (server_listen os srv))\<rparr>)))"
    using assms(1) by (simp add: sockets_own_def fresh_socket_def)
qed (rule assms(2))

lemma spawn_opens:
  assumes "wk_linked own ip K n s" and "\<not> is_active s" and "fresh_socket own ip os t"
  shows "ensures (\<lambda>u. wk_opened own ip K n t u \<and> wk_server u \<noteq> None) (wk_sound own ip K) (tx_manager_spawn os host prt t s)"
proof -
  have s: "wk_sound own ip K s" "\<not> ends_prepared (log_entries (wk_log s))" "\<not> uncertain s" "log_room n (wk_log s)"
    using assms(1,2) by (auto simp: wk_linked_def)
  have quiet: "wk_sound own ip K u" if "wk_out u = wk_out s" "log_entries (wk_log u) = log_entries (wk_log s)" for u
    using sound_quiet [OF s(1,2) that] .
  define P where "P u \<longleftrightarrow> wk_out u = wk_out s \<and> log_entries (wk_log u) = log_entries (wk_log s) \<and>
      (\<forall>n. log_room n (wk_log u) = log_room n (wk_log s)) \<and> wk_transaction u = t \<and> is_active u \<and> \<not> uncertain u"
    for u :: worker_state_t
  have remember: "ensures P (wk_sound own ip K) (remember_tm host prt u)" if "P u" for u
    unfolding remember_tm_def Let_def
    by (rule ensures_attempt) (use that in \<open>simp_all add: P_def quiet\<close>)
  have listen: "ensures (\<lambda>u. wk_opened own ip K n t u \<and> wk_server u \<noteq> None) (wk_sound own ip K)
      (bnd (open_listener os (if uncertain u then tm_listen_port (header (wk_log u)) else 0) u)
        (\<lambda>s. Running (s\<lparr>wk_pc := (if uncertain s then TUncertain else TLoop)\<rparr>)))" if "P u" for u
  proof -
    have u: "fresh_socket own ip os (wk_transaction u)" "wk_sound own ip K u" "\<not> ends_prepared (log_entries (wk_log u))" "\<not> uncertain u"
      using that assms(3) s(2) by (simp_all add: P_def quiet)
    have "wk_sound own ip K v" if "wk_out v = wk_out u" "log_entries (wk_log v) = log_entries (wk_log u)" for v
      using sound_quiet [OF u(2,3) that] .
    then show ?thesis
      unfolding if_not_P [OF u(4)] using that u(3,4) s(4)
      by - (rule ensures_bnd [OF open_listener_fresh [OF u(1-3)]], simp add: P_def wk_opened_def sockets_own_def)
  qed
  show ?thesis
    unfolding tx_manager_spawn_def Let_def
  proof (rule ensures_attempt)
    fix d
    let ?u = "s\<lparr>is_active := True, wk_transaction := t, wk_server := None, wk_tm_port := prt, do_abort := False, do_commit := True, wk_tm_host := d\<rparr>"
    have "P ?u" using s(3) by (simp add: P_def)
    then have "ensures P (wk_sound own ip K) (if uncertain ?u then Running ?u else remember_tm host prt ?u)"
      using s(3) remember by simp
    then show "ensures (\<lambda>u. wk_opened own ip K n t u \<and> wk_server u \<noteq> None) (wk_sound own ip K) (bnd (if uncertain ?u then Running ?u else remember_tm host prt ?u)
      (\<lambda>u. bnd (open_listener os (if uncertain u then tm_listen_port (header (wk_log u)) else 0) u)
         (\<lambda>s. Running (s\<lparr>wk_pc := (if uncertain s then TUncertain else TLoop)\<rparr>))))"
      by (rule ensures_bnd) (rule listen)
  qed (simp add: quiet)
qed

lemma send_opened:
  assumes "wk_opened own ip K n t s" and "m_tid msg = t"
  shows "ensures (wk_opened own ip K n t) (wk_sound own ip K) (wk_send os msg s)"
  unfolding wk_send_def
proof (rule ensures_attempt)
  fix d assume d: "server_send_to os (wk_server s) (wk_tm_host s) (wk_tm_port s) msg = Inr d"
  then have "dg_msg d = message_to_nbo msg" using server_send_Inr [OF d [unfolded server_send_to_def]] by simp
  moreover obtain srv where "wk_server s = Some srv" "dg_src d = srv_port srv"
    using server_send_src [OF d [unfolded server_send_to_def]] by blast
  ultimately show "ensures (wk_opened own ip K n t) (wk_sound own ip K) (Running (s\<lparr>wk_out := wk_out s @ [d]\<rparr>))"
    using assms by (auto simp: wk_opened_def wk_sound_def sockets_own_def from_owner_def nbo.dec_enc)
qed (use assms(1) in \<open>simp add: wk_opened_def\<close>)

lemma enter_links:
  assumes "wk_linked own ip K (Suc n) s" and "\<not> is_active s \<Longrightarrow> fresh_socket own ip os (m_tid msg)"
  shows "links own ip K n (wk_enter os c x msg s)"
proof (cases "is_active s")
  case True
  then show ?thesis using linked_mono [OF assms(1)] by (simp add: wk_enter_def)
next
  case False
  have log: "links own ip K n (bnd (wk_append os (txentry_init LOG_BEGIN (wk_transaction u) vc) u) (wk_viz_append os y))"
    if "wk_opened own ip K (Suc n) t u" for u vc y t
  proof -
    have room: "log_room (Suc n) (wk_log u)" using that by (simp add: wk_opened_def)
    have "wk_linked own ip K n (final (wk_append os (txentry_init LOG_BEGIN (wk_transaction u) vc) u))"
      using that by (auto simp: wk_opened_def wk_linked_def wk_append_def final_txlog_append put_entry_room [OF room]
          wk_sound_def sockets_own_def)
    then show ?thesis
      by (intro links_bnd [OF ensures_final]) (auto intro: linked_sound)
  qed
  have talk: "links own ip K n (if wk_server u = None then Halted AssertFail u else
      bnd (wk_send os (m\<lparr>m_tid := m_tid msg\<rparr>) u) (\<lambda>s. bnd (wk_append os (txentry_init LOG_BEGIN (wk_transaction s) (wk_vclock s)) s) (wk_viz_append os y)))"
    if "wk_opened own ip K (Suc n) (m_tid msg) u \<and> wk_server u \<noteq> None" for u m y
  proof -
    have "ensures (wk_opened own ip K (Suc n) (m_tid msg)) (wk_sound own ip K) (wk_send os (m\<lparr>m_tid := m_tid msg\<rparr>) u)"
      by (rule send_opened) (use that in simp_all)
    then have "links own ip K n (bnd (wk_send os (m\<lparr>m_tid := m_tid msg\<rparr>) u)
        (\<lambda>s. bnd (wk_append os (txentry_init LOG_BEGIN (wk_transaction s) (wk_vclock s)) s) (wk_viz_append os y)))"
      by (rule ensures_bnd) (rule log)
    then show ?thesis using that by auto
  qed
  show ?thesis
    unfolding wk_enter_def if_not_P [OF False]
    by (rule ensures_bnd [OF spawn_opens [OF assms(1) False assms(2) [OF False]]]) (rule talk)
qed

section \<open>The command loop\<close>

lemma log_old_links:
  assumes "wk_linked own ip K (Suc n) s"
  shows "links own ip K n (wk_log_old os s)"
  unfolding wk_log_old_def Let_def
  by (rule links_attempt [OF linked_sound [OF assms]]) (rule append_links [OF assms], simp_all)

lemma maybe_log_links:
  assumes "wk_linked own ip K (Suc n) s"
  shows "links own ip K n (if is_active s then wk_log_old os s else Running s)"
  using log_old_links [OF assms, of os] linked_mono [OF assms] by simp

lemma update_links:
  assumes "wk_linked own ip K (Suc n) s"
  shows "links own ip K n (wk_new_a os msg s)" "links own ip K n (wk_new_b os msg s)" "links own ip K n (wk_new_id os msg s)"
proof -
  have store: "links own ip K n (bnd (wk_sync os (wk_vclock u) (u\<lparr>wk_store := f u\<rparr>)) (\<lambda>s. wk_viz_append os (x s) s))"
    if "wk_linked own ip K n u" for u f x
    by (rule links_bnd [where n = n]) (simp_all add: that)
  show "links own ip K n (wk_new_a os msg s)"
    unfolding wk_new_a_def by (rule links_bnd [OF maybe_log_links [OF assms]]) (rule store)
  show "links own ip K n (wk_new_b os msg s)"
    unfolding wk_new_b_def by (rule links_bnd [OF maybe_log_links [OF assms]]) (rule store)
  have "links own ip K n (bnd (wk_log_old os s) (\<lambda>s. Running (s\<lparr>wk_store := objstore_set_id (wk_store s) (m_strdata msg)\<rparr>)))"
    by (rule links_bnd [OF log_old_links [OF assms]]) simp
  then have "links own ip K n (if is_active s then bnd (wk_log_old os s) (\<lambda>s. Running (s\<lparr>wk_store := objstore_set_id (wk_store s) (m_strdata msg)\<rparr>))
      else wk_sync os (wk_vclock s) (s\<lparr>wk_store := objstore_set_id (wk_store s) (m_strdata msg)\<rparr>))"
    using linked_mono [OF assms] by simp
  then show "links own ip K n (wk_new_id os msg s)"
    unfolding wk_new_id_def by (rule links_bnd) (rule links_bnd [where n = n], simp_all)
qed

lemma abort_links:
  assumes "wk_linked own ip K (Suc n) s"
  shows "links own ip K n (wk_abort os s)"
proof -
  have "links own ip K n (bnd (update_rollback os s) (\<lambda>s. wk_viz_append os x (s\<lparr>do_commit := False, do_abort := True\<rparr>)))" for x
    by (rule ensures_bnd [OF rollback_links [OF assms]]) simp
  then show ?thesis using linked_mono [OF assms] by (simp add: wk_abort_def)
qed

lemma no_request:
  "\<not> request (message_write_delay m d)" "\<not> request (message_write_commit_crash m)" "\<not> request (message_write_abort_crash m)"
  by (auto simp: request_def message_write_delay_def message_write_commit_crash_def message_write_abort_crash_def cmd_of_eq_Some)

lemma talk_links:
  assumes "wk_linked own ip K n s"
  shows "links own ip K n (wk_delay_response os msg s)" "links own ip K n (wk_commit os s)"
    "links own ip K n (wk_commit_crash os s)" "links own ip K n (wk_abort_crash os s)"
    "links own ip K n (wk_vote_abort os s)" "links own ip K n (wk_crash os s)"
proof -
  have after: "links own ip K n (bnd (wk_viz_append os x s) f)"
    if "\<And>u. wk_linked own ip K n u \<and> is_active u = is_active s \<and> wk_transaction u = wk_transaction s \<Longrightarrow> links own ip K n (f u)" for x f
  proof (rule ensures_bnd)
    show "ensures (\<lambda>u. wk_linked own ip K n u \<and> is_active u = is_active s \<and> wk_transaction u = wk_transaction s)
        (wk_sound own ip K) (wk_viz_append os x s)"
      using links_effects(1) [OF assms, of os x] by (auto simp: wk_viz_append_def shitviz_append_def Let_def)
  qed (rule that)
  have send: "links own ip K n (bnd (wk_send os m s) (wk_viz_append os x))" if "is_active s" "\<not> request m" for m x
    by (rule links_bnd [OF send_links [OF assms that(1)]]) (use that(2) in simp_all)
  show "links own ip K n (wk_delay_response os msg s)"
    using assms by (auto simp: wk_delay_response_def no_request intro!: after send_links)
  show "links own ip K n (wk_commit os s)"
    using assms by (auto simp: wk_commit_def intro!: after send_links)
  show "links own ip K n (wk_commit_crash os s)" "links own ip K n (wk_abort_crash os s)"
    using assms by (auto simp: wk_commit_crash_def wk_abort_crash_def no_request intro!: send)
  show "links own ip K n (wk_vote_abort os s)" using assms by (simp add: wk_vote_abort_def)
  show "links own ip K n (wk_crash os s)" using assms by (auto simp: wk_crash_def intro!: after intro: linked_sound)
qed

text \<open>A command that begins or joins a transaction meets a fresh socket.\<close>

definition opens_fresh :: "(sockaddr_in \<Rightarrow> u32) \<Rightarrow> u32 \<Rightarrow> os_t \<Rightarrow> message_t \<Rightarrow> bool" where
  "opens_fresh own ip os msg \<longleftrightarrow>
     (cmd_of (m_type msg) \<in> {Some BEGINTX, Some JOINTX} \<longrightarrow> fresh_socket own ip os (m_tid msg))"

lemma handle_links:
  assumes "wk_linked own ip K (Suc n) s" and "opens_fresh own ip os msg"
  shows "links own ip K n (wk_handle os msg s)"
  unfolding wk_handle_def wk_begin_def wk_join_def
  using assms(2) enter_links [OF assms(1)] update_links [OF assms(1)] abort_links [OF assms(1)]
    talk_links [OF linked_mono [OF assms(1)]] links_effects(1) [OF linked_mono [OF assms(1)]]
  by (auto simp: opens_fresh_def split: option.splits cmdType.splits)

lemma command_links:
  assumes "wk_linked own ip K (Suc n) s"
    and "\<And>len buf a. ev = RDatagram len buf a \<Longrightarrow> opens_fresh own ip os (message_from_nbo buf)"
  shows "links own ip K n (wk_command os ev s)"
  unfolding wk_command_def
proof (rule links_attempt [OF linked_sound [OF assms(1)]])
  fix r assume r: "server_recv (cmd_server s) ev zero_msg no_addr = Inr r"
  obtain len msg a where rr: "r = (len, msg, a)" by (cases r)
  have "links own ip K n (attempt (vclock_increment (node_id s) (wk_vclock s)) s
      (\<lambda>vc. bnd (wk_write_clock os (s\<lparr>wk_vclock := vc\<rparr>)) (wk_handle os msg)))" if "0 < len"
  proof (rule links_attempt [OF linked_sound [OF assms(1)]])
    fix vc
    have "opens_fresh own ip os msg" using server_recv_cases [OF r [unfolded rr]] that assms(2) by auto
    then show "links own ip K n (bnd (wk_write_clock os (s\<lparr>wk_vclock := vc\<rparr>)) (wk_handle os msg))"
      using assms(1) by (intro links_bnd [where n = "Suc n"]) (simp_all add: handle_links)
  qed
  then show "links own ip K n (case r of (bytes, msg, recv_addr) \<Rightarrow> if bytes \<le> 0 then Running s
      else attempt (vclock_increment (node_id s) (wk_vclock s)) s
        (\<lambda>vc. bnd (wk_write_clock os (s\<lparr>wk_vclock := vc\<rparr>)) (wk_handle os msg)))"
    using rr linked_mono [OF assms(1)] by auto
qed

section \<open>The transaction thread\<close>

text \<open>The end of the thread: by now the log does not end in a promise.\<close>

lemma exit_links:
  assumes "wk_linked own ip K n s" and "\<not> ends_prepared (log_entries (wk_log s))" and "b \<longleftrightarrow> False"
  shows "links own ip K n (thread_exit (s\<lparr>uncertain := b\<rparr>))"
  unfolding thread_exit_def
  by (rule links_attempt) (use assms in \<open>auto simp: wk_linked_def wk_sound_def server_shutdown_def split: option.splits\<close>)

lemma exit_loop_links:
  assumes "wk_linked own ip K n s" and "\<not> ends_prepared (log_entries (wk_log s))" and "wk_pc s = TLoop"
  shows "links own ip K n (thread_exit s)"
  unfolding thread_exit_def
  by (rule links_attempt) (use assms in \<open>auto simp: wk_linked_def wk_sound_def server_shutdown_def split: option.splits\<close>)

text \<open>
  Between the promise in the log and the vote the worker is in neither loop: it is busy with its
  transaction.
\<close>

definition wk_busy :: "(sockaddr_in \<Rightarrow> u32) \<Rightarrow> u32 \<Rightarrow> u32 set \<Rightarrow> nat \<Rightarrow> u32 \<Rightarrow> worker_state_t \<Rightarrow> bool" where
  "wk_busy own ip K n t s \<longleftrightarrow> wk_sound own ip K s \<and> log_room n (wk_log s) \<and> is_active s \<and> wk_transaction s = t \<and>
     sockets_own own ip s \<and> (\<exists>e \<in> set (log_entries (wk_log s)). boundary e)"

lemma send_busy:
  assumes "wk_busy own ip K n t s" and "m_tid msg = t"
  shows "ensures (wk_busy own ip K n t) (wk_sound own ip K) (wk_send os msg s)"
  unfolding wk_send_def
proof (rule ensures_attempt)
  fix d assume d: "server_send_to os (wk_server s) (wk_tm_host s) (wk_tm_port s) msg = Inr d"
  then have "dg_msg d = message_to_nbo msg" using server_send_Inr [OF d [unfolded server_send_to_def]] by simp
  moreover obtain srv where "wk_server s = Some srv" "dg_src d = srv_port srv"
    using server_send_src [OF d [unfolded server_send_to_def]] by blast
  ultimately show "ensures (wk_busy own ip K n t) (wk_sound own ip K) (Running (s\<lparr>wk_out := wk_out s @ [d]\<rparr>))"
    using assms by (auto simp: wk_busy_def wk_sound_def sockets_own_def from_owner_def nbo.dec_enc)
qed (use assms(1) in \<open>simp add: wk_busy_def\<close>)

lemma vote_waits:
  assumes "wk_busy own ip K n t s" and "m_tid msg = t"
  shows "links own ip K n (if c then Halted (Exit 1) s
     else bnd (wk_send os msg s) (\<lambda>s. Running (s\<lparr>uncertain := True, wk_pc := TUncertain\<rparr>)))"
proof -
  have "links own ip K n (bnd (wk_send os msg s) (\<lambda>s. Running (s\<lparr>uncertain := True, wk_pc := TUncertain\<rparr>)))"
    by (rule ensures_bnd [OF send_busy [OF assms]]) (auto simp: wk_busy_def wk_linked_def wk_sound_def sockets_own_def)
  then show ?thesis using assms(1) by (simp add: wk_busy_def)
qed

lemma vote_links:
  assumes "wk_linked own ip K (Suc n) s" and "is_active s"
  shows "links own ip K n (vote_commit os s)" "links own ip K n (vote_abort os s)"
proof -
  let ?t = "wk_transaction s"
  have busy: "wk_busy own ip K k ?t u" if "wk_linked own ip K k s" "wk_view u = wk_view s" for u k
    using that assms(2) by (auto simp: wk_busy_def wk_linked_def wk_view_def wk_sound_def sockets_own_def log_room_def)
  have viz: "ensures (wk_busy own ip K k ?t) (wk_sound own ip K) (wk_viz_append os x s)" if "wk_linked own ip K k s" for x k
    using busy [OF that view_effects(1)] by (rule ensures_final) (simp add: wk_busy_def)
  have promise: "ensures (wk_busy own ip K n ?t) (wk_sound own ip K) (wk_append os (txentry_init LOG_PREPARED (wk_transaction u) vc) u)"
    if "wk_busy own ip K (Suc n) ?t u" for u vc
  proof (rule ensures_final)
    have "log_room (Suc n) (wk_log u)" using that by (simp add: wk_busy_def)
    note put = put_entry_room [OF this]
    show "wk_busy own ip K n ?t (final (wk_append os (txentry_init LOG_PREPARED (wk_transaction u) vc) u))"
      using that by (auto simp: wk_append_def final_txlog_append wk_busy_def wk_sound_def sockets_own_def put)
  qed (simp add: wk_busy_def)
  show "links own ip K n (vote_commit os s)"
    unfolding vote_commit_def Let_def
    by (rule ensures_bnd [OF viz [OF assms(1)]], rule ensures_bnd [OF promise], assumption, rule vote_waits) simp_all
  have "wk_busy own ip K n ?t (u\<lparr>do_abort := b, do_commit := c\<rparr>) = wk_busy own ip K n ?t u" for u b c
    by (simp add: wk_busy_def wk_sound_def sockets_own_def)
  then show "links own ip K n (vote_abort os s)"
    unfolding vote_abort_def Let_def
    by - (rule ensures_bnd [OF viz [OF linked_mono [OF assms(1)]]], rule vote_waits, simp_all)
qed

text \<open>Both loops receive, and then merge the clock: neither changes what the links depend on.\<close>

lemma thread_clock_view: "wk_view (final (thread_clock os msg s)) = wk_view s"
  unfolding thread_clock_def Let_def
  by (rule final_attemptI [where P = "\<lambda>u. wk_view u = wk_view s"]) simp_all

lemma thread_receives:
  assumes "wk_linked own ip K (Suc n) s" and "links own ip K n idle"
    and "\<And>len buf a u. ev = RDatagram len buf a \<Longrightarrow> wk_linked own ip K (Suc n) u \<Longrightarrow> wk_view u = wk_view s \<Longrightarrow>
      links own ip K n (k (message_from_nbo buf) u)"
  shows "links own ip K n (attempt (server_recv (wk_server s) ev zero_msg no_addr) s
     (\<lambda>(bytes, msg, recv_addr). if bytes \<le> 0 then idle else bnd (thread_clock os msg s) (k msg)))"
proof (rule links_attempt [OF linked_sound [OF assms(1)]])
  fix r assume r: "server_recv (wk_server s) ev zero_msg no_addr = Inr r"
  obtain len msg a where rr: "r = (len, msg, a)" by (cases r)
  have "links own ip K n (bnd (thread_clock os msg s) (k msg))" if pos: "0 < len"
  proof -
    obtain buf where buf: "ev = RDatagram len buf a" "msg = message_from_nbo buf"
      using server_recv_cases [OF r [unfolded rr]] pos by auto
    have "ensures (\<lambda>u. wk_linked own ip K (Suc n) u \<and> wk_view u = wk_view s) (wk_sound own ip K) (thread_clock os msg s)"
      using linked_view [OF thread_clock_view [of os msg s]] assms(1)
      by (intro ensures_final) (auto simp: thread_clock_view intro: linked_sound)
    then show ?thesis by (rule ensures_bnd) (use assms(3) buf in auto)
  qed
  then show "links own ip K n (case r of (bytes, msg, recv_addr) \<Rightarrow> if bytes \<le> 0 then idle else bnd (thread_clock os msg s) (k msg))"
    using rr assms(2) by auto
qed

lemma decision_links:
  assumes "wk_linked own ip K (Suc n) s" and "wk_transaction s \<in> K"
  shows "ensures (\<lambda>u. wk_linked own ip K n u \<and> wk_pc u = wk_pc s \<and> \<not> ends_prepared (log_entries (wk_log u)))
     (wk_sound own ip K) (log_decision os s)"
  unfolding log_decision_def
proof (rule ensures_bnd)
  show "ensures (\<lambda>u. wk_linked own ip K (Suc n) u \<and> wk_view u = wk_view s) (wk_sound own ip K) (wk_viz_append os ''Commit'' s)"
    using links_effects(1) [OF assms(1), of os "''Commit''"] view_effects(1) [of os "''Commit''" s]
    by (cases "wk_viz_append os ''Commit'' s") (simp_all del: view_effects)
next
  fix u assume u: "wk_linked own ip K (Suc n) u \<and> wk_view u = wk_view s"
  then have room: "log_room (Suc n) (wk_log u)" by (simp add: wk_linked_def)
  have "wk_linked own ip K n (final (wk_append os (txentry_init LOG_COMMIT (wk_transaction u) (wk_vclock u)) u))"
    using u assms(2) by (intro append_linked) (simp_all add: wk_view_def)
  then show "ensures (\<lambda>u. wk_linked own ip K n u \<and> wk_pc u = wk_pc s \<and> \<not> ends_prepared (log_entries (wk_log u)))
     (wk_sound own ip K) (wk_append os (txentry_init LOG_COMMIT (wk_transaction u) (wk_vclock u)) u)"
    using u by (intro ensures_final) (auto simp: wk_append_def final_txlog_append put_entry_room [OF room] wk_view_def intro: linked_sound)
qed

lemma roll_back_links:
  assumes "wk_linked own ip K (Suc n) s" and "is_active s"
  shows "ensures (\<lambda>u. wk_linked own ip K n u \<and> wk_pc u = wk_pc s \<and> \<not> ends_prepared (log_entries (wk_log u)))
     (wk_sound own ip K) (wk_roll_back os s)"
  unfolding wk_roll_back_def
proof (rule ensures_bnd)
  show "ensures (\<lambda>u. wk_linked own ip K (Suc n) u \<and> wk_view u = wk_view s) (wk_sound own ip K) (wk_viz_append os ''Abort'' s)"
    using links_effects(1) [OF assms(1), of os "''Abort''"] view_effects(1) [of os "''Abort''" s]
    by (cases "wk_viz_append os ''Abort'' s") (simp_all del: view_effects)
next
  fix u assume u: "wk_linked own ip K (Suc n) u \<and> wk_view u = wk_view s"
  then have "wk_pc u = wk_pc s" "is_active u" using assms(2) by (simp_all add: wk_view_def)
  then show "ensures (\<lambda>u. wk_linked own ip K n u \<and> wk_pc u = wk_pc s \<and> \<not> ends_prepared (log_entries (wk_log u)))
     (wk_sound own ip K) (update_rollback os u)"
    using rollback_links [of own ip K n u os] u by (elim conjE) (auto elim!: ensures_mono dest: wk_rest_eqD(1))
qed

lemma leave_links:
  assumes "ensures (\<lambda>u. wk_linked own ip K n u \<and> wk_pc u = p \<and> \<not> ends_prepared (log_entries (wk_log u))) (wk_sound own ip K) m"
  shows "links own ip K n (bnd m (\<lambda>s. thread_exit (s\<lparr>uncertain := False\<rparr>)))" and "p = TLoop \<Longrightarrow> links own ip K n (bnd m thread_exit)"
  using assms by (auto elim!: ensures_bnd intro: exit_links exit_loop_links)

lemma error_links:
  assumes u: "wk_linked own ip K (Suc n) u" and pc: "wk_pc u = TLoop"
  shows "links own ip K n (bnd (wk_viz_append os x u) (\<lambda>s. if c then thread_exit s else Running s))"
proof (rule ensures_bnd)
  show "ensures (\<lambda>v. wk_linked own ip K n v \<and> wk_view v = wk_view u) (wk_sound own ip K) (wk_viz_append os x u)"
    using links_effects(1) [OF linked_mono [OF u], of os x] view_effects(1) [of os x u]
    by (cases "wk_viz_append os x u") (simp_all del: view_effects)
  fix v assume v: "wk_linked own ip K n v \<and> wk_view v = wk_view u"
  then have "wk_pc v = TLoop" "\<not> ends_prepared (log_entries (wk_log v))" using pc by (auto simp: wk_view_def wk_linked_def)
  then show "links own ip K n (if c then thread_exit v else Running v)"
    using v exit_loop_links by simp
qed

lemma loop_links:
  assumes "wk_linked own ip K (Suc n) s" and "wk_pc s = TLoop"
    and "\<And>len buf a. ev = RDatagram len buf a \<Longrightarrow> told COMMIT buf \<Longrightarrow> wk_transaction s \<in> K"
  shows "links own ip K n (tx_worker_loop os ev s)"
  unfolding tx_worker_loop_def
proof (rule thread_receives [OF assms(1)])
  show "links own ip K n (Running s)" using linked_mono [OF assms(1)] by simp
  fix len buf a u
  assume ev: "ev = RDatagram len buf a" and u: "wk_linked own ip K (Suc n) u" "wk_view u = wk_view s"
  let ?msg = "message_from_nbo buf"
  have a: "is_active u" "wk_pc u = TLoop" using assms(1,2) u(2) by (simp_all add: wk_view_def wk_linked_def)
  have commit: "links own ip K n (bnd (log_decision os u) thread_exit)" if "told COMMIT buf"
    using assms(3) [OF ev that] u a(2) by (intro leave_links(2) [OF decision_links]) (simp_all add: wk_view_def)
  have abort: "links own ip K n (bnd (wk_roll_back os u) thread_exit)"
    by (rule leave_links(2) [OF roll_back_links [OF u(1) a(1)] a(2)])
  show "links own ip K n (case cmd_of (m_type ?msg) of
      Some PREPARE_TO_COMMIT \<Rightarrow>
         if do_commit u then vote_commit os u
         else if do_abort u then vote_abort os u
         else wk_viz_append os ''Dunno what to do for PREPARE :('' u
     | Some TX_ERROR \<Rightarrow>
         if \<not> terminated (m_strdata ?msg) then Halted Undef u
         else bnd (wk_viz_append os (''Manager Error: '' @ cstr (m_strdata ?msg)) u)
                (\<lambda>s. if m_value ?msg \<noteq> 0 then thread_exit s else Running s)
     | Some COMMIT \<Rightarrow> bnd (log_decision os u) thread_exit
     | Some ABORT \<Rightarrow> bnd (wk_roll_back os u) thread_exit
     | _ \<Rightarrow> wk_viz_append os ''Unknown command'' u)"
    using commit abort error_links [OF u(1) a(2)] vote_links [OF u(1) a(1)] links_effects(1) [OF linked_mono [OF u(1)]] linked_sound [OF u(1)]
    by (auto simp: cmd_of_eq_Some split: option.split cmdType.split)
qed

lemma uncertain_links:
  assumes "wk_linked own ip K (Suc n) s" and act: "is_active s"
    and "\<And>len buf a. ev = RDatagram len buf a \<Longrightarrow> told COMMIT buf \<Longrightarrow> wk_transaction s \<in> K"
  shows "links own ip K n (tx_worker_uncertain os ev s)"
  unfolding tx_worker_uncertain_def
proof (rule thread_receives [OF assms(1)])
  show "links own ip K n (wk_send os ((message_init (Some (wk_vclock s)))\<lparr>m_type := cmd_code ASK, m_tid := wk_transaction s\<rparr>) s)"
    by (rule send_links [OF linked_mono [OF assms(1)] act]) simp
  fix len buf a u
  assume ev: "ev = RDatagram len buf a" and u: "wk_linked own ip K (Suc n) u" "wk_view u = wk_view s"
  have act_u: "is_active u" using act u(2) by (simp add: wk_view_def)
  have commit: "links own ip K n (bnd (log_decision os u) (\<lambda>s. thread_exit (s\<lparr>uncertain := False\<rparr>)))" if "told COMMIT buf"
    using assms(3) [OF ev that] u by (intro leave_links(1) [OF decision_links]) (simp_all add: wk_view_def)
  have abort: "links own ip K n (bnd (wk_roll_back os u) (\<lambda>s. thread_exit (s\<lparr>uncertain := False\<rparr>)))"
    by (rule leave_links(1) [OF roll_back_links [OF u(1) act_u]])
  show "links own ip K n (case cmd_of (m_type (message_from_nbo buf)) of
       Some COMMIT \<Rightarrow> bnd (log_decision os u) (\<lambda>s. thread_exit (s\<lparr>uncertain := False\<rparr>))
     | Some ABORT \<Rightarrow> bnd (wk_roll_back os u) (\<lambda>s. thread_exit (s\<lparr>uncertain := False\<rparr>))
     | Some PREPARE_TO_COMMIT \<Rightarrow> wk_viz_append os ''Unexpected PREPARE in uncertain state'' u
     | _ \<Rightarrow> wk_viz_append os ''Unknown command in uncertain state'' u)"
    using commit abort links_effects(1) [OF linked_mono [OF u(1)]]
    by (auto simp: cmd_of_eq_Some split: option.split cmdType.split)
qed

lemma thread_links:
  assumes "wk_linked own ip K (Suc n) s"
    and "\<And>len buf a. ev = RDatagram len buf a \<Longrightarrow> told COMMIT buf \<Longrightarrow> is_active s \<Longrightarrow> wk_transaction s \<in> K"
  shows "links own ip K n (tx_worker_thread os ev s)"
proof -
  have "is_active s \<longleftrightarrow> wk_pc s \<noteq> TIdle" "links own ip K n (Running s)"
    using assms(1) linked_mono [OF assms(1)] by (simp_all add: wk_linked_def)
  then show ?thesis
    using loop_links [OF assms(1), of ev os] uncertain_links [OF assms(1), of ev os] assms(2)
    by (cases "wk_pc s") (simp_all add: tx_worker_thread_def)
qed

section \<open>Starting again\<close>

text \<open>
  The uninitialised state of a starting worker has its flags clear, and on an empty log the
  uninitialised entry does not look like a promise.
\<close>

definition clean_start :: "os_t \<Rightarrow> worker_state_t \<Rightarrow> txlog_t \<Rightarrow> bool" where
  "clean_start os w0 log \<longleftrightarrow> \<not> is_active w0 \<and> \<not> uncertain w0 \<and>
     (log_entries log = [] \<longrightarrow> e_type (txlog_last_entry log (os_stack_entry os)) \<noteq> log_code LOG_PREPARED)"

lemma listen_keeps_port: "srv_port srv \<noteq> 0 \<Longrightarrow> srv_port (snd (server_listen os srv)) = srv_port srv"
  by (simp add: server_listen_def Let_def)

text \<open>A start that finds a promise opens the port of that transaction again.\<close>

lemma reopen_links:
  assumes "wk_sound own ip K s" and "log_room n (wk_log s)" and "ends_prepared (log_entries (wk_log s))" and "uncertain s"
  shows "links own ip K n (tx_manager_spawn os h p (e_transaction (last (log_entries (wk_log s)))) s)"
proof -
  let ?t = "e_transaction (last (log_entries (wk_log s)))" and ?p = "tm_listen_port (header (wk_log s))"
  have p: "?p \<noteq> 0" "own (sock_addr ip ?p) = ?t" "\<exists>e \<in> set (log_entries (wk_log s)). boundary e"
    using assms(1,3) by (simp_all add: wk_sound_def)
  let ?u = "\<lambda>d. s\<lparr>is_active := True, wk_transaction := ?t, wk_server := None, wk_tm_port := p, do_abort := False, do_commit := True, wk_tm_host := d\<rparr>"
  have snd: "wk_sound own ip K (?u d)" "wk_sound own ip K (s\<lparr>is_active := True, wk_transaction := ?t, wk_server := None, wk_tm_port := p, do_abort := False, do_commit := True\<rparr>)" for d
    using assms(1) by (simp_all add: wk_sound_def)
  have "links own ip K n (bnd (open_listener os ?p (?u d)) (\<lambda>s. Running (s\<lparr>wk_pc := (if uncertain s then TUncertain else TLoop)\<rparr>)))" for d
  proof (cases "server_alloc os ?p 10")
    case (Inl h)
    then show ?thesis using snd by (simp add: open_listener_def)
  next
    case (Inr srv)
    then have "srv_port (snd (server_listen os srv)) = ?p"
      using p(1) by (subst listen_keeps_port) (auto simp: server_alloc_def split: if_splits)
    then show ?thesis
      using Inr assms p by (simp add: open_listener_def Let_def wk_linked_def wk_sound_def sockets_own_def)
  qed
  then show ?thesis
    unfolding tx_manager_spawn_def Let_def using assms(4) snd by (intro links_attempt) simp_all
qed

lemma last_entry_prepared:
  assumes "log_room n log" and "log_entries log = [] \<longrightarrow> e_type (txlog_last_entry log buf) \<noteq> log_code LOG_PREPARED"
  shows "e_type (txlog_last_entry log buf) = log_code LOG_PREPARED \<longleftrightarrow> ends_prepared (log_entries log)"
  using assms last_entry_of [OF assms(1), of buf] by (auto simp: ends_prepared_def)

lemma recover_links:
  assumes "wk_sound own ip K s" and "log_room (Suc n) (wk_log s)" and "wk_pc s = TIdle" and "clean_start os s (wk_log s)"
  shows "links own ip K n (wk_recover os s)"
proof (cases "ends_prepared (log_entries (wk_log s))")
  case True
  then have "txlog_last_entry (wk_log s) (os_stack_entry os) = last (log_entries (wk_log s))"
    using last_entry_of [OF assms(2)] by (simp add: ends_prepared_def)
  moreover have "log_of (e_type (last (log_entries (wk_log s)))) = Some LOG_PREPARED"
    using True by (simp add: ends_prepared_def log_of_eq_Some)
  moreover have "log_room n (wk_log s)" using assms(2) by (simp add: log_room_def)
  ultimately show ?thesis
    using reopen_links [of own ip K "s\<lparr>uncertain := True, is_active := True\<rparr>" n os] True assms(1)
    by (simp add: wk_recover_def wk_sound_def Let_def)
next
  case False
  then have lk: "wk_linked own ip K (Suc n) s"
    using assms by (simp add: wk_linked_def clean_start_def)
  have "e_type (txlog_last_entry (wk_log s) (os_stack_entry os)) \<noteq> log_code LOG_PREPARED"
    using last_entry_prepared [OF assms(2), of "os_stack_entry os"] False assms(4) by (simp add: clean_start_def)
  moreover have "links own ip K n (update_rollback os s)"
    using rollback_links [OF lk, of os] by (rule ensures_mono) simp_all
  ultimately show ?thesis
    using linked_mono [OF lk] by (auto simp: wk_recover_def Let_def log_of_eq_Some split: option.splits logEntryType.splits)
qed

text \<open>Waking leaves alone what the recovery looks at.\<close>

definition wk_asleep where
  "wk_asleep s = (wk_log s, wk_pc s, is_active s, uncertain s, wk_out s)"

lemma asleep_bnd:
  "wk_asleep (final m) = w \<Longrightarrow> (\<And>u. wk_asleep u = w \<Longrightarrow> wk_asleep (final (f u)) = w) \<Longrightarrow> wk_asleep (final (bnd m f)) = w"
  by (rule final_bndI [where P = "\<lambda>u. wk_asleep u = w"])

lemma wake_asleep: "wk_asleep (final (wk_wake os s)) = wk_asleep s"
proof -
  have [simp]: "wk_asleep (final (wk_sync os vc u)) = wk_asleep u" "wk_asleep (final (wk_read_id u)) = wk_asleep u"
    "wk_asleep (final (wk_viz_append os x u)) = wk_asleep u" "wk_asleep (u\<lparr>wk_vclock := vc\<rparr>) = wk_asleep u" for u vc x
    by (simp_all add: wk_asleep_def wk_sync_def wk_read_id_def wk_viz_append_def)
  have [simp]: "wk_asleep (final (wk_with_store os f u)) = wk_asleep u" if "\<And>u. wk_asleep (final (f u)) = wk_asleep u" for f u
    using that by (simp add: wk_with_store_def objstore_mapped_def)
  have "wk_asleep (final (attempt (vclock_add (wk_vclock s) (node_id s)) s (\<lambda>vc. wk_with_store os (wk_sync os vc) (s\<lparr>wk_vclock := vc\<rparr>)))) = wk_asleep s"
    "wk_asleep (final (attempt (vclock_increment (node_id s) (wk_vclock s)) s (\<lambda>vc. Running (s\<lparr>wk_vclock := vc\<rparr>)))) = wk_asleep s"
    by (simp_all add: attempt_def split: sum.split)
  then show ?thesis
    unfolding wk_wake_def by (intro asleep_bnd) simp_all
qed

lemma start_links:
  assumes "wk_main_start os w0 argv (Some (wk_store s)) (Some (wk_log s)) = Inr m"
    and "wk_sound own ip K s" and "log_room (Suc n) (wk_log s)" and "clean_start os w0 (wk_log s)"
  shows "links own ip K n m"
proof -
  obtain prt where m: "m = wk_boot os (wk_init w0 prt (wk_store s) (wk_log s))"
    using assms(1) by (auto simp: wk_main_start_def objstore_init_def txlog_open_def txlog_mapped_def Let_def split: if_splits)
  let ?s = "wk_init w0 prt (wk_store s) (wk_log s)"
  have a: "wk_log u = wk_log s" "wk_pc u = TIdle" "\<not> is_active u" "\<not> uncertain u" "wk_sound own ip K u"
    if "wk_asleep u = wk_asleep ?s" for u
    using that assms(2,4) by (simp_all add: wk_asleep_def wk_init_def wk_sound_def clean_start_def)
  have "links own ip K n (bnd (wk_recover os u) (\<lambda>s. attempt (server_alloc os (node_id s) 10) s
       (\<lambda>srv. Running (s\<lparr>cmd_server := Some (snd (server_listen os srv))\<rparr>))))" if "wk_asleep u = wk_asleep ?s" for u
  proof (rule links_bnd [OF recover_links])
    show "wk_sound own ip K u" "log_room (Suc n) (wk_log u)" "wk_pc u = TIdle" "clean_start os u (wk_log u)"
      using a [OF that] assms(3,4) by (simp_all add: clean_start_def)
  qed (auto intro!: links_attempt intro: linked_sound)
  then show ?thesis
    unfolding m wk_boot_def using wake_asleep [of os ?s] a(5) by (cases "wk_wake os ?s") auto
qed

section \<open>Runs\<close>

text \<open>What the network and the operating system may do to a linked worker.\<close>

definition net_acc :: "(sockaddr_in \<Rightarrow> u32) \<Rightarrow> u32 \<Rightarrow> u32 set \<Rightarrow> thread \<times> os_t \<times> recv_event \<Rightarrow> worker_state_t \<Rightarrow> bool" where
  "net_acc own ip K = (\<lambda>(th, os, ev) s. case ev of
       RDatagram len buf from \<Rightarrow> (case th of
           MainThread \<Rightarrow> opens_fresh own ip os (message_from_nbo buf)
         | TxThread \<Rightarrow> told COMMIT buf \<longrightarrow> is_active s \<longrightarrow> wk_transaction s \<in> K)
     | _ \<Rightarrow> True)"

interpretation net: guarded_machine wk_step "net_acc own ip K" "wk_linked own ip K" "wk_sound own ip K" for own ip K
proof
  fix e s n
  assume acc: "net_acc own ip K e s" and lk: "wk_linked own ip K (Suc n) s"
  obtain th os ev where e: "e = (th, os, ev)" by (cases e)
  show "links own ip K n (wk_step e s)"
    using acc command_links [OF lk, of ev os] thread_links [OF lk, of ev os]
    by (cases th) (auto simp: e wk_step_def net_acc_def split: recv_event.splits)
qed

end
