(* ===== verification/System.thy ===== *)
theory System
  imports WkTalk
begin

text \<open>
  The whole system: one manager, any number of workers on their hosts, and the network between
  them. Every process is an \<open>outcome\<close>: it runs, or it has stopped and left its files. The network
  is the set of all datagrams ever sent, so it may lose, repeat, delay and reorder them. A step
  is one iteration of one thread of one process, a crash, or a start.
\<close>

section \<open>States and steps\<close>

type_synonym packet = "sockaddr_in \<times> message_t"

record system =
  mgr :: "txmanager_t outcome"
  wks :: "nat \<Rightarrow> worker_state_t outcome"
  to_mgr :: "packet set"    \<comment> \<open>the sender's address and the message\<close>
  to_wk :: "packet set"     \<comment> \<open>the receiver's address and the message\<close>

abbreviation mgr_log_of :: "system \<Rightarrow> txlog_entry_t list" where
  "mgr_log_of S \<equiv> log_entries (tm_log (final (mgr S)))"

abbreviation wk_log_of :: "system \<Rightarrow> nat \<Rightarrow> txlog_entry_t list" where
  "wk_log_of S k \<equiv> log_entries (wk_log (final (wks S k)))"

definition mgr_sent :: "txmanager_t outcome \<Rightarrow> packet set" where
  "mgr_sent m = (\<lambda>d. (dg_dest d, dg_msg d)) ` set (tm_out (final m))"

definition wk_sent :: "u32 \<Rightarrow> worker_state_t outcome \<Rightarrow> packet set" where
  "wk_sent ip m = (\<lambda>d. (sock_addr ip (dg_src d), dg_msg d)) ` set (wk_out (final m))"

text \<open>The manager has an iteration with outcome \<open>m\<close>; worker \<open>k\<close> has one.\<close>

definition mgr_goes :: "txmanager_t outcome \<Rightarrow> system \<Rightarrow> system" where
  "mgr_goes m S = S\<lparr>mgr := m, to_wk := to_wk S \<union> mgr_sent m\<rparr>"

definition wk_goes :: "(nat \<Rightarrow> u32) \<Rightarrow> nat \<Rightarrow> worker_state_t outcome \<Rightarrow> system \<Rightarrow> system" where
  "wk_goes ip k m S = S\<lparr>wks := (wks S)(k := m), to_mgr := to_mgr S \<union> wk_sent (ip k) m\<rparr>"

lemma goes_fields [simp]:
  "mgr (mgr_goes m S) = m" "wks (mgr_goes m S) = wks S" "to_mgr (mgr_goes m S) = to_mgr S"
  "to_wk (mgr_goes m S) = to_wk S \<union> mgr_sent m"
  "mgr (wk_goes ip k w S) = mgr S" "wks (wk_goes ip k w S) = (wks S)(k := w)" "to_wk (wk_goes ip k w S) = to_wk S"
  "to_mgr (wk_goes ip k w S) = to_mgr S \<union> wk_sent (ip k) w"
  by (simp_all add: mgr_goes_def wk_goes_def)

text \<open>
  \<open>ip\<close> is the host of a worker. What the environment of worker \<open>k\<close> may do is a parameter: \<open>opens k os msg\<close>
  says that it may be given the command \<open>msg\<close> while the system answers as \<open>os\<close>, \<open>boots k os w0 log\<close> that
  it may start from the memory \<open>w0\<close> on the log. The logs have room for one more entry.
\<close>

type_synonym may_open = "nat \<Rightarrow> os_t \<Rightarrow> message_t \<Rightarrow> bool"
type_synonym may_boot = "nat \<Rightarrow> os_t \<Rightarrow> worker_state_t \<Rightarrow> txlog_t \<Rightarrow> bool"

inductive sys_step :: "may_open \<Rightarrow> may_boot \<Rightarrow> (nat \<Rightarrow> u32) \<Rightarrow> system \<Rightarrow> system \<Rightarrow> bool" for opens boots ip where
  mgr_iterates: "mgr S = Running m \<Longrightarrow> log_room 1 (tm_log m) \<Longrightarrow>
     (\<And>len buf a. ev = RDatagram len buf a \<Longrightarrow> (a, buf) \<in> to_mgr S) \<Longrightarrow>
     sys_step opens boots ip S (mgr_goes (tm_step (os, ev) m) S)"
| mgr_crashes: "mgr S = Running m \<Longrightarrow> sys_step opens boots ip S (mgr_goes (Halted h m) S)"
| mgr_starts: "mgr S = Halted h m \<Longrightarrow> tm_main_start os argv (Some (tm_log m)) = Inr r \<Longrightarrow>
     log_room (Suc (length (undecided (log_entries (tm_log m))))) (tm_log m) \<Longrightarrow>
     sys_step opens boots ip S (mgr_goes r S)"
| wk_commanded: "wks S k = Running w \<Longrightarrow> log_room 1 (wk_log w) \<Longrightarrow>
     (\<And>len buf a. ev = RDatagram len buf a \<Longrightarrow> opens k os (message_from_nbo buf)) \<Longrightarrow>
     sys_step opens boots ip S (wk_goes ip k (wk_step (MainThread, os, ev) w) S)"
| wk_iterates: "wks S k = Running w \<Longrightarrow> log_room 1 (wk_log w) \<Longrightarrow>
     (\<And>len buf a. ev = RDatagram len buf a \<Longrightarrow>
        \<exists>srv. wk_server w = Some srv \<and> (sock_addr (ip k) (srv_port srv), buf) \<in> to_wk S) \<Longrightarrow>
     sys_step opens boots ip S (wk_goes ip k (wk_step (TxThread, os, ev) w) S)"
| wk_crashes: "wks S k = Running w \<Longrightarrow> sys_step opens boots ip S (wk_goes ip k (Halted h w) S)"
| wk_starts: "wks S k = Halted h w \<Longrightarrow> wk_main_start os w0 argv (Some (wk_store w)) (Some (wk_log w)) = Inr r \<Longrightarrow>
     log_room 1 (wk_log w) \<Longrightarrow> boots k os w0 (wk_log w) \<Longrightarrow>
     sys_step opens boots ip S (wk_goes ip k r S)"

text \<open>
  Two conditions the program relies on and does not enforce. With \<open>fresh_sockets own ip opens\<close> the
  socket a worker opens for a transaction has an address that is used for that transaction only
  (\<open>own\<close> is the transaction of an address): a worker never compares the id in a decision with its
  own. With \<open>clean_boots boots\<close> the flags and the entry \<open>main\<close> leaves uninitialised are clear.
\<close>

definition fresh_sockets :: "(sockaddr_in \<Rightarrow> u32) \<Rightarrow> (nat \<Rightarrow> u32) \<Rightarrow> may_open \<Rightarrow> bool" where
  "fresh_sockets own ip opens \<longleftrightarrow> (\<forall>k os msg. opens k os msg \<longrightarrow> opens_fresh own (ip k) os msg)"

definition clean_boots :: "may_boot \<Rightarrow> bool" where
  "clean_boots boots \<longleftrightarrow> (\<forall>k os w0 log. boots k os w0 log \<longrightarrow> clean_start os w0 log)"

text \<open>At the beginning nothing runs, nothing is logged and nothing was sent.\<close>

definition sys_init :: "system \<Rightarrow> bool" where
  "sys_init S \<longleftrightarrow> \<not> running (mgr S) \<and> mgr_log_of S = [] \<and> to_mgr S = {} \<and> to_wk S = {} \<and>
     (\<forall>k. \<not> running (wks S k) \<and> wk_log_of S k = [] \<and> wk_out (final (wks S k)) = [])"

inductive sys_reach :: "may_open \<Rightarrow> may_boot \<Rightarrow> (nat \<Rightarrow> u32) \<Rightarrow> system \<Rightarrow> bool" for opens boots ip where
  start: "sys_init S \<Longrightarrow> sys_reach opens boots ip S"
| step: "sys_reach opens boots ip S \<Longrightarrow> sys_step opens boots ip S S' \<Longrightarrow> sys_reach opens boots ip S'"

section \<open>The invariant\<close>

definition known :: "system \<Rightarrow> u32 set" where
  "known S = {t. has_commit (mgr_log_of S) t}"

definition mgr_part :: "(sockaddr_in \<Rightarrow> u32) \<Rightarrow> u32 set \<Rightarrow> txmanager_t outcome \<Rightarrow> bool" where
  "mgr_part own K m \<longleftrightarrow> ensures (mgr_honest own K) (\<lambda>s. True) m"

definition wk_part :: "(sockaddr_in \<Rightarrow> u32) \<Rightarrow> u32 \<Rightarrow> u32 set \<Rightarrow> worker_state_t outcome \<Rightarrow> bool" where
  "wk_part own ip K m \<longleftrightarrow> links own ip K 0 m"

definition sys_inv :: "(sockaddr_in \<Rightarrow> u32) \<Rightarrow> (nat \<Rightarrow> u32) \<Rightarrow> system \<Rightarrow> bool" where
  "sys_inv own ip S \<longleftrightarrow> mgr_part own (known S) (mgr S) \<and> (\<forall>k. wk_part own (ip k) (known S) (wks S k)) \<and>
     (\<forall>(a, buf) \<in> to_mgr S. from_owner own a (message_from_nbo buf)) \<and>
     (\<forall>(a, buf) \<in> to_wk S. told COMMIT buf \<longrightarrow> own a \<in> known S)"

lemma wk_part_grow: "wk_part own ip K m \<Longrightarrow> K \<subseteq> K' \<Longrightarrow> wk_part own ip K' m"
  unfolding wk_part_def by (erule ensures_mono) (auto intro: linked_grow wk_sound_mono)

lemma links_wk_part: "links own ip K n m \<Longrightarrow> wk_part own ip K m"
  unfolding wk_part_def by (erule ensures_mono) (auto simp: wk_linked_def log_room_def)

lemma honest_self:
  assumes "mgr_honest own K s"
  shows "mgr_honest own {t. has_commit (log_entries (tm_log s)) t} s" and "K \<subseteq> {t. has_commit (log_entries (tm_log s)) t}"
  using assms by (auto simp: mgr_honest_def)

lemma mgr_goes_inv:
  assumes "sys_inv own ip S" and "mgr_honest own (known S) (final m)"
  shows "sys_inv own ip (mgr_goes m S)"
proof -
  have K: "known S \<subseteq> known (mgr_goes m S)" "known (mgr_goes m S) = {t. has_commit (log_entries (tm_log (final m))) t}"
    using honest_self(2) [OF assms(2)] by (simp_all add: known_def)
  have "mgr_part own (known (mgr_goes m S)) m"
    using honest_self(1) [OF assms(2)] unfolding K(2) mgr_part_def by (rule ensures_final) simp
  moreover have "\<forall>(a, buf) \<in> mgr_sent m. told COMMIT buf \<longrightarrow> own a \<in> known (mgr_goes m S)"
    using assms(2) unfolding K(2) by (auto simp: mgr_sent_def mgr_honest_def commits_true_def)
  moreover have "\<forall>k. wk_part own (ip k) (known (mgr_goes m S)) (wks S k)"
    using assms(1) wk_part_grow [OF _ K(1)] by (simp add: sys_inv_def)
  ultimately show ?thesis
    using assms(1) K(1) by (auto simp: sys_inv_def)
qed

lemma wk_goes_inv:
  assumes "sys_inv own ip S" and "links own (ip k) (known S) n m"
  shows "sys_inv own ip (wk_goes ip k m S)"
proof -
  have K: "known (wk_goes ip k m S) = known S" by (simp add: known_def)
  have "wk_sound own (ip k) (known S) (final m)" using assms(2) by (cases m) (auto intro: linked_sound)
  then have "\<forall>(a, buf) \<in> wk_sent (ip k) m. from_owner own a (message_from_nbo buf)"
    by (auto simp: wk_sent_def wk_sound_def)
  then show ?thesis
    using assms(1) links_wk_part [OF assms(2)] unfolding sys_inv_def K by auto
qed

lemma running_wk:
  assumes "sys_inv own ip S" and "wks S k = Running w" and "log_room 1 (wk_log w)"
  shows "wk_linked own (ip k) (known S) (Suc 0) w"
proof -
  have "wk_part own (ip k) (known S) (wks S k)" using assms(1) by (simp add: sys_inv_def)
  then show ?thesis using assms(2,3) by (simp add: wk_part_def wk_linked_def)
qed

lemma running_mgr: "sys_inv own ip S \<Longrightarrow> mgr S = Running m \<Longrightarrow> mgr_honest own (known S) m"
  by (simp add: sys_inv_def mgr_part_def)

lemma sys_step_inv:
  assumes "sys_step opens boots ip S S'" and inv: "sys_inv own ip S"
    and env: "fresh_sockets own ip opens" "clean_boots boots"
  shows "sys_inv own ip S'"
  using assms(1)
proof cases
  case (mgr_iterates m ev os)
  have "from_owner own a (message_from_nbo buf)" if "ev = RDatagram len buf a" for len buf a
    using mgr_iterates(4) [OF that] inv by (auto simp: sys_inv_def)
  then show ?thesis
    using mgr_iterates mgr_goes_inv [OF inv step_honest [OF running_mgr [OF inv], of m 0]] by simp
next
  case (mgr_crashes m h)
  then show ?thesis using mgr_goes_inv [OF inv] running_mgr [OF inv] by simp
next
  case (mgr_starts h m os argv r)
  have "\<forall>t \<in> known S. has_commit (log_entries (tm_log m)) t" using mgr_starts(2) by (simp add: known_def)
  then show ?thesis using mgr_starts mgr_goes_inv [OF inv start_honest [OF mgr_starts(3,4)]] by simp
next
  case (wk_commanded k w ev os)
  have "net_acc own (ip k) (known S) (MainThread, os, ev) w"
    using wk_commanded(4) env(1) by (simp add: net_acc_def fresh_sockets_def split: recv_event.split)
  then show ?thesis
    using wk_commanded(1) wk_goes_inv [OF inv net.step_inv [OF _ running_wk [OF inv wk_commanded(2,3)]]] by simp
next
  case (wk_iterates k w ev os)
  note lk = running_wk [OF inv wk_iterates(2,3)]
  have "wk_transaction w \<in> known S" if ev: "ev = RDatagram len buf a" and "told COMMIT buf" "is_active w" for len buf a
  proof -
    obtain srv where srv: "wk_server w = Some srv" "(sock_addr (ip k) (srv_port srv), buf) \<in> to_wk S"
      using wk_iterates(4) [OF ev] by blast
    then have "own (sock_addr (ip k) (srv_port srv)) \<in> known S" using inv that(2) by (auto simp: sys_inv_def)
    moreover have "own (sock_addr (ip k) (srv_port srv)) = wk_transaction w"
      using lk srv(1) that(3) by (simp add: wk_linked_def sockets_own_def)
    ultimately show ?thesis by simp
  qed
  then have "net_acc own (ip k) (known S) (TxThread, os, ev) w"
    by (simp add: net_acc_def split: recv_event.split)
  then show ?thesis
    using wk_iterates(1) wk_goes_inv [OF inv net.step_inv [OF _ lk]] by simp
next
  case (wk_crashes k w h)
  have "wk_part own (ip k) (known S) (wks S k)" using inv by (simp add: sys_inv_def)
  then have "links own (ip k) (known S) 0 (Halted h w)"
    using wk_crashes(2) by (auto simp: wk_part_def intro: linked_sound)
  then show ?thesis using wk_crashes(1) wk_goes_inv [OF inv] by simp
next
  case (wk_starts k h w os w0 argv r)
  have "wk_part own (ip k) (known S) (wks S k)" using inv by (simp add: sys_inv_def)
  then have "wk_sound own (ip k) (known S) w" using wk_starts(2) by (simp add: wk_part_def)
  moreover have "clean_start os w0 (wk_log w)" using wk_starts(5) env(2) by (simp add: clean_boots_def)
  ultimately show ?thesis
    using wk_starts wk_goes_inv [OF inv start_links [OF wk_starts(3), of _ _ _ 0]] by simp
qed

lemma sys_init_inv: "sys_init S \<Longrightarrow> sys_inv own ip S"
proof -
  assume init: "sys_init S"
  have "mgr_part own (known S) (mgr S)" using init by (cases "mgr S") (simp_all add: sys_init_def mgr_part_def)
  moreover have "wk_part own (ip k) (known S) (wks S k)" for k
  proof -
    have "\<not> running (wks S k)" "wk_log_of S k = []" "wk_out (final (wks S k)) = []" using init by (simp_all add: sys_init_def)
    then show ?thesis by (cases "wks S k") (simp_all add: wk_part_def wk_sound_def ends_prepared_def)
  qed
  ultimately show ?thesis using init by (simp add: sys_inv_def sys_init_def)
qed

lemma sys_reach_inv:
  assumes "sys_reach opens boots ip S" and "fresh_sockets own ip opens" and "clean_boots boots"
  shows "sys_inv own ip S"
  using assms(1) by (induction rule: sys_reach.induct) (use assms(2,3) in \<open>auto intro: sys_init_inv sys_step_inv\<close>)

lemma committed_known:
  assumes "sys_inv own ip S" and "e \<in> set (wk_log_of S k)" and "e_type e = log_code LOG_COMMIT"
  shows "has_commit (mgr_log_of S) (e_transaction e)"
proof -
  have "wk_part own (ip k) (known S) (wks S k)" using assms(1) by (simp add: sys_inv_def)
  then have "wk_sound own (ip k) (known S) (final (wks S k))" by (cases "wks S k") (auto simp: wk_part_def intro: linked_sound)
  then show ?thesis using assms(2,3) by (simp add: wk_sound_def known_def)
qed

end
