(* ===== verification/TWorkerLive.thy ===== *)
theory TWorkerLive
  imports TWorkerUndo
begin

text \<open>
  What the worker does when the operating system does not fail it, as equations: the
  datagrams it sends, the entries it logs, the state of its thread.
\<close>

section \<open>Effects without failures\<close>

definition wk_live :: "worker_state_t \<Rightarrow> bool" where
  "wk_live s \<longleftrightarrow> wk_server s \<noteq> None \<and> viz_fd (wk_viz s) \<noteq> None"

definition wk_noted :: "string \<Rightarrow> worker_state_t \<Rightarrow> worker_state_t" where
  "wk_noted m s = s\<lparr>wk_viz := (wk_viz s)\<lparr>viz_events := viz_events (wk_viz s) @ [(node_id s, m, wk_vclock s)]\<rparr>\<rparr>"

definition wk_dgram :: "os_t \<Rightarrow> worker_state_t \<Rightarrow> message_t \<Rightarrow> datagram" where
  "wk_dgram os s msg = \<lparr>dg_src = srv_port (the (wk_server s)), dg_dest = dest_of os (wk_tm_host s) (wk_tm_port s),
     dg_msg = message_to_nbo msg\<rparr>"

definition wk_posted :: "datagram \<Rightarrow> worker_state_t \<Rightarrow> worker_state_t" where
  "wk_posted d s = s\<lparr>wk_out := wk_out s @ [d]\<rparr>"

definition wk_logged :: "txlog_entry_t \<Rightarrow> worker_state_t \<Rightarrow> worker_state_t" where
  "wk_logged e s = s\<lparr>wk_log := put_entry (wk_log s) e\<rparr>"

definition wk_clocked :: "vclock_t list \<Rightarrow> worker_state_t \<Rightarrow> worker_state_t" where
  "wk_clocked vc s = s\<lparr>wk_vclock := vc, wk_log := (wk_log s)\<lparr>header := (header (wk_log s))\<lparr>h_vclock := vc\<rparr>\<rparr>\<rparr>"

lemmas wk_effect_defs = wk_noted_def wk_posted_def wk_logged_def wk_clocked_def

lemma wk_viz_live [simp]: "viz_fd (wk_viz s) \<noteq> None \<Longrightarrow> wk_viz_append os m s = Running (wk_noted m s)"
  by (cases "wk_viz s") (auto simp: wk_viz_append_def shitviz_append_def wk_noted_def split: option.splits)

lemma wk_send_live [simp]:
  "wk_server s \<noteq> None \<Longrightarrow> os_ok os \<Longrightarrow> wk_send os m s = Running (wk_posted (wk_dgram os s m) s)"
  by (auto simp: wk_send_def server_send_to_def server_send_def os_ok_def wk_dgram_def wk_posted_def)

lemma wk_append_live [simp]: "os_ok os \<Longrightarrow> wk_append os e s = Running (wk_logged e s)"
  by (simp add: wk_append_def txlog_append_put os_ok_def wk_logged_def)

lemma wk_sync_live: "os_ok os \<Longrightarrow> wk_sync os vc s = Running (s\<lparr>wk_store := (wk_store s)\<lparr>lastUpdateTime := os_now os, o_vclock := vc\<rparr>\<rparr>)"
  by (simp add: wk_sync_def objstore_sync_def os_ok_def)

lemma thread_clock_live:
  assumes "os_ok os" and "vc_lookup (wk_vclock s) (node_id s) = Some c"
  shows "\<exists>vc. thread_clock os msg s = Running (wk_clocked vc s) \<and> vc_lookup vc (node_id s) = Some (c + 1)"
  using vc.receive [OF assms(2), of "m_vclock msg"] assms(1)
  by (auto simp: thread_clock_def wk_write_clock_def txlog_write_clock_def txlog_sync_def os_ok_def wk_clocked_def)

lemma wk_effect_fields [simp]:
  "wk_server (wk_noted m s) = wk_server s" "wk_server (wk_posted d s) = wk_server s"
  "wk_server (wk_logged e s) = wk_server s" "wk_server (wk_clocked vc s) = wk_server s"
  "wk_store (wk_noted m s) = wk_store s" "wk_store (wk_posted d s) = wk_store s"
  "wk_store (wk_logged e s) = wk_store s" "wk_store (wk_clocked vc s) = wk_store s"
  "viz_fd (wk_viz (wk_noted m s)) = viz_fd (wk_viz s)" "wk_viz (wk_posted d s) = wk_viz s"
  "wk_viz (wk_logged e s) = wk_viz s" "wk_viz (wk_clocked vc s) = wk_viz s"
  "wk_log (wk_noted m s) = wk_log s" "wk_log (wk_posted d s) = wk_log s" "wk_log (wk_logged e s) = put_entry (wk_log s) e"
  "wk_out (wk_noted m s) = wk_out s" "wk_out (wk_posted d s) = wk_out s @ [d]"
  "wk_out (wk_logged e s) = wk_out s" "wk_out (wk_clocked vc s) = wk_out s"
  "wk_transaction (wk_noted m s) = wk_transaction s" "wk_transaction (wk_posted d s) = wk_transaction s"
  "wk_transaction (wk_logged e s) = wk_transaction s" "wk_transaction (wk_clocked vc s) = wk_transaction s"
  "wk_pc (wk_noted m s) = wk_pc s" "wk_pc (wk_posted d s) = wk_pc s" "wk_pc (wk_logged e s) = wk_pc s"
  "wk_pc (wk_clocked vc s) = wk_pc s"
  "uncertain (wk_noted m s) = uncertain s" "uncertain (wk_posted d s) = uncertain s" "uncertain (wk_logged e s) = uncertain s"
  "uncertain (wk_clocked vc s) = uncertain s"
  "is_active (wk_noted m s) = is_active s" "is_active (wk_posted d s) = is_active s" "is_active (wk_logged e s) = is_active s"
  "is_active (wk_clocked vc s) = is_active s"
  "do_commit (wk_clocked vc s) = do_commit s" "do_abort (wk_clocked vc s) = do_abort s"
  "wk_delay (wk_clocked vc s) = wk_delay s" "wk_delay (wk_noted m s) = wk_delay s" "wk_delay (wk_logged e s) = wk_delay s"
  "wk_vclock (wk_clocked vc s) = vc" "wk_vclock (wk_noted m s) = wk_vclock s"
  "node_id (wk_clocked vc s) = node_id s" "node_id (wk_noted m s) = node_id s"
  by (simp_all add: wk_effect_defs)

lemma wk_clocked_log [simp]:
  "log_entries (wk_log (wk_clocked vc s)) = log_entries (wk_log s)"
  "log_room n (wk_log (wk_clocked vc s)) = log_room n (wk_log s)"
  by (simp_all add: wk_clocked_def log_entries_def log_room_def log_count_def)

lemma wk_wf_effects [simp]:
  "wk_wf n (wk_noted m s) = wk_wf n s" "wk_wf n (wk_posted d s) = wk_wf n s" "wk_wf n (wk_clocked vc s) = wk_wf n s"
  "wk_wf n (s\<lparr>uncertain := b\<rparr>) = wk_wf n s" "wk_wf n (s\<lparr>wk_server := r\<rparr>) = wk_wf n s"
  "wk_wf n (s\<lparr>is_active := b\<rparr>) = wk_wf n s" "wk_wf n (s\<lparr>wk_pc := p\<rparr>) = wk_wf n s"
  "wk_wf n (s\<lparr>do_commit := b\<rparr>) = wk_wf n s" "wk_wf n (s\<lparr>do_abort := b\<rparr>) = wk_wf n s"
  by (simp_all add: wk_wf_def)

lemma committed_vals_effects [simp]:
  "committed_vals (wk_noted m s) = committed_vals s" "committed_vals (wk_posted d s) = committed_vals s"
  "committed_vals (wk_clocked vc s) = committed_vals s"
  by (simp_all add: committed_vals_def)

lemma wk_recv [simp]:
  "wk_server s \<noteq> None \<Longrightarrow> server_recv (wk_server s) (RDatagram len buf a) m0 a0 = Inr (len, message_from_nbo buf, a)"
  "wk_server s \<noteq> None \<Longrightarrow> server_recv (wk_server s) RTimeout m0 a0 = Inr (-1, m0, a0)"
  by (auto simp: server_recv_def server_recv_timeout_def)

section \<open>The roll-back\<close>

lemma update_rollback_live:
  assumes "os_ok os" and "wk_wf (Suc n) s"
  obtains s' where "update_rollback os s = Running s'"
    "undone (committed_vals s) (log_entries (wk_log s) @ abort_of (log_entries (wk_log s))) n s'" "wk_rest s' = wk_rest s"
proof -
  have "running (update_rollback os s)"
    using update_rollback_ensures [OF assms(2), of os] assms(1)
    by (cases "update_rollback os s") (auto simp: os_ok_def)
  then have r: "update_rollback os s = Running (final (update_rollback os s))" by (simp add: running_iff)
  have "undone (committed_vals s) (log_entries (wk_log s) @ abort_of (log_entries (wk_log s))) n (final (update_rollback os s))"
    using update_rollback_ensures [OF assms(2), of os] by (subst (asm) r) simp
  then show thesis using r update_rollback_rest [of os s] by (intro that [of "final (update_rollback os s)"])
qed

section \<open>Decisions\<close>

lemma thread_exit_live [simp]:
  "wk_server s \<noteq> None \<Longrightarrow> thread_exit s = Running (s\<lparr>wk_server := None, is_active := False, wk_pc := TIdle\<rparr>)"
  by (auto simp: thread_exit_def server_shutdown_def)

lemma uncertain_abort:
  assumes "wk_live s" and "os_ok os" and "wk_wf (Suc n) s" and "vc_lookup (wk_vclock s) (node_id s) = Some c"
    and "wk_pc s = TUncertain" and "told ABORT buf" and "0 < len"
  obtains s' where "tx_worker_thread os (RDatagram len buf a) s = Running s'" "obj_vals (wk_store s') = committed_vals s"
    "log_entries (wk_log s') = log_entries (wk_log s) @ abort_of (log_entries (wk_log s))" "wk_wf n s'"
    "wk_pc s' = TIdle" "\<not> is_active s'" "\<not> uncertain s'" "wk_out s' = wk_out s"
proof -
  obtain vc where vc: "thread_clock os (message_from_nbo buf) s = Running (wk_clocked vc s)"
    using thread_clock_live [OF assms(2,4)] by blast
  let ?s = "wk_noted ''Abort'' (wk_clocked vc s)"
  have wf: "wk_wf (Suc n) ?s" using assms(3) by simp
  obtain s' where s': "update_rollback os ?s = Running s'"
    "undone (committed_vals ?s) (log_entries (wk_log ?s) @ abort_of (log_entries (wk_log ?s))) n s'" "wk_rest s' = wk_rest ?s"
    using update_rollback_live [OF assms(2) wf] by blast
  have srv: "wk_server s' \<noteq> None" using wk_rest_eqD(7) [OF s'(3)] assms(1) by (simp add: wk_live_def)
  let ?t = "s'\<lparr>uncertain := False, wk_server := None, is_active := False, wk_pc := TIdle\<rparr>"
  have "tx_worker_thread os (RDatagram len buf a) s = Running ?t"
    using assms(1,5-7) vc s'(1) srv cmd_of_code [of ABORT]
    by (auto simp: tx_worker_thread_def tx_worker_uncertain_def wk_live_def wk_roll_back_def)
  moreover have "wk_wf n ?t" using s'(2) by (simp add: undone_def)
  ultimately show thesis
    using s'(2) wk_rest_eqD(4) [OF s'(3)] by (intro that [of ?t]) (simp_all add: undone_def)
qed

lemma uncertain_commit:
  assumes "wk_live s" and "os_ok os" and "wk_wf (Suc n) s" and "vc_lookup (wk_vclock s) (node_id s) = Some c"
    and "wk_pc s = TUncertain" and "told COMMIT buf" and "0 < len"
  obtains s' vc where "tx_worker_thread os (RDatagram len buf a) s = Running s'" "wk_store s' = wk_store s"
    "log_entries (wk_log s') = log_entries (wk_log s) @ [txentry_init LOG_COMMIT (wk_transaction s) vc]" "wk_wf n s'"
    "wk_pc s' = TIdle" "\<not> is_active s'" "\<not> uncertain s'"
proof -
  obtain vc where vc: "thread_clock os (message_from_nbo buf) s = Running (wk_clocked vc s)"
    using thread_clock_live [OF assms(2,4)] by blast
  let ?e = "txentry_init LOG_COMMIT (wk_transaction s) vc"
  have room: "log_room (Suc n) (wk_log (wk_clocked vc s))" using assms(3) by (simp add: wk_wf_def)
  note put = put_entry_room [OF room]
  let ?t = "(wk_logged ?e (wk_noted ''Commit'' (wk_clocked vc s)))\<lparr>uncertain := False, wk_server := None, is_active := False, wk_pc := TIdle\<rparr>"
  have "tx_worker_thread os (RDatagram len buf a) s = Running ?t"
    using assms(1,2,5-7) vc cmd_of_code [of COMMIT]
    by (auto simp: tx_worker_thread_def tx_worker_uncertain_def wk_live_def log_decision_def)
  moreover have "wk_wf n ?t" using assms(3) put by (simp add: wk_wf_def ids_ok_def)
  ultimately show thesis using put by (intro that [of ?t vc]) simp_all
qed

text \<open>In the loop in front of the vote a commit has the same effect.\<close>

lemma commit_logged:
  assumes "wk_live s" and "os_ok os" and "wk_wf (Suc n) s" and "vc_lookup (wk_vclock s) (node_id s) = Some c"
    and "wk_pc s = TLoop \<or> wk_pc s = TUncertain" and "told COMMIT buf" and "0 < len"
  shows "\<exists>s' vc. tx_worker_thread os (RDatagram len buf a) s = Running s' \<and> wk_store s' = wk_store s \<and>
    log_entries (wk_log s') = log_entries (wk_log s) @ [txentry_init LOG_COMMIT (wk_transaction s) vc] \<and>
    wk_pc s' = TIdle \<and> \<not> is_active s'"
proof (cases "wk_pc s = TUncertain")
  case True
  show ?thesis using uncertain_commit [OF assms(1-4) True assms(6,7), of a] by metis
next
  case False
  then have pc: "wk_pc s = TLoop" using assms(5) by simp
  obtain vc where vc: "thread_clock os (message_from_nbo buf) s = Running (wk_clocked vc s)"
    using thread_clock_live [OF assms(2,4)] by blast
  let ?e = "txentry_init LOG_COMMIT (wk_transaction s) vc"
  have room: "log_room (Suc n) (wk_log (wk_clocked vc s))" using assms(3) by (simp add: wk_wf_def)
  let ?t = "(wk_logged ?e (wk_noted ''Commit'' (wk_clocked vc s)))\<lparr>wk_server := None, is_active := False, wk_pc := TIdle\<rparr>"
  have "tx_worker_thread os (RDatagram len buf a) s = Running ?t"
    using assms(1,2,6,7) pc vc cmd_of_code [of COMMIT]
    by (auto simp: tx_worker_thread_def tx_worker_loop_def wk_live_def log_decision_def)
  then show ?thesis using put_entry_room(1) [OF room, of ?e] by (intro exI [of _ ?t] exI [of _ vc]) simp
qed

section \<open>Entering a transaction\<close>

text \<open>What the header writes of a spawned thread leave alone.\<close>

definition same_log :: "worker_state_t \<Rightarrow> worker_state_t \<Rightarrow> bool" where
  "same_log s s' \<longleftrightarrow> wk_store s' = wk_store s \<and> log_entries (wk_log s') = log_entries (wk_log s) \<and>
     (\<forall>n. log_room n (wk_log s') = log_room n (wk_log s)) \<and> is_active s' = is_active s \<and>
     wk_transaction s' = wk_transaction s \<and> do_commit s' = do_commit s \<and> wk_out s' = wk_out s \<and> uncertain s' = uncertain s \<and>
     wk_delay s' = wk_delay s"

lemma same_log_head: "(\<And>h. tx_count (f h) = tx_count h) \<Longrightarrow> same_log s (log_head f s)"
  by (simp add: same_log_def log_head_def log_entries_def log_room_def log_count_def)

lemma same_log_trans: "same_log s t \<Longrightarrow> same_log t u \<Longrightarrow> same_log s u"
  by (simp add: same_log_def)

lemma remember_tm_same: "remember_tm h p s = Running s' \<Longrightarrow> same_log s s'"
  by (auto simp: remember_tm_def attempt_eq_Running Let_def intro!: same_log_trans [OF same_log_head same_log_head])

lemma open_listener_same: "open_listener os p s = Running s' \<Longrightarrow> same_log s s'"
proof -
  assume "open_listener os p s = Running s'"
  then obtain srv where "s' = log_head (\<lambda>h. h\<lparr>tm_listen_port := srv_port srv\<rparr>) (s\<lparr>wk_server := Some srv\<rparr>)"
    by (auto simp: open_listener_def attempt_eq_Running Let_def)
  moreover have "same_log s (s\<lparr>wk_server := Some srv\<rparr>)" by (simp add: same_log_def)
  ultimately show ?thesis using same_log_trans same_log_head by (metis (no_types, lifting) txlog_head_t.select_convs(2) txlog_head_t.surjective txlog_head_t.update_convs(3))
qed

lemma spawn_Running:
  assumes "tx_manager_spawn os h p t s = Running s'"
  shows "wk_store s' = wk_store s" "log_entries (wk_log s') = log_entries (wk_log s)"
    "log_room n (wk_log s') = log_room n (wk_log s)" "is_active s'" "wk_transaction s' = t"
    "wk_pc s' = (if uncertain s then TUncertain else TLoop)" "do_commit s'" "wk_out s' = wk_out s"
    "wk_delay s' = wk_delay s" "wk_server s' \<noteq> None" "uncertain s' = uncertain s"
proof -
  let ?s = "\<lambda>d. s\<lparr>is_active := True, wk_transaction := t, wk_server := None, wk_tm_port := p, do_abort := False,
      do_commit := True, wk_tm_host := d\<rparr>"
  from assms obtain d u v where u: "(if uncertain s then Running (?s d) else remember_tm h p (?s d)) = Running u"
    and v: "open_listener os (if uncertain u then tm_listen_port (header (wk_log u)) else 0) u = Running v"
    and s': "s' = v\<lparr>wk_pc := (if uncertain v then TUncertain else TLoop)\<rparr>"
    unfolding tx_manager_spawn_def Let_def attempt_eq_Running bnd_eq_Running by auto
  have "same_log (?s d) u" using u remember_tm_same by (auto simp: same_log_def split: if_splits)
  then have "same_log (?s d) v" using open_listener_same [OF v] by (rule same_log_trans)
  then show "wk_store s' = wk_store s" "log_entries (wk_log s') = log_entries (wk_log s)"
    "log_room n (wk_log s') = log_room n (wk_log s)" "is_active s'" "wk_transaction s' = t"
    "wk_pc s' = (if uncertain s then TUncertain else TLoop)" "do_commit s'" "wk_out s' = wk_out s"
    "wk_delay s' = wk_delay s" "uncertain s' = uncertain s"
    by (simp_all add: same_log_def s')
  show "wk_server s' \<noteq> None"
    using v by (auto simp: s' open_listener_def attempt_eq_Running log_head_def Let_def)
qed

lemma enter_Running:
  assumes "wk_enter os c txt msg s = Running s'" and "\<not> is_active s" and "log_room (Suc n) (wk_log s)"
  shows "wk_store s' = wk_store s" "is_active s'" "wk_transaction s' = m_tid msg" "wk_pc s' = (if uncertain s then TUncertain else TLoop)"
    "\<exists>vc. log_entries (wk_log s') = log_entries (wk_log s) @ [txentry_init LOG_BEGIN (m_tid msg) vc]"
    "\<exists>d. wk_out s' = wk_out s @ [d] \<and> m_type (message_from_nbo (dg_msg d)) = cmd_code c \<and>
       m_tid (message_from_nbo (dg_msg d)) = m_tid msg"
    "do_commit s'" "wk_delay s' = wk_delay s" "wk_server s' \<noteq> None" "log_room n (wk_log s')"
    "uncertain s' = uncertain s"
proof -
  from assms(1,2) obtain u where u: "tx_manager_spawn os (m_strdata msg) (m_port msg) (m_tid msg) s = Running u"
    and rest: "bnd (wk_send os ((message_init (Some (wk_vclock u)))\<lparr>m_type := cmd_code c, m_tid := m_tid msg\<rparr>) u) (\<lambda>s.
       bnd (wk_append os (txentry_init LOG_BEGIN (wk_transaction s) (wk_vclock s)) s) (wk_viz_append os (txt @ fmt_d (m_tid msg)))) = Running s'"
    by (auto simp: wk_enter_def bnd_eq_Running split: if_splits)
  note sp = spawn_Running [OF u]
  have room: "log_room (Suc n) (wk_log u)" using assms(3) sp(3) by simp
  from rest obtain d v l where d: "server_send_to os (wk_server u) (wk_tm_host u) (wk_tm_port u)
      ((message_init (Some (wk_vclock u)))\<lparr>m_type := cmd_code c, m_tid := m_tid msg\<rparr>) = Inr d"
    and s': "s' = u\<lparr>wk_out := wk_out u @ [d], wk_log := put_entry (wk_log u) (txentry_init LOG_BEGIN (wk_transaction u) (wk_vclock u)), wk_viz := v\<rparr>"
    by (auto simp: bnd_eq_Running wk_send_def attempt_eq_Running wk_append_def txlog_append_put wk_viz_append_def
        shitviz_append_def split: if_splits)
  show "wk_store s' = wk_store s" "is_active s'" "wk_transaction s' = m_tid msg" "wk_pc s' = (if uncertain s then TUncertain else TLoop)"
    "\<exists>vc. log_entries (wk_log s') = log_entries (wk_log s) @ [txentry_init LOG_BEGIN (m_tid msg) vc]"
    "do_commit s'" "wk_delay s' = wk_delay s" "wk_server s' \<noteq> None" "log_room n (wk_log s')"
    "uncertain s' = uncertain s"
    using sp put_entry_room [OF room] by (auto simp: s')
  show "\<exists>d. wk_out s' = wk_out s @ [d] \<and> m_type (message_from_nbo (dg_msg d)) = cmd_code c \<and>
       m_tid (message_from_nbo (dg_msg d)) = m_tid msg"
    using sp(8) d by (auto simp: s' server_send_to_def dest!: server_send_Inr simp: nbo.dec_enc)
qed

section \<open>Updates\<close>

text \<open>The entry that saves the present values.\<close>

lemma log_old_live:
  assumes "os_ok os" and "store_wf (wk_store s)"
  obtains u where "wk_log_old os s = Running (wk_logged u s)" "is_update u" "old_vals u = obj_vals (wk_store s)"
    "e_transaction u = wk_transaction s" "id_fits (old_id u)" "e_vclock u = wk_vclock s"
proof -
  let ?e = "(txentry_init LOG_UPDATE (wk_transaction s) (wk_vclock s))
      \<lparr>old_a := objstore_get_a (wk_store s), old_b := objstore_get_b (wk_store s)\<rparr>"
  have "terminated (objstore_get_id (wk_store s))" "length (cstr (objstore_get_id (wk_store s))) < length (old_id ?e)"
    using assms(2) length_cstr_less [of "id_string (wk_store s)"] by (auto simp: store_wf_def objstore_get_id_def)
  from strcpy_ok [OF this] obtain d where d: "strcpy (old_id ?e) (objstore_get_id (wk_store s)) = Inr d"
    "cstr d = cstr (objstore_get_id (wk_store s))" "length d = IDLEN" "terminated d" by auto
  show thesis
  proof (rule that [of "?e\<lparr>old_id := d\<rparr>"])
    show "wk_log_old os s = Running (wk_logged (?e\<lparr>old_id := d\<rparr>) s)"
      using d(1) assms(1) by (simp add: wk_log_old_def)
    show "id_fits (old_id (?e\<lparr>old_id := d\<rparr>))" using id_fits_terminated [OF d(4,3)] by simp
  qed (use d(2) in \<open>simp_all add: is_update_def old_vals_def obj_vals_def objstore_defs\<close>)
qed

text \<open>An update inside a transaction: the old values are logged and the new one is stored.\<close>

lemma new_a_live:
  assumes "os_ok os" and "wk_wf (Suc n) s" and "is_active s" and "viz_fd (wk_viz s) \<noteq> None" and "obj_vals (wk_store s) = (x, y, z)"
  obtains s' u where "wk_new_a os msg s = Running s'" "log_entries (wk_log s') = log_entries (wk_log s) @ [u]" "is_update u"
    "old_vals u = (x, y, z)" "obj_vals (wk_store s') = (m_value msg, y, z)" "wk_wf n s'" "is_active s'"
    "wk_pc s' = wk_pc s" "uncertain s' = uncertain s" "wk_server s' = wk_server s" "viz_fd (wk_viz s') \<noteq> None"
    "wk_vclock s' = wk_vclock s" "node_id s' = node_id s" "h_vclock (header (wk_log s')) = e_vclock u"
    "e_vclock u = wk_vclock s"
proof -
  have room: "log_room (Suc n) (wk_log s)" and st: "store_wf (wk_store s)" using assms(2) by (simp_all add: wk_wf_def)
  obtain u where u: "wk_log_old os s = Running (wk_logged u s)" "is_update u" "old_vals u = obj_vals (wk_store s)" "id_fits (old_id u)"
    and vcu: "e_vclock u = wk_vclock s"
    using log_old_live [OF assms(1) st] by blast
  let ?st = "objstore_set_a (wk_store s) (m_value msg)"
  let ?s = "(wk_logged u s)\<lparr>wk_store := ?st\<lparr>lastUpdateTime := os_now os, o_vclock := wk_vclock s\<rparr>\<rparr>"
  have run: "wk_new_a os msg s = Running (wk_noted (''Set A = '' @ fmt_d (m_value msg)) ?s)"
    using assms(1,3,4) u(1) by (simp add: wk_new_a_def wk_sync_live objstore_defs wk_logged_def)
  have "obj_vals ?st = (m_value msg, y, z)" "store_wf ?st"
    using ob.vals_set_a [OF assms(5)] ob.wf_set_a [OF st] by simp_all
  then show thesis
    using put_entry_room [OF room, of u] u assms(2-5) vcu
    by (intro that [OF run, of u]) (simp_all add: wk_wf_def ids_ok_def wk_logged_def wk_noted_def)
qed

text \<open>
  The three updates alike: an entry with the old values, then new values \<open>v\<close>, and the same
  committed ones.
\<close>

definition saves_old :: "worker_state_t outcome \<Rightarrow> worker_state_t \<Rightarrow> u32 \<times> u32 \<times> string \<Rightarrow> bool" where
  "saves_old m s v \<longleftrightarrow> (\<exists>s' u. m = Running s' \<and> log_entries (wk_log s') = log_entries (wk_log s) @ [u] \<and>
     e_type u = log_code LOG_UPDATE \<and> e_transaction u = wk_transaction s \<and>
     (old_a u, old_b u, cstr (old_id u)) = obj_vals (wk_store s) \<and>
     obj_vals (wk_store s') = v \<and> committed_vals s' = committed_vals s)"

lemma saves_oldI:
  assumes "log_room (Suc n) (wk_log s)" and "is_update u" and "old_vals u = obj_vals (wk_store s)"
    and "e_transaction u = wk_transaction s" and "obj_vals st = v"
  shows "saves_old (Running (wk_noted x ((wk_logged u s)\<lparr>wk_store := st\<rparr>))) s v"
proof -
  let ?s = "wk_noted x ((wk_logged u s)\<lparr>wk_store := st\<rparr>)"
  have "log_entries (wk_log ?s) = log_entries (wk_log s) @ [u]" "obj_vals (wk_store ?s) = v"
    using put_entry_room(1) [OF assms(1), of u] assms(5) by (simp_all add: wk_noted_def wk_logged_def)
  moreover from this have "committed_vals ?s = committed_vals s"
    using assms(2,3) by (simp add: committed_vals_def)
  ultimately show ?thesis
    using assms(2-4) by (auto simp: saves_old_def is_update_def old_vals_def)
qed

lemma updates_save:
  assumes "os_ok os" and "wk_wf (Suc n) s" and "is_active s" and "viz_fd (wk_viz s) \<noteq> None" and "obj_vals (wk_store s) = (x, y, z)"
  shows "saves_old (wk_new_a os msg s) s (m_value msg, y, z)"
    and "saves_old (wk_new_b os msg s) s (x, m_value msg, z)"
    and "id_fits (m_strdata msg) \<Longrightarrow> saves_old (wk_new_id os msg s) s (x, y, cstr (m_strdata msg))"
proof -
  have room: "log_room (Suc n) (wk_log s)" and st: "store_wf (wk_store s)" using assms(2) by (simp_all add: wk_wf_def)
  obtain u where u: "wk_log_old os s = Running (wk_logged u s)" "is_update u" "old_vals u = obj_vals (wk_store s)"
    "e_transaction u = wk_transaction s"
    using log_old_live [OF assms(1) st] by blast
  note save = saves_oldI [OF room u(2-4)]
  have "wk_new_a os msg s = Running (wk_noted (''Set A = '' @ fmt_d (m_value msg)) ((wk_logged u s)\<lparr>wk_store :=
      (objstore_set_a (wk_store s) (m_value msg))\<lparr>lastUpdateTime := os_now os, o_vclock := wk_vclock s\<rparr>\<rparr>))"
    using assms(1,3,4) u(1) by (simp add: wk_new_a_def wk_sync_live objstore_defs wk_logged_def)
  then show "saves_old (wk_new_a os msg s) s (m_value msg, y, z)"
    using save ob.vals_set_a [OF assms(5)] by simp
  have "wk_new_b os msg s = Running (wk_noted (''Set B = '' @ fmt_d (m_value msg)) ((wk_logged u s)\<lparr>wk_store :=
      (objstore_set_b (wk_store s) (m_value msg))\<lparr>lastUpdateTime := os_now os, o_vclock := wk_vclock s\<rparr>\<rparr>))"
    using assms(1,3,4) u(1) by (simp add: wk_new_b_def wk_sync_live objstore_defs wk_logged_def)
  then show "saves_old (wk_new_b os msg s) s (x, m_value msg, z)"
    using save ob.vals_set_b [OF assms(5)] by simp
  assume fits: "id_fits (m_strdata msg)"
  let ?st = "objstore_set_id (wk_store s) (m_strdata msg)"
  have "terminated (objstore_get_id ?st)"
    using ob.wf_set_id [OF st fits] by (simp add: store_wf_def objstore_get_id_def)
  then have "wk_new_id os msg s = Running (wk_noted (''Set ID = '' @ cstr (objstore_get_id ?st)) ((wk_logged u s)\<lparr>wk_store := ?st\<rparr>))"
    using assms(3,4) u(1) by (simp add: wk_new_id_def wk_read_id_def wk_logged_def)
  then show "saves_old (wk_new_id os msg s) s (x, y, cstr (m_strdata msg))"
    using save ob.vals_set_id [OF fits assms(5)] by simp
qed

text \<open>If the process stops when it flushes the log, the store has not been touched.\<close>

lemma updates_log_first:
  assumes "is_active s" and "\<not> os_msync os"
  shows "wk_store (final (wk_new_a os msg s)) = wk_store s" and "wk_store (final (wk_new_b os msg s)) = wk_store s"
    and "wk_store (final (wk_new_id os msg s)) = wk_store s"
proof -
  have "\<exists>h l. wk_log_old os s = Halted h (s\<lparr>wk_log := l\<rparr>)"
  proof (cases "strcpy (replicate IDLEN NUL) (objstore_get_id (wk_store s))")
    case (Inl h)
    then show ?thesis by (intro exI [of _ h] exI [of _ "wk_log s"]) (simp add: wk_log_old_def Let_def)
  next
    case (Inr d)
    then show ?thesis using assms(2) by (simp add: wk_log_old_def Let_def wk_append_def txlog_append_put) blast
  qed
  then obtain h l where "wk_log_old os s = Halted h (s\<lparr>wk_log := l\<rparr>)" by blast
  then show "wk_store (final (wk_new_a os msg s)) = wk_store s" "wk_store (final (wk_new_b os msg s)) = wk_store s"
    "wk_store (final (wk_new_id os msg s)) = wk_store s"
    using assms(1) by (simp_all add: wk_new_a_def wk_new_b_def wk_new_id_def)
qed

lemma enter_live:
  assumes "os_ok os" and "os_malloc os" and "\<not> is_active s" and "fits_msg msg" and "viz_fd (wk_viz s) \<noteq> None"
    and "length (wk_tm_host s) = 64" and "length (tm_host (header (wk_log s))) = 64"
  shows "\<exists>s'. wk_enter os c txt msg s = Running s' \<and> cmd_server s' = cmd_server s \<and> node_id s' = node_id s \<and>
     wk_vclock s' = wk_vclock s \<and> viz_fd (wk_viz s') \<noteq> None"
proof -
  have h: "terminated (m_strdata msg)" "length (cstr (m_strdata msg)) < 64"
    using assms(4) length_cstr_less [of "m_strdata msg"] by (auto simp: fits_msg_def)
  obtain d where d: "strcpy (wk_tm_host s) (m_strdata msg) = Inr d" using strcpy_ok [OF h(1)] h(2) assms(6) by metis
  obtain d2 where d2: "strcpy (tm_host (header (wk_log s))) (m_strdata msg) = Inr d2"
    using strcpy_ok [OF h(1)] h(2) assms(7) by metis
  obtain srv where srv: "\<And>p. server_alloc os p 10 = Inr (srv p)"
    using assms(2) by (simp add: server_alloc_def)
  have "\<exists>u. tx_manager_spawn os (m_strdata msg) (m_port msg) (m_tid msg) s = Running u \<and> wk_server u \<noteq> None \<and>
      wk_viz u = wk_viz s \<and> cmd_server u = cmd_server s \<and> node_id u = node_id s \<and> wk_vclock u = wk_vclock s"
    using d d2 by (simp add: tx_manager_spawn_def remember_tm_def open_listener_def log_head_def srv Let_def)
  then obtain u where u: "tx_manager_spawn os (m_strdata msg) (m_port msg) (m_tid msg) s = Running u" "wk_server u \<noteq> None"
      "wk_viz u = wk_viz s" "cmd_server u = cmd_server s" "node_id u = node_id s" "wk_vclock u = wk_vclock s" by blast
  then show ?thesis
    using assms(1,3,5) by (simp add: wk_enter_def) (simp add: wk_effect_defs)
qed

section \<open>Starting\<close>

lemma wake_live:
  assumes "os_ok os" and "vc_lookup (wk_vclock s) (node_id s) = Some c" and "node_id s \<noteq> 0" and "store_wf (wk_store s)" and "os_map_store os"
  shows "\<exists>s'. wk_wake os s = Running s'"
proof -
  obtain vc where "vclock_increment (node_id s) (wk_vclock s) = Inr vc"
    using vc.tick_known [OF assms(2)] by blast
  moreover have "vclock_has (wk_vclock s) (node_id s)" using assms(2,3) by (simp add: vclock_has_iff)
  ultimately show ?thesis
    using assms(1,4,5)
    by (simp add: wk_wake_def wk_with_store_def objstore_mapped_def wk_read_id_def objstore_get_id_def store_wf_def wk_viz_append_def shitviz_append_def os_ok_def)
qed

lemma start_live:
  assumes "os_ok os" and "os_starts os \<and> os_map_store os" and "length argv = 2"
    and "vc_lookup (h_vclock (header log)) (ucast (fst (strtoul10 (argv ! 1)))) = Some c"
    and "ucast (fst (strtoul10 (argv ! 1))) \<noteq> (0 :: u32)"
    and "store_wf store" and "log_room (Suc n) log" and "ids_ok (log_entries log)"
    and "log_entries log \<noteq> []" and "is_update (last (log_entries log))"
  shows "\<exists>s. wk_main_start os w0 argv (Some store) (Some log) = Inr (Running s)"
proof -
  let ?s = "wk_init w0 (ucast (fst (strtoul10 (argv ! 1)))) store log"
  obtain s1 where s1: "wk_wake os ?s = Running s1"
    using wake_live [of os ?s c] assms(1,2,4-6) by (auto simp: os_starts_def wk_init_def txlog_read_clock_def)
  note wake = wk_wake_Running [OF s1]
  have wf: "wk_wf (Suc n) s1" using wake(1,3) assms(6-8) by (simp add: wk_wf_def wk_init_def)
  obtain s2 where "update_rollback os s1 = Running s2" using update_rollback_live [OF assms(1) wf] by blast
  then have "wk_recover os s1 = Running s2"
    using wk_recover_update [OF wf] wake(1) assms(9,10) by (simp add: wk_init_def)
  moreover obtain srv where "server_alloc os (node_id s2) 10 = Inr srv" using assms(2) by (simp add: server_alloc_def os_starts_def)
  ultimately have "wk_boot os ?s = Running (s2\<lparr>cmd_server := Some (snd (server_listen os srv))\<rparr>)"
    using s1 by (simp add: wk_boot_def)
  then show ?thesis using assms(2,3) by (simp add: wk_main_start_def os_starts_def txlog_mapped_def objstore_init_def txlog_open_def)
qed

lemma command_live:
  assumes "os_ok os" and "vc_lookup (wk_vclock s) (node_id s) = Some c" and "cmd_server s \<noteq> None" and "0 < len"
  shows "\<exists>vc. wk_command os (RDatagram len buf a) s = wk_handle os (message_from_nbo buf) (wk_clocked vc s) \<and>
     vc_lookup vc (node_id s) = Some (c + 1)"
proof -
  obtain vc where vc: "vclock_increment (node_id s) (wk_vclock s) = Inr vc" "vc_lookup vc = (vc_lookup (wk_vclock s))(node_id s \<mapsto> c + 1)"
    using vc.tick_known [OF assms(2)] by blast
  then show ?thesis
    using assms(1,3,4)
    by (auto simp: wk_command_def server_recv_def server_recv_timeout_def wk_write_clock_def txlog_write_clock_def
        txlog_sync_def os_ok_def wk_clocked_def)
qed

end
