(* ===== verification/TManagerDecide.thy ===== *)
theory TManagerDecide
  imports TManagerStart
begin

text \<open>
  What the manager does when the operating system does not fail it: which datagrams it sends,
  what it logs, what becomes of the table. A manager is \<open>live\<close> once its socket and its event
  log are open, as they are after the start.
\<close>

section \<open>Talking without failures\<close>

definition live :: "txmanager_t \<Rightarrow> bool" where
  "live s \<longleftrightarrow> tm_server s \<noteq> None \<and> viz_fd (tm_viz s) \<noteq> None"

definition noted :: "string \<Rightarrow> txmanager_t \<Rightarrow> txmanager_t" where
  "noted m s = s\<lparr>tm_viz := (tm_viz s)\<lparr>viz_events := viz_events (tm_viz s) @ [(tmgr_port s, m, tm_vclock s)]\<rparr>\<rparr>"

text \<open>A datagram as the manager sends it.\<close>

definition mgr_dgram :: "txmanager_t \<Rightarrow> sockaddr_in \<Rightarrow> message_t \<Rightarrow> datagram" where
  "mgr_dgram s a msg = \<lparr>dg_src = srv_port (the (tm_server s)), dg_dest = a, dg_msg = message_to_nbo msg\<rparr>"

definition posted :: "datagram list \<Rightarrow> txmanager_t \<Rightarrow> txmanager_t" where
  "posted ds s = s\<lparr>tm_out := tm_out s @ ds\<rparr>"

definition logged :: "txlog_entry_t \<Rightarrow> txmanager_t \<Rightarrow> txmanager_t" where
  "logged e s = s\<lparr>tm_log := put_entry (tm_log s) e\<rparr>"

lemmas effect_defs = noted_def posted_def logged_def upd_tx_def

lemma live_effects [simp]:
  "live (noted m s) = live s" "live (posted ds s) = live s" "live (logged e s) = live s"
  "live (upd_tx i f s) = live s" "live (s\<lparr>tm_vclock := vc\<rparr>) = live s"
  "live (s\<lparr>abort_crash := b\<rparr>) = live s" "live (s\<lparr>commit_crash := b\<rparr>) = live s"
  by (simp_all add: live_def effect_defs)

lemma effect_fields [simp]:
  "tm_server (noted m s) = tm_server s" "tm_server (posted ds s) = tm_server s" "tm_server (logged e s) = tm_server s"
  "tm_log (noted m s) = tm_log s" "tm_log (posted ds s) = tm_log s" "tm_log (logged e s) = put_entry (tm_log s) e"
  "tm_vclock (noted m s) = tm_vclock s" "tm_vclock (posted ds s) = tm_vclock s" "tm_vclock (logged e s) = tm_vclock s"
  "transactions (noted m s) = transactions s" "transactions (posted ds s) = transactions s"
  "transactions (logged e s) = transactions s"
  "tm_out (noted m s) = tm_out s" "tm_out (posted ds s) = tm_out s @ ds" "tm_out (logged e s) = tm_out s"
  "commit_crash (noted m s) = commit_crash s" "commit_crash (posted ds s) = commit_crash s"
  "commit_crash (logged e s) = commit_crash s"
  "abort_crash (noted m s) = abort_crash s" "abort_crash (posted ds s) = abort_crash s"
  "abort_crash (logged e s) = abort_crash s"
  "tmgr_port (noted m s) = tmgr_port s" "tmgr_port (posted ds s) = tmgr_port s" "tmgr_port (logged e s) = tmgr_port s"
  by (simp_all add: effect_defs)

lemma tm_viz_live [simp]: "live s \<Longrightarrow> tm_viz_append os m s = Running (noted m s)"
  by (auto simp: tm_viz_append_def shitviz_append_def live_def noted_def)

lemma tm_send_live [simp]:
  "live s \<Longrightarrow> os_ok os \<Longrightarrow> tm_send os a msg s = Running (posted [mgr_dgram s a msg] s)"
  by (auto simp: tm_send_def server_send_def live_def os_ok_def mgr_dgram_def posted_def)

lemma tm_append_live [simp]: "os_ok os \<Longrightarrow> tm_append os e s = Running (logged e s)"
  by (simp add: tm_append_def txlog_append_put os_ok_def logged_def)

lemma mgr_dgram_cong [simp]:
  "mgr_dgram (noted m s) = mgr_dgram s" "mgr_dgram (posted ds s) = mgr_dgram s" "mgr_dgram (logged e s) = mgr_dgram s"
  "mgr_dgram (upd_tx i f s) = mgr_dgram s" "mgr_dgram (s\<lparr>tm_vclock := vc\<rparr>) = mgr_dgram s"
  by (simp_all add: mgr_dgram_def fun_eq_iff)

text \<open>One message to every worker of a transaction.\<close>

definition to_workers :: "txmanager_t \<Rightarrow> message_t \<Rightarrow> worker_t list \<Rightarrow> datagram list" where
  "to_workers s msg ws = map (\<lambda>w. mgr_dgram s (w_address w) msg) (filter (\<lambda>w. nid w \<noteq> 0) ws)"

lemma to_workers_cong [simp]:
  "to_workers (noted m s) = to_workers s" "to_workers (posted ds s) = to_workers s"
  "to_workers (logged e s) = to_workers s" "to_workers (upd_tx i f s) = to_workers s"
  "to_workers (s\<lparr>tm_vclock := vc\<rparr>) = to_workers s"
  by (simp_all add: to_workers_def fun_eq_iff)

lemma posted_posted [simp]: "posted ds (posted es s) = posted (es @ ds) s" "posted [] s = s"
  by (simp_all add: posted_def)

lemma send_workers_live:
  "live s \<Longrightarrow> os_ok os \<Longrightarrow> send_workers os ws msg s = Running (posted (to_workers s msg ws) s)"
proof (induction ws arbitrary: s)
  case (Cons w ws)
  then show ?case by (auto simp: to_workers_def)
qed (simp add: to_workers_def)

lemma sendToAll_live [simp]:
  "live s \<Longrightarrow> os_ok os \<Longrightarrow>
     sendToAllWorkers os i msg s = Running (posted (to_workers s msg (t_nodes (transactions s ! i))) s)"
  by (simp add: sendToAllWorkers_def send_workers_live)

text \<open>A refusal: the texts of the source all fit.\<close>

definition refusal :: "txmanager_t \<Rightarrow> string \<Rightarrow> message_t" where
  "refusal s txt = (message_init (Some (tm_vclock s)))\<lparr>m_type := cmd_code TX_ERROR, m_value := 1,
     m_strdata := lit txt @ drop (Suc (length txt)) (m_strdata (message_init (Some (tm_vclock s))))\<rparr>"

lemma tm_error_live [simp]:
  assumes "live s" and "os_ok os" and "NUL \<notin> set txt" and "length txt < 64"
  shows "tm_error os a txt s = Running (posted [mgr_dgram s a (refusal s txt)] s)"
  using assms by (simp add: tm_error_def strcpy_def refusal_def lit_def terminated_def Let_def)


section \<open>The decision about a transaction\<close>

text \<open>A message of the given type, as the manager builds it.\<close>

definition mgr_msg :: "cmdType \<Rightarrow> txmanager_t \<Rightarrow> message_t" where
  "mgr_msg ty s = (message_init (Some (tm_vclock s)))\<lparr>m_type := cmd_code ty\<rparr>"

lemma mgr_msg_cong [simp]:
  "mgr_msg ty (noted m s) = mgr_msg ty s" "mgr_msg ty (posted ds s) = mgr_msg ty s"
  "mgr_msg ty (logged e s) = mgr_msg ty s" "mgr_msg ty (upd_tx i f s) = mgr_msg ty s"
  by (simp_all add: mgr_msg_def)

lemma mgr_msg_fields [simp]: "m_type (mgr_msg ty s) = cmd_code ty" "m_tid (mgr_msg ty s) = 0"
  by (simp_all add: mgr_msg_def)

lemma upd_tx_nth [simp]: "i < length (transactions s) \<Longrightarrow> transactions (upd_tx i f s) ! i = f (transactions s ! i)"
  by (simp add: upd_tx_def)

lemma findTransaction_upd:
  assumes "\<And>tx. t_tid (f tx) = t_tid tx"
  shows "findTransaction t (upd_tx i f s) = findTransaction t s"
proof -
  have "map t_tid ((transactions s)[i := f (transactions s ! i)]) = map t_tid (transactions s)"
    using assms by (cases "i < length (transactions s)") (auto simp: map_update intro!: nth_equalityI simp: nth_list_update)
  moreover have "first_index (\<lambda>tx. t_tid tx = t) xs = first_index (\<lambda>x. x = t) (map t_tid xs)" for xs
    by (induction xs) auto
  ultimately show ?thesis unfolding findTransaction_def upd_tx_fields by metis
qed

lemma findTransaction_effects [simp]:
  "findTransaction t (noted m s) = findTransaction t s" "findTransaction t (posted ds s) = findTransaction t s"
  "findTransaction t (logged e s) = findTransaction t s"
  "findTransaction t (s\<lparr>tm_vclock := vc\<rparr>) = findTransaction t s"
  "findTransaction t (s\<lparr>commit_crash := b\<rparr>) = findTransaction t s"
  "findTransaction t (s\<lparr>abort_crash := b\<rparr>) = findTransaction t s"
  by (simp_all add: findTransaction_def)

text \<open>A vote that is not the last one.\<close>

lemma tm_prepared_waits:
  assumes "live s" and "findTransaction (m_tid msg) s = Some i" and "t_state (transactions s ! i) \<noteq> ABORT_STATE"
    and "nodeCount (transactions s ! i) \<noteq> 1"
  shows "tm_prepared os msg a s =
     Running (noted ''Worker sent prepared'' (upd_tx i (\<lambda>tx. tx\<lparr>nodeCount := nodeCount tx - 1\<rparr>) s))"
  using assms findTransaction_SomeD [OF assms(2)] by (simp add: tm_prepared_def Let_def del: upd_tx_fields)

text \<open>The last vote.\<close>

definition committed :: "nat \<Rightarrow> txmanager_t \<Rightarrow> txmanager_t" where
  "committed i s = (let s' = noted ''COMMIT'' (upd_tx i (\<lambda>tx. tx\<lparr>nodeCount := 0, t_state := COMMIT_STATE\<rparr>) s)
     in logged (txentry_init LOG_COMMIT (t_tid (transactions s ! i)) (tm_vclock s)) s')"

lemma tm_prepared_last:
  assumes "live s" and "os_ok os" and "findTransaction (m_tid msg) s = Some i"
    and "t_state (transactions s ! i) \<noteq> ABORT_STATE" and "nodeCount (transactions s ! i) = 1"
  shows "tm_prepared os msg a s = (if commit_crash s then Halted (Exit 1) (committed i s)
     else Running (posted (to_workers s (mgr_msg COMMIT s) (t_nodes (transactions s ! i))) (committed i s)))"
proof -
  have i: "i < length (transactions s)" using findTransaction_SomeD [OF assms(3)] by simp
  have two: "upd_tx i (\<lambda>tx. tx\<lparr>t_state := COMMIT_STATE\<rparr>) (upd_tx i (\<lambda>tx. tx\<lparr>nodeCount := nodeCount tx - 1\<rparr>) s) =
      upd_tx i (\<lambda>tx. tx\<lparr>nodeCount := 0, t_state := COMMIT_STATE\<rparr>) s"
    using i assms(5) by (simp add: upd_tx_def)
  show ?thesis
    using assms i
    by (simp add: tm_prepared_def tm_decide_def two committed_def mgr_msg_def Let_def)
qed

text \<open>An abort request.\<close>

definition aborted :: "nat \<Rightarrow> txmanager_t \<Rightarrow> txmanager_t" where
  "aborted i s = logged (txentry_init LOG_ABORT (t_tid (transactions s ! i)) (tm_vclock s))
     (noted ''ABORT'' (upd_tx i (\<lambda>tx. tx\<lparr>t_state := ABORT_STATE\<rparr>) s))"

lemma tm_abort_live:
  assumes "live s" and "os_ok os" and "findTransaction (m_tid msg) s = Some i"
  shows "tm_abort os msg a s = (if abort_crash s then Halted (Exit 1) (aborted i s)
     else Running (posted (to_workers s (mgr_msg ABORT s) (t_nodes (transactions s ! i))) (aborted i s)))"
  using assms findTransaction_SomeD [OF assms(3)]
  by (simp add: tm_abort_def aborted_def mgr_msg_def)

section \<open>Answering from the log\<close>

text \<open>The decision the log holds for a transaction: what its last entry says.\<close>

definition answer :: "txlog_entry_t list \<Rightarrow> u32 \<Rightarrow> cmdType option" where
  "answer es t = (case find (\<lambda>e. e_transaction e = t) (rev es) of
       None \<Rightarrow> None
     | Some e \<Rightarrow> if e_type e = log_code LOG_COMMIT then Some COMMIT
                 else if e_type e = log_code LOG_ABORT then Some ABORT else None)"

lemma find_rev_types:
  "(case find (\<lambda>e. e_transaction e = t) (rev es) of None \<Rightarrow> tx_types es t = []
    | Some e \<Rightarrow> tx_types es t \<noteq> [] \<and> e_type e = last (tx_types es t) \<and> e_transaction e = t)"
proof (induction es rule: rev_induct)
  case (snoc e es)
  then show ?case by (auto split: option.splits)
qed simp

lemma answer_last:
  "answer es t = (if tx_types es t = [] then None
     else if last (tx_types es t) = log_code LOG_COMMIT then Some COMMIT
     else if last (tx_types es t) = log_code LOG_ABORT then Some ABORT else None)"
  using find_rev_types [of es t] by (auto simp: answer_def split: option.splits)

lemma answer_append [simp]:
  "answer (es @ [e]) t = (if e_transaction e \<noteq> t then answer es t
     else if e_type e = log_code LOG_COMMIT then Some COMMIT
     else if e_type e = log_code LOG_ABORT then Some ABORT else None)"
  by (simp add: answer_def)

text \<open>The datagram with that decision, if there is one.\<close>

definition reply :: "txmanager_t \<Rightarrow> u32 \<Rightarrow> sockaddr_in \<Rightarrow> datagram list" where
  "reply s t a = (case answer (log_entries (tm_log s)) t of None \<Rightarrow> []
     | Some d \<Rightarrow> [mgr_dgram s a ((message_init (Some (tm_vclock s)))\<lparr>m_tid := t, m_type := cmd_code d\<rparr>)])"

text \<open>The manager has only talked: the datagrams \<open>ds\<close> went out, and perhaps an event was noted.\<close>

definition says :: "datagram list \<Rightarrow> txmanager_t \<Rightarrow> txmanager_t \<Rightarrow> bool" where
  "says ds s s' \<longleftrightarrow> core s' = core s \<and> tm_out s' = tm_out s @ ds \<and> live s'"

lemma core_effects [simp]: "core (noted m s) = core s" "core (posted ds s) = core s"
  by (simp_all add: core_def effect_defs)

lemma says_effects [simp]:
  "says ds s (noted m s') = says ds s s'" "live s \<Longrightarrow> says ds s (posted ds s)" "live s \<Longrightarrow> says [] s s"
  by (auto simp: says_def)

lemma from_log_live:
  assumes "live s" and "os_ok os" and "log_room n (tm_log s)"
  shows "\<exists>s'. tm_ask os msg a s = Running s' \<and> says (reply s (m_tid msg) a) s s'"
    and "\<exists>s'. checkTransactionLog os t a s = Running s' \<and> says (reply s t a) s s'"
proof -
  note last = tl.last_tx_find [OF assms(3)]
  show "\<exists>s'. tm_ask os msg a s = Running s' \<and> says (reply s (m_tid msg) a) s s'"
    using assms find_rev_types [of "log_entries (tm_log s)" "m_tid msg"]
    by (auto simp: tm_ask_def last reply_def answer_def log_of_eq_Some Let_def
        split: option.splits logEntryType.splits)
  show "\<exists>s'. checkTransactionLog os t a s = Running s' \<and> says (reply s t a) s s'"
    using assms find_rev_types [of "log_entries (tm_log s)" t]
    by (auto simp: checkTransactionLog_def last reply_def answer_def log_of_eq_Some Let_def
        split: option.splits logEntryType.splits)
qed

text \<open>After a start every transaction that was ever begun has an answer.\<close>

lemma answer_restored:
  assumes "mgr_log es" and "tx_types es t \<noteq> []"
  shows "answer (restored vc es) t = Some (if last (tx_types es t) = log_code LOG_COMMIT then COMMIT else ABORT)"
proof -
  have "tx_types (restored vc es) t \<noteq> []" using assms(2) by (simp add: restored_def)
  moreover have "last (tx_types es t) \<noteq> log_code LOG_COMMIT" if "t \<in> set (undecided es)"
  proof -
    from undecided_history [OF that] obtain xs ys where "tx_types es t = xs @ log_code LOG_BEGIN # ys"
      "log_code LOG_COMMIT \<notin> set ys" by blast
    then show ?thesis by (cases ys rule: rev_cases) auto
  qed
  ultimately show ?thesis
    using assms last_of_decided [OF assms(1)] by (auto simp: answer_last last_restored)
qed

section \<open>Votes\<close>

text \<open>Votes that leave at least one outstanding: nothing is logged and nothing is sent.\<close>

abbreviation cast_votes ::
  "(os_t \<times> message_t \<times> sockaddr_in) list \<Rightarrow> txmanager_t \<Rightarrow> txmanager_t outcome" where
  "cast_votes \<equiv> run_machine (\<lambda>(os, msg, a). tm_prepared os msg a)"

lemma votes_wait:
  assumes "live s" and "findTransaction t s = Some i" and "t_state (transactions s ! i) \<noteq> ABORT_STATE"
    and "length vs < unat (nodeCount (transactions s ! i))" and "\<forall>(os, msg, a) \<in> set vs. m_tid msg = t"
  shows "\<exists>s'. cast_votes vs s = Running s' \<and> live s' \<and> tm_log s' = tm_log s \<and> tm_out s' = tm_out s \<and>
     tm_vclock s' = tm_vclock s \<and> tm_server s' = tm_server s \<and> commit_crash s' = commit_crash s \<and>
     findTransaction t s' = Some i \<and> t_state (transactions s' ! i) \<noteq> ABORT_STATE \<and>
     t_nodes (transactions s' ! i) = t_nodes (transactions s ! i) \<and>
     unat (nodeCount (transactions s' ! i)) = unat (nodeCount (transactions s ! i)) - length vs"
  using assms
proof (induction vs arbitrary: s)
  case (Cons v vs)
  obtain os msg a where v: "v = (os, msg, a)" by (cases v)
  let ?f = "\<lambda>tx. tx\<lparr>nodeCount := nodeCount tx - 1\<rparr>"
  let ?s = "noted ''Worker sent prepared'' (upd_tx i ?f s)"
  have i: "i < length (transactions s)" using findTransaction_SomeD [OF Cons.prems(2)] by simp
  have two: "nodeCount (transactions s ! i) \<noteq> 1" "nodeCount (transactions s ! i) \<noteq> 0"
    using Cons.prems(4) by auto
  have run: "cast_votes (v # vs) s = cast_votes vs ?s"
    using Cons.prems two tm_prepared_waits [of s msg i os a] by (simp add: v)
  have cnt: "unat (nodeCount (transactions ?s ! i)) = unat (nodeCount (transactions s ! i)) - 1"
    using i two by (simp add: unat_minus_one)
  show ?case
    unfolding run using Cons.IH [of ?s] Cons.prems i cnt by (auto simp: findTransaction_upd)
qed simp

section \<open>Begin, join and commit requests\<close>

definition reusable :: "transaction_t \<Rightarrow> bool" where
  "reusable tx \<longleftrightarrow> t_tid tx = 0 \<or> t_state tx = COMMIT_STATE \<or> t_state tx = ABORT_STATE"

lemma first_index_cong: "(\<And>x. x \<in> set xs \<Longrightarrow> P x = Q x) \<Longrightarrow> first_index P xs = first_index Q xs"
  by (induction xs) auto

lemma addTransaction_new:
  assumes "\<forall>tx \<in> set (transactions s). t_tid tx \<noteq> t"
  shows "addTransaction os t a s = (case first_index reusable (transactions s) of
      Some i \<Rightarrow> (Some i, Running (upd_tx i (\<lambda>_. new_transaction t a) s))
    | None \<Rightarrow> (None, bnd (tm_error os a ''Transaction queue full'' s) (tm_viz_append os ''Transaction is full'')))"
proof -
  have "first_index (\<lambda>tx. t_tid tx = t \<or> t_state tx = COMMIT_STATE \<or> t_state tx = ABORT_STATE \<or> t_tid tx = 0)
      (transactions s) = first_index reusable (transactions s)"
    using assms by (intro first_index_cong) (auto simp: reusable_def)
  then show ?thesis
    using assms by (auto simp: addTransaction_def dest!: first_index_less nth_mem split: option.splits)
qed

lemma tm_begin_live:
  assumes "live s" and "os_ok os" and "tm_inv n s" and "m_tid msg \<noteq> 0"
  shows "tm_begin os msg a s =
     (if tx_types (log_entries (tm_log s)) (m_tid msg) \<noteq> []
      then Running (noted ''TID Exists'' (posted [mgr_dgram s a (refusal s ''TID already exists'')] s))
      else (case first_index reusable (transactions s) of
         None \<Rightarrow> Running (noted ''BEGINTX Failed'' (noted ''Transaction is full''
                   (posted [mgr_dgram s a (refusal s ''Transaction queue full'')] s)))
       | Some i \<Rightarrow> Running (logged (txentry_init LOG_BEGIN (m_tid msg) (tm_vclock s))
                     (noted ''BEGINTX'' (upd_tx i (\<lambda>_. new_transaction (m_tid msg) a) s)))))"
proof -
  have room: "log_room n (tm_log s)" using assms(3) by (simp add: tm_inv_def)
  have free: "txlog_free_id os (tm_log s) (m_tid msg) \<longleftrightarrow> tx_types (log_entries (tm_log s)) (m_tid msg) = []"
    by (simp add: tl.free_id_unused [OF room] tx_types_eq_Nil)
  have "\<forall>tx \<in> set (transactions s). t_tid tx \<noteq> m_tid msg" if "txlog_free_id os (tm_log s) (m_tid msg)"
    using agree.free_id_not_in_table [of n s os "m_tid msg"] assms(3,4) that by (auto simp: agree_inv) (metis image_eqI)
  then show ?thesis
    using assms(1,2) free by (auto simp: tm_begin_def addTransaction_new split: option.splits)
qed

text \<open>
  The same for every id. Only id 0 can be that of the slot it would go to, since free slots carry
  it; then it is refused although nothing of that id was ever begun.
\<close>

lemma tm_begin_any:
  assumes "live s" and "os_ok os" and "tm_inv n s"
  shows "tm_begin os msg a s =
     (if tx_types (log_entries (tm_log s)) (m_tid msg) \<noteq> []
      then Running (noted ''TID Exists'' (posted [mgr_dgram s a (refusal s ''TID already exists'')] s))
      else (case first_index reusable (transactions s) of
         None \<Rightarrow> Running (noted ''BEGINTX Failed'' (noted ''Transaction is full''
                   (posted [mgr_dgram s a (refusal s ''Transaction queue full'')] s)))
       | Some i \<Rightarrow> if t_tid (transactions s ! i) = m_tid msg
           then Running (noted ''BEGINTX Failed'' (noted ''TID already exists''
                  (posted [mgr_dgram s a (refusal s ''TID already exists'')] s)))
           else Running (logged (txentry_init LOG_BEGIN (m_tid msg) (tm_vclock s))
                  (noted ''BEGINTX'' (upd_tx i (\<lambda>_. new_transaction (m_tid msg) a) s)))))"
proof (cases "m_tid msg = 0")
  case True
  have room: "log_room n (tm_log s)" using assms(3) by (simp add: tm_inv_def)
  have free: "txlog_free_id os (tm_log s) 0 \<longleftrightarrow> tx_types (log_entries (tm_log s)) 0 = []"
    by (simp add: tl.free_id_unused [OF room] tx_types_eq_Nil)
  have "first_index (\<lambda>tx. t_tid tx = 0 \<or> t_state tx = COMMIT_STATE \<or> t_state tx = ABORT_STATE \<or> t_tid tx = 0)
      (transactions s) = first_index reusable (transactions s)"
    by (intro first_index_cong) (auto simp: reusable_def)
  then show ?thesis
    using assms(1,2) free True by (auto simp: tm_begin_def addTransaction_def split: option.splits)
next
  case False
  have room: "log_room n (tm_log s)" using assms(3) by (simp add: tm_inv_def)
  have "t_tid (transactions s ! i) \<noteq> m_tid msg"
    if "tx_types (log_entries (tm_log s)) (m_tid msg) = []" "first_index reusable (transactions s) = Some i" for i
  proof -
    have "txlog_free_id os (tm_log s) (m_tid msg)"
      using that(1) by (simp add: tl.free_id_unused [OF room] tx_types_eq_Nil)
    then show ?thesis
      using agree.free_id_not_in_table [of n s os "m_tid msg"] assms(3) False first_index_SomeD [OF that(2)]
      by (auto simp: agree_inv) (metis image_eqI nth_mem)
  qed
  then show ?thesis using tm_begin_live [OF assms False, of a] by (auto split: option.split)
qed

lemma tm_commit_live:
  assumes "live s" and "os_ok os" and "findTransaction (m_tid msg) s = Some i"
  shows "tm_commit os msg a s =
     (if t_state (transactions s ! i) = PREPARE_STATE then Running (noted ''Transaction in prepare state'' s)
      else Running (posted (to_workers s (mgr_msg PREPARE_TO_COMMIT s) (t_nodes (transactions s ! i)))
             (noted ''Prepare to commit'' (upd_tx i (\<lambda>tx. tx\<lparr>t_state := PREPARE_STATE\<rparr>) s))))"
  using assms findTransaction_SomeD [OF assms(3)] by (simp add: tm_commit_def mgr_msg_def Let_def)

lemma tm_join_live:
  assumes "live s" and "os_ok os" and "findTransaction (m_tid msg) s = Some i"
  shows "tm_join os msg a s =
     (if t_state (transactions s ! i) \<noteq> BEGIN_STATE
      then Running (noted ''JOINTX Failed'' (posted [mgr_dgram s a
             (refusal s ''Transaction was already completed or is preparing to commit'')] s))
      else (case first_index (\<lambda>w. nid w = 0) (t_nodes (transactions s ! i)) of
         None \<Rightarrow> Running (noted ''JOINTX failed'' (posted [mgr_dgram s a
                   (refusal s ''Transaction could not be joined'')] s))
       | Some k \<Rightarrow> Running (noted ''Worker joined'' (upd_tx i (\<lambda>tx. tx\<lparr>
                     t_nodes := (t_nodes tx)[k := \<lparr>nid = port_of a, w_address = a\<rparr>],
                     nodeCount := nodeCount tx + 1\<rparr>) s))))"
  using assms
  by (cases "t_state (transactions s ! i)") (auto simp: tm_join_def joinTransaction_def split: option.splits)

section \<open>What can stop the manager\<close>

lemma tm_handle_live:
  assumes "live s" and "os_ok os" and "tm_inv n s" and "tm_handle os msg a s = Halted h s'"
  shows "(m_type msg = cmd_code PREPARED \<and> findTransaction (m_tid msg) s = None \<and> h = SegFault) \<or>
     (m_type msg = cmd_code PREPARED \<and> commit_crash s \<and> h = Exit 1) \<or>
     (m_type msg = cmd_code ABORT \<and> abort_crash s \<and> h = Exit 1)"
proof -
  have room: "log_room n (tm_log s)" using assms(3) by (simp add: tm_inv_def)
  note log = from_log_live [OF assms(1,2) room]
  have ask: "running (tm_ask os msg a s)" and check: "running (checkTransactionLog os (m_tid msg) a s)"
    using log(1) [of msg a] log(2) [of "m_tid msg" a] by auto
  have commit: "running (tm_commit os msg a s)"
    using check tm_commit_live [OF assms(1,2)] by (cases "findTransaction (m_tid msg) s") (simp_all add: tm_commit_def)
  have join: "running (tm_join os msg a s)"
    using check tm_join_live [OF assms(1,2)]
    by (cases "findTransaction (m_tid msg) s") (auto simp: tm_join_def split: option.splits)
  have abort: "running (tm_abort os msg a s)" if "\<not> abort_crash s"
    using check that tm_abort_live [OF assms(1,2)] by (cases "findTransaction (m_tid msg) s") (simp_all add: tm_abort_def)
  have "tm_abort os msg a s = Halted h s' \<Longrightarrow> h = Exit 1"
    using check tm_abort_live [OF assms(1,2)]
    by (cases "findTransaction (m_tid msg) s") (auto simp: tm_abort_def split: if_splits)
  moreover have "running (tm_begin os msg a s)"
    using assms(1,2) by (auto simp: tm_begin_def addTransaction_def split: option.splits)
  moreover have "tm_prepared os msg a s = Halted h s' \<Longrightarrow>
      findTransaction (m_tid msg) s = None \<and> h = SegFault \<or> commit_crash s \<and> h = Exit 1"
  proof (cases "findTransaction (m_tid msg) s")
    case None
    moreover obtain s1 where "checkTransactionLog os (m_tid msg) a s = Running s1" using log(2) by blast
    ultimately show "tm_prepared os msg a s = Halted h s' \<Longrightarrow> ?thesis" by (simp add: tm_prepared_def)
  next
    case (Some i)
    then show "tm_prepared os msg a s = Halted h s' \<Longrightarrow> ?thesis"
      using tm_prepared_last [OF assms(1,2) Some, of a] tm_prepared_waits [OF assms(1) Some, of os a] assms(1,2)
      by (cases "t_state (transactions s ! i) = ABORT_STATE"; cases "nodeCount (transactions s ! i) = 1")
        (auto simp: tm_prepared_def split: if_splits)
  qed
  ultimately show ?thesis
    using assms(1,4) ask commit join abort
    by (auto simp: tm_handle_def cmd_of_eq_Some split: option.splits cmdType.splits)
qed

section \<open>Starting\<close>

text \<open>A start on a log whose clock knows the manager gets into the loop.\<close>

lemma start_runs:
  assumes "os_starts os" and "os_ok os" and "length argv = 2"
    and "vc_lookup (txlog_read_clock log) (atoi (argv ! 1)) = Some c"
    and "log_room (length (undecided (log_entries log))) log"
  shows "\<exists>s. tm_main_start os argv (Some log) = Inr (Running s) \<and> vc_lookup (tm_vclock s) (tmgr_port s) = Some c"
proof -
  obtain srv where srv: "server_alloc os (atoi (argv ! 1)) 10 = Inr srv"
    using assms(1) by (simp add: server_alloc_def os_starts_def)
  let ?s = "tm_init os (atoi (argv ! 1)) log srv"
  obtain v where v: "tm_viz_append os ''Started manager'' ?s = Running (?s\<lparr>tm_viz := v\<rparr>)"
    using assms(2) by (auto simp: tm_viz_append_def shitviz_append_def os_ok_def)
  obtain l where "restoreTransactions os (?s\<lparr>tm_viz := v\<rparr>) = Running (?s\<lparr>tm_viz := v, tm_log := l\<rparr>)"
    using restoreTransactions_spec [of 0 "?s\<lparr>tm_viz := v\<rparr>" os] assms(2,5) by (auto simp: tm_init_def os_ok_def)
  moreover have "atoi (argv ! 1) \<noteq> 0" using assms(4) by (metis option.distinct(1) vc_lookup_0)
  then have "vclock_has (txlog_read_clock log) (atoi (argv ! 1))"
    using assms(4) by (auto simp: vclock_has_def vc_lookup_first_index)
  then have "?s\<lparr>tm_vclock := tm_vclock ?s\<rparr> = ?s" "vclock_has (tm_vclock ?s) (tmgr_port ?s)" by (simp_all add: tm_init_def)
  ultimately have "tm_boot os ?s = Running (?s\<lparr>tm_viz := v, tm_log := l\<rparr>)"
    using v by (simp add: tm_boot_def)
  then show ?thesis using assms srv by (auto simp: tm_main_start_def os_starts_def txlog_open_def txlog_mapped_def tm_init_def)
qed

end
