(* ===== verification/Round.thy ===== *)
theory Round
  imports System TWorkerLive TManagerDecide
begin

text \<open>
  A round of two-phase commit, from the request to prepare to the end: every worker votes, the
  manager counts the votes and decides, every worker learns of the decision. What the single
  processes do without failures is put together to runs of the system.
\<close>

section \<open>Workers one after the other\<close>

text \<open>
  If each of the workers \<open>ks\<close> can make a step of its thread with a datagram that is on the
  network, then all of them can, one after the other.
\<close>

definition can_step :: "(nat \<Rightarrow> u32) \<Rightarrow> system \<Rightarrow> (worker_state_t \<Rightarrow> worker_state_t \<Rightarrow> bool) \<Rightarrow> nat \<Rightarrow> bool" where
  "can_step ip S Q k \<longleftrightarrow> (\<exists>w os len buf a srv w'. wks S k = Running w \<and> log_room 1 (wk_log w) \<and> wk_server w = Some srv \<and>
     (sock_addr (ip k) (srv_port srv), buf) \<in> to_wk S \<and>
     wk_step (TxThread, os, RDatagram len buf a) w = Running w' \<and> Q w w')"

definition stepped :: "(nat \<Rightarrow> u32) \<Rightarrow> system \<Rightarrow> system \<Rightarrow> (worker_state_t \<Rightarrow> worker_state_t \<Rightarrow> bool) \<Rightarrow> nat \<Rightarrow> bool" where
  "stepped ip S S' Q k \<longleftrightarrow> (\<exists>w w'. wks S k = Running w \<and> wks S' k = Running w' \<and> Q w w' \<and>
     wk_sent (ip k) (Running w') \<subseteq> to_mgr S')"

lemma workers_step:
  assumes "distinct ks" and "\<forall>k \<in> set ks. can_step ip S (Q k) k"
  shows "\<exists>S'. (sys_step opens boots ip)\<^sup>*\<^sup>* S S' \<and> mgr S' = mgr S \<and> to_wk S' = to_wk S \<and> to_mgr S \<subseteq> to_mgr S' \<and>
     (\<forall>k. k \<notin> set ks \<longrightarrow> wks S' k = wks S k) \<and> (\<forall>k \<in> set ks. stepped ip S S' (Q k) k)"
  using assms
proof (induction ks arbitrary: S)
  case (Cons k ks)
  obtain w os len buf a srv w' where w: "wks S k = Running w" "log_room 1 (wk_log w)" "wk_server w = Some srv"
    "(sock_addr (ip k) (srv_port srv), buf) \<in> to_wk S" "wk_step (TxThread, os, RDatagram len buf a) w = Running w'" "Q k w w'"
    using Cons.prems(2) by (auto simp: can_step_def)
  let ?S = "wk_goes ip k (Running w') S"
  have step: "sys_step opens boots ip S ?S"
    using sys_step.wk_iterates [of S k w "RDatagram len buf a" ip opens boots os] w by simp
  have S: "wks ?S j = (if j = k then Running w' else wks S j)" "mgr ?S = mgr S" "to_wk ?S = to_wk S"
    "to_mgr ?S = to_mgr S \<union> wk_sent (ip k) (Running w')" for j
    by simp_all
  have "\<forall>j \<in> set ks. can_step ip ?S (Q j) j"
    using Cons.prems by (auto simp: can_step_def S)
  then obtain S' where S': "(sys_step opens boots ip)\<^sup>*\<^sup>* ?S S'" "mgr S' = mgr S" "to_wk S' = to_wk S" "to_mgr ?S \<subseteq> to_mgr S'"
    "\<forall>j. j \<notin> set ks \<longrightarrow> wks S' j = wks ?S j" "\<forall>j \<in> set ks. stepped ip ?S S' (Q j) j"
    using Cons.IH [of ?S] Cons.prems(1) by (auto simp: S)
  have "stepped ip S S' (Q k) k"
    using w(1,6) S'(4,5) Cons.prems(1) by (auto simp: stepped_def S)
  moreover have "stepped ip S S' (Q j) j" if "j \<in> set ks" for j
  proof -
    have "j \<noteq> k" using that Cons.prems(1) by auto
    then show ?thesis using S'(6) that by (auto simp: stepped_def S)
  qed
  ultimately show ?case
    using converse_rtranclp_into_rtranclp [of "sys_step opens boots ip", OF step S'(1)] S' by (auto simp: S)
qed auto

section \<open>The two steps of a worker\<close>

definition wk_voting :: "u32 \<Rightarrow> worker_state_t \<Rightarrow> bool" where
  "wk_voting t w \<longleftrightarrow> wk_live w \<and> wk_wf 2 w \<and> wk_pc w = TLoop \<and> do_commit w \<and> 0 \<le> sint (wk_delay w) \<and>
     wk_transaction w = t \<and> vc_lookup (wk_vclock w) (node_id w) \<noteq> None"

definition wk_voted :: "u32 \<Rightarrow> worker_state_t \<Rightarrow> worker_state_t \<Rightarrow> bool" where
  "wk_voted t w w' \<longleftrightarrow> wk_live w' \<and> wk_wf 1 w' \<and> wk_pc w' = TUncertain \<and> wk_transaction w' = t \<and>
     vc_lookup (wk_vclock w') (node_id w') \<noteq> None \<and> wk_server w' = wk_server w \<and> wk_store w' = wk_store w \<and>
     (\<exists>vc. log_entries (wk_log w') = log_entries (wk_log w) @ [txentry_init LOG_PREPARED t vc]) \<and>
     (\<exists>d \<in> set (wk_out w'). dg_src d = srv_port (the (wk_server w)) \<and> told PREPARED (dg_msg d) \<and> m_tid (message_from_nbo (dg_msg d)) = t)"

lemma voting_votes:
  assumes "wk_voting t w" and "os_ok os" and "told PREPARE_TO_COMMIT buf" and "0 < len"
  shows "\<exists>w'. tx_worker_thread os (RDatagram len buf a) w = Running w' \<and> wk_voted t w w'"
proof -
  obtain c where c: "vc_lookup (wk_vclock w) (node_id w) = Some c" using assms(1) by (auto simp: wk_voting_def)
  have w: "wk_live w" "wk_wf (Suc 1) w" "wk_pc w = TLoop" "do_commit w" "0 \<le> sint (wk_delay w)" "wk_transaction w = t"
    using assms(1) by (simp_all add: wk_voting_def numeral_2_eq_2)
  obtain vc where vc: "thread_clock os (message_from_nbo buf) w = Running (wk_clocked vc w)" "vc_lookup vc (node_id w) = Some (c + 1)"
    using thread_clock_live [OF assms(2) c] by blast
  let ?e = "txentry_init LOG_PREPARED t vc"
  have room: "log_room (Suc 1) (wk_log (wk_clocked vc w))" using w(2) by (simp add: wk_wf_def)
  let ?l = "wk_logged ?e (wk_noted ''Voting COMMIT'' (wk_clocked vc w))"
  let ?v = "(message_init (Some vc))\<lparr>m_tid := t, m_type := cmd_code PREPARED\<rparr>"
  let ?w' = "(wk_posted (wk_dgram os ?l ?v) ?l)\<lparr>uncertain := True, wk_pc := TUncertain\<rparr>"
  have run: "tx_worker_thread os (RDatagram len buf a) w = Running ?w'"
    using w vc(1) assms(2-4) cmd_of_code [of PREPARE_TO_COMMIT]
    by (simp add: tx_worker_thread_def tx_worker_loop_def vote_commit_def wk_live_def)
  have "wk_wf 1 ?w'"
    using w(2) put_entry_room [OF room, of ?e] by (simp add: wk_wf_def wk_posted_def ids_ok_def)
  then have "wk_voted t w ?w'"
    using w vc(2) put_entry_room(1) [OF room, of ?e]
    by (auto simp: wk_voted_def wk_live_def wk_dgram_def nbo.dec_enc) (simp_all add: wk_effect_defs)
  then show ?thesis using run by blast
qed

definition wk_finished :: "u32 \<Rightarrow> worker_state_t \<Rightarrow> worker_state_t \<Rightarrow> bool" where
  "wk_finished t w w' \<longleftrightarrow> wk_store w' = wk_store w \<and> \<not> is_active w' \<and> wk_pc w' = TIdle \<and>
     (\<exists>vc. log_entries (wk_log w') = log_entries (wk_log w) @ [txentry_init LOG_COMMIT t vc])"

lemma voted_finishes:
  assumes "wk_voted t v w" and "os_ok os" and "told COMMIT buf" and "0 < len"
  shows "\<exists>w'. tx_worker_thread os (RDatagram len buf a) w = Running w' \<and> wk_finished t w w'"
proof -
  obtain c where c: "vc_lookup (wk_vclock w) (node_id w) = Some c" using assms(1) by (auto simp: wk_voted_def)
  have "wk_live w" "wk_wf (Suc 0) w" "wk_pc w = TUncertain" "wk_transaction w = t" using assms(1) by (simp_all add: wk_voted_def)
  note w = this
  obtain w' vc where "tx_worker_thread os (RDatagram len buf a) w = Running w'" "wk_store w' = wk_store w"
    "log_entries (wk_log w') = log_entries (wk_log w) @ [txentry_init LOG_COMMIT (wk_transaction w) vc]"
    "wk_pc w' = TIdle" "\<not> is_active w'"
    using uncertain_commit [OF w(1) assms(2) w(2) c w(3) assms(3,4)] by blast
  then show ?thesis using w(4) by (auto simp: wk_finished_def)
qed

section \<open>The manager counts\<close>

text \<open>A manager that waits for the votes \<open>n\<close> of transaction \<open>t\<close> in slot \<open>i\<close>.\<close>

definition counting :: "u32 \<Rightarrow> nat \<Rightarrow> nat \<Rightarrow> worker_t list \<Rightarrow> txmanager_t \<Rightarrow> bool" where
  "counting t i n ws m \<longleftrightarrow> live m \<and> log_room 1 (tm_log m) \<and> vc_lookup (tm_vclock m) (tmgr_port m) \<noteq> None \<and>
     findTransaction t m = Some i \<and> t_state (transactions m ! i) \<noteq> ABORT_STATE \<and> \<not> commit_crash m \<and>
     t_nodes (transactions m ! i) = ws \<and> unat (nodeCount (transactions m ! i)) = n"

lemma mgr_receives:
  assumes "live m" and "vc_lookup (tm_vclock m) (tmgr_port m) = Some c" and "0 < len"
  shows "\<exists>vc. tm_step (os, RDatagram len buf a) m = tm_handle os (message_from_nbo buf) a (m\<lparr>tm_vclock := vc\<rparr>) \<and>
     vc_lookup vc (tmgr_port m) = Some (c + 1)"
proof -
  let ?vc = "vclock_update (tmgr_port m) (tm_vclock m) (m_vclock (message_from_nbo buf))"
  obtain vc where "vclock_increment (tmgr_port m) ?vc = Inr vc" "vc_lookup vc (tmgr_port m) = Some (c + 1)"
    using vc.receive [OF assms(2), of "m_vclock (message_from_nbo buf)"] by blast
  then show ?thesis
    using assms(1,3) by (auto simp: tm_step_def server_recv_def server_recv_timeout_def tm_receive_def live_def)
qed

lemma vote_received:
  assumes "live m" and "vc_lookup (tm_vclock m) (tmgr_port m) = Some c" and "told PREPARED buf" and "0 < len"
  shows "\<exists>vc. tm_step (os, RDatagram len buf a) m = tm_prepared os (message_from_nbo buf) a (m\<lparr>tm_vclock := vc\<rparr>) \<and>
     vc_lookup vc (tmgr_port m) = Some (c + 1)"
  using mgr_receives [OF assms(1,2,4), of os buf a] assms(3) cmd_of_code [of PREPARED] by (simp add: tm_handle_def)

lemma counting_waits:
  assumes "counting t i (Suc (Suc n)) ws m" and "told PREPARED buf" and "m_tid (message_from_nbo buf) = t" and "0 < len"
  shows "\<exists>m'. tm_step (os, RDatagram len buf a) m = Running m' \<and> counting t i (Suc n) ws m' \<and> tm_log m' = tm_log m"
proof -
  obtain c where "vc_lookup (tm_vclock m) (tmgr_port m) = Some c" using assms(1) by (auto simp: counting_def)
  moreover have live: "live m" using assms(1) by (simp add: counting_def)
  ultimately obtain vc where vc: "tm_step (os, RDatagram len buf a) m = tm_prepared os (message_from_nbo buf) a (m\<lparr>tm_vclock := vc\<rparr>)"
    "vc_lookup vc (tmgr_port m) = Some (c + 1)" using vote_received [OF _ _ assms(2,4)] by blast
  let ?u = "m\<lparr>tm_vclock := vc\<rparr>" and ?f = "\<lambda>tx. tx\<lparr>nodeCount := nodeCount tx - 1\<rparr>"
  have i: "i < length (transactions m)" using assms(1) findTransaction_SomeD by (auto simp: counting_def)
  have n: "unat (nodeCount (transactions m ! i)) = Suc (Suc n)" using assms(1) by (simp add: counting_def)
  then have two: "nodeCount (transactions m ! i) \<noteq> 1" "nodeCount (transactions m ! i) \<noteq> 0" by auto
  have "tm_prepared os (message_from_nbo buf) a ?u = Running (noted ''Worker sent prepared'' (upd_tx i ?f ?u))"
    using tm_prepared_waits [of ?u "message_from_nbo buf" i os a] assms(1,3) two live by (simp add: counting_def)
  moreover have "counting t i (Suc n) ws (noted ''Worker sent prepared'' (upd_tx i ?f ?u))"
    using assms(1) vc(2) i n two unat_minus_one [of "nodeCount (transactions m ! i)"] by (simp add: counting_def findTransaction_upd)
  ultimately show ?thesis using vc(1) by auto
qed

lemma counting_decides:
  assumes "counting t i 1 ws m" and "os_ok os" and "told PREPARED buf" and "m_tid (message_from_nbo buf) = t" and "0 < len"
  shows "\<exists>m' vc. tm_step (os, RDatagram len buf a) m = Running m' \<and>
     log_entries (tm_log m') = log_entries (tm_log m) @ [txentry_init LOG_COMMIT t vc] \<and>
     (\<forall>w \<in> set ws. nid w \<noteq> 0 \<longrightarrow> (\<exists>d \<in> set (tm_out m'). dg_dest d = w_address w \<and> told COMMIT (dg_msg d)))"
proof -
  obtain c where "vc_lookup (tm_vclock m) (tmgr_port m) = Some c" using assms(1) by (auto simp: counting_def)
  moreover have live: "live m" using assms(1) by (simp add: counting_def)
  ultimately obtain vc where vc: "tm_step (os, RDatagram len buf a) m = tm_prepared os (message_from_nbo buf) a (m\<lparr>tm_vclock := vc\<rparr>)"
    using vote_received [OF _ _ assms(3,5)] by blast
  let ?u = "m\<lparr>tm_vclock := vc\<rparr>"
  have "unat (nodeCount (transactions m ! i)) = 1" using assms(1) by (simp add: counting_def)
  then have one: "nodeCount (transactions m ! i) = 1" by (metis unat_1 unsigned_word_eqI)
  have t: "t_tid (transactions m ! i) = t" using assms(1) findTransaction_SomeD by (auto simp: counting_def)
  have "tm_prepared os (message_from_nbo buf) a ?u =
      Running (posted (to_workers ?u (mgr_msg COMMIT ?u) ws) (committed i ?u))"
    using tm_prepared_last [of ?u os "message_from_nbo buf" i a] assms(1,2,4) one live by (simp add: counting_def)
  moreover have "log_room (Suc 0) (tm_log m)" using assms(1) by (simp add: counting_def)
  moreover have "\<exists>d \<in> set (to_workers ?u (mgr_msg COMMIT ?u) ws). dg_dest d = w_address w \<and> told COMMIT (dg_msg d)"
    if "w \<in> set ws" "nid w \<noteq> 0" for w
    using that by (intro bexI [of _ "mgr_dgram ?u (w_address w) (mgr_msg COMMIT ?u)"])
      (auto simp: to_workers_def mgr_dgram_def nbo.dec_enc)
  ultimately show ?thesis
    using vc t put_entry_room(1) [of 0 "tm_log m"] by (auto simp: committed_def Let_def)
qed

text \<open>The votes on the network are received one after the other.\<close>

lemma votes_decide:
  assumes "mgr S = Running m" and "counting t i (length vs) ws m" and "vs \<noteq> []" and "os_ok os"
    and "\<forall>(a, buf) \<in> set vs. (a, buf) \<in> to_mgr S \<and> told PREPARED buf \<and> m_tid (message_from_nbo buf) = t"
  shows "\<exists>S' vc. (sys_step opens boots ip)\<^sup>*\<^sup>* S S' \<and> wks S' = wks S \<and> mgr_log_of S' = mgr_log_of S @ [txentry_init LOG_COMMIT t vc] \<and>
     (\<forall>w \<in> set ws. nid w \<noteq> 0 \<longrightarrow> (\<exists>buf. (w_address w, buf) \<in> to_wk S' \<and> told COMMIT buf))"
  using assms
proof (induction vs arbitrary: S m)
  case (Cons v vs)
  note prems = Cons.prems and IH = Cons.IH
  obtain a buf where v: "v = (a, buf)" by (cases v)
  have b: "(a, buf) \<in> to_mgr S" "told PREPARED buf" "m_tid (message_from_nbo buf) = t" using prems(5) v by auto
  have room: "log_room 1 (tm_log m)" using prems(2) by (simp add: counting_def)
  have step: "sys_step opens boots ip S (mgr_goes (tm_step (os, RDatagram 1 buf a) m) S)"
    by (rule sys_step.mgr_iterates [OF prems(1) room]) (use b in auto)
  show ?case
  proof (cases vs)
    case Nil
    obtain m' vc where m': "tm_step (os, RDatagram 1 buf a) m = Running m'"
      "log_entries (tm_log m') = log_entries (tm_log m) @ [txentry_init LOG_COMMIT t vc]"
      "\<forall>w \<in> set ws. nid w \<noteq> 0 \<longrightarrow> (\<exists>d \<in> set (tm_out m'). dg_dest d = w_address w \<and> told COMMIT (dg_msg d))"
      using counting_decides [of t i ws m os buf 1 a] prems(2,4) b Nil by auto
    let ?S = "mgr_goes (Running m') S"
    have "\<forall>w \<in> set ws. nid w \<noteq> 0 \<longrightarrow> (\<exists>buf. (w_address w, buf) \<in> to_wk ?S \<and> told COMMIT buf)"
      using m'(3) by (force simp: mgr_sent_def)
    moreover have "wks ?S = wks S" "mgr_log_of ?S = mgr_log_of S @ [txentry_init LOG_COMMIT t vc]"
      using m'(2) prems(1) by simp_all
    ultimately show ?thesis using step m'(1) by (intro exI [of _ ?S] exI [of _ vc]) auto
  next
    case (Cons v' vs')
    obtain m' where m': "tm_step (os, RDatagram 1 buf a) m = Running m'" "counting t i (length vs) ws m'" "tm_log m' = tm_log m"
      using counting_waits [of t i "length vs'" ws m buf 1 os a] prems(2) b Cons by auto
    let ?S = "mgr_goes (Running m') S"
    have "mgr ?S = Running m'" "to_mgr ?S = to_mgr S" "wks ?S = wks S" "mgr_log_of ?S = mgr_log_of S"
      using m'(3) prems(1) by simp_all
    moreover from this obtain S' vc where "(sys_step opens boots ip)\<^sup>*\<^sup>* ?S S'" "wks S' = wks ?S"
      "mgr_log_of S' = mgr_log_of ?S @ [txentry_init LOG_COMMIT t vc]"
      "\<forall>w \<in> set ws. nid w \<noteq> 0 \<longrightarrow> (\<exists>buf. (w_address w, buf) \<in> to_wk S' \<and> told COMMIT buf)"
      using IH [of ?S m'] m'(2) prems(4,5) Cons by auto
    ultimately show ?thesis
      using converse_rtranclp_into_rtranclp [of "sys_step opens boots ip", OF step] m'(1) by auto
  qed
qed simp

section \<open>The round\<close>

text \<open>The address of the socket a worker has for its transaction.\<close>

definition wk_addr :: "u32 \<Rightarrow> worker_state_t \<Rightarrow> sockaddr_in" where
  "wk_addr ip w = sock_addr ip (srv_port (the (wk_server w)))"

lemma can_thread:
  assumes "wks S k = Running w" and "wk_live w" and "log_room 1 (wk_log w)" and "(wk_addr (ip k) w, buf) \<in> to_wk S"
    and "tx_worker_thread os (RDatagram 1 buf no_addr) w = Running w'" and "Q w w'"
  shows "can_step ip S Q k"
proof -
  obtain srv where "wk_server w = Some srv" using assms(2) by (auto simp: wk_live_def)
  then show ?thesis
    using assms by (auto simp: can_step_def wk_addr_def wk_step_def intro!: exI [of _ w] exI [of _ os] exI [of _ 1] exI [of _ buf] exI [of _ no_addr] exI [of _ srv] exI [of _ w'])
qed

lemma room_1: "wk_wf n w \<Longrightarrow> 0 < n \<Longrightarrow> log_room 1 (wk_log w)"
  by (simp add: wk_wf_def log_room_def)

text \<open>The first phase: everybody votes.\<close>

lemma round_votes:
  assumes "distinct ks" and "os_ok os"
    and w: "\<forall>k \<in> set ks. wks S k = Running (w k) \<and> wk_voting t (w k)"
    and asked: "\<forall>k \<in> set ks. \<exists>buf. (wk_addr (ip k) (w k), buf) \<in> to_wk S \<and> told PREPARE_TO_COMMIT buf"
  shows "\<exists>S'. (sys_step opens boots ip)\<^sup>*\<^sup>* S S' \<and> mgr S' = mgr S \<and>
     (\<forall>k \<in> set ks. \<exists>w' buf. wks S' k = Running w' \<and> wk_voted t (w k) w' \<and>
        (wk_addr (ip k) (w k), buf) \<in> to_mgr S' \<and> told PREPARED buf \<and> m_tid (message_from_nbo buf) = t)"
proof -
  have "can_step ip S (wk_voted t) k" if k: "k \<in> set ks" for k
  proof -
    have wk: "wks S k = Running (w k)" "wk_voting t (w k)" using w k by auto
    obtain buf where buf: "(wk_addr (ip k) (w k), buf) \<in> to_wk S" "told PREPARE_TO_COMMIT buf" using asked k by blast
    obtain w' where w': "tx_worker_thread os (RDatagram 1 buf no_addr) (w k) = Running w'" "wk_voted t (w k) w'"
      using voting_votes [OF wk(2) assms(2) buf(2), of 1] by auto
    have "wk_live (w k)" "log_room 1 (wk_log (w k))" using wk(2) room_1 [of 2 "w k"] by (simp_all add: wk_voting_def)
    then show ?thesis using can_thread [of S k "w k" ip buf os w' "wk_voted t"] wk(1) buf(1) w' by blast
  qed
  then obtain S1 where S1: "(sys_step opens boots ip)\<^sup>*\<^sup>* S S1" "mgr S1 = mgr S" "\<forall>k \<in> set ks. stepped ip S S1 (wk_voted t) k"
    using workers_step [OF assms(1), of ip S "\<lambda>k. wk_voted t" opens boots] by blast
  have "\<exists>w' buf. wks S1 k = Running w' \<and> wk_voted t (w k) w' \<and>
        (wk_addr (ip k) (w k), buf) \<in> to_mgr S1 \<and> told PREPARED buf \<and> m_tid (message_from_nbo buf) = t" if k: "k \<in> set ks" for k
  proof -
    obtain w' where w': "wks S1 k = Running w'" "wk_voted t (w k) w'" "wk_sent (ip k) (Running w') \<subseteq> to_mgr S1"
      using S1(3) w k by (auto simp: stepped_def)
    moreover obtain d where "d \<in> set (wk_out w')" "dg_src d = srv_port (the (wk_server (w k)))" "told PREPARED (dg_msg d)"
      "m_tid (message_from_nbo (dg_msg d)) = t" using w'(2) by (auto simp: wk_voted_def)
    ultimately show ?thesis by (force simp: wk_sent_def wk_addr_def)
  qed
  then show ?thesis using S1(1,2) by blast
qed

text \<open>The end: everybody learns of the commit.\<close>

lemma round_finishes:
  assumes "distinct ks" and "os_ok os"
    and w: "\<forall>k \<in> set ks. wks S k = Running (w k) \<and> wk_voted t (v k) (w k)"
    and told: "\<forall>k \<in> set ks. \<exists>buf. (wk_addr (ip k) (w k), buf) \<in> to_wk S \<and> told COMMIT buf"
  shows "\<exists>S'. (sys_step opens boots ip)\<^sup>*\<^sup>* S S' \<and> mgr S' = mgr S \<and>
     (\<forall>k \<in> set ks. \<exists>w'. wks S' k = Running w' \<and> wk_finished t (w k) w')"
proof -
  have "can_step ip S (wk_finished t) k" if k: "k \<in> set ks" for k
  proof -
    have wk: "wks S k = Running (w k)" "wk_voted t (v k) (w k)" using w k by auto
    obtain buf where buf: "(wk_addr (ip k) (w k), buf) \<in> to_wk S" "told COMMIT buf" using told k by blast
    obtain w' where w': "tx_worker_thread os (RDatagram 1 buf no_addr) (w k) = Running w'" "wk_finished t (w k) w'"
      using voted_finishes [OF wk(2) assms(2) buf(2), of 1] by auto
    have "wk_live (w k)" "log_room 1 (wk_log (w k))" using wk(2) room_1 [of 1 "w k"] by (simp_all add: wk_voted_def)
    then show ?thesis using can_thread [of S k "w k" ip buf os w' "wk_finished t"] wk(1) buf(1) w' by blast
  qed
  then obtain S1 where S1: "(sys_step opens boots ip)\<^sup>*\<^sup>* S S1" "mgr S1 = mgr S" "\<forall>k \<in> set ks. stepped ip S S1 (wk_finished t) k"
    using workers_step [OF assms(1), of ip S "\<lambda>k. wk_finished t" opens boots] by blast
  then show ?thesis using w by (fastforce simp: stepped_def)
qed

lemma round_commits:
  assumes "distinct ks" and "ks \<noteq> []" and "os_ok os"
    and w: "\<forall>k \<in> set ks. wks S k = Running (w k) \<and> wk_voting t (w k)"
    and asked: "\<forall>k \<in> set ks. \<exists>buf. (wk_addr (ip k) (w k), buf) \<in> to_wk S \<and> told PREPARE_TO_COMMIT buf"
    and m: "mgr S = Running m" "counting t i (length ks) ws m"
    and members: "\<forall>k \<in> set ks. \<exists>x \<in> set ws. nid x \<noteq> 0 \<and> w_address x = wk_addr (ip k) (w k)"
  shows "\<exists>S' vc. (sys_step opens boots ip)\<^sup>*\<^sup>* S S' \<and> mgr_log_of S' = mgr_log_of S @ [txentry_init LOG_COMMIT t vc] \<and>
     (\<forall>k \<in> set ks. \<exists>w' vp vd. wks S' k = Running w' \<and> \<not> is_active w' \<and> wk_store w' = wk_store (w k) \<and>
        log_entries (wk_log w') = log_entries (wk_log (w k)) @ [txentry_init LOG_PREPARED t vp, txentry_init LOG_COMMIT t vd])"
proof -
  obtain S1 where S1: "(sys_step opens boots ip)\<^sup>*\<^sup>* S S1" "mgr S1 = mgr S"
    and "\<forall>k \<in> set ks. \<exists>w' buf. wks S1 k = Running w' \<and> wk_voted t (w k) w' \<and>
        (wk_addr (ip k) (w k), buf) \<in> to_mgr S1 \<and> told PREPARED buf \<and> m_tid (message_from_nbo buf) = t"
    using round_votes [OF assms(1,3) w asked, of opens boots] by blast
  then obtain w1 b where w1: "\<forall>k \<in> set ks. wks S1 k = Running (w1 k) \<and> wk_voted t (w k) (w1 k)"
    and b: "\<forall>k \<in> set ks. (wk_addr (ip k) (w k), b k) \<in> to_mgr S1 \<and> told PREPARED (b k) \<and> m_tid (message_from_nbo (b k)) = t"
    by metis
  obtain S2 vc where S2: "(sys_step opens boots ip)\<^sup>*\<^sup>* S1 S2" "wks S2 = wks S1" "mgr_log_of S2 = mgr_log_of S1 @ [txentry_init LOG_COMMIT t vc]"
    "\<forall>x \<in> set ws. nid x \<noteq> 0 \<longrightarrow> (\<exists>buf. (w_address x, buf) \<in> to_wk S2 \<and> told COMMIT buf)"
    using votes_decide [of S1 m t i "map (\<lambda>k. (wk_addr (ip k) (w k), b k)) ks" ws os opens boots ip] b assms(2,3) m S1(2) by auto
  have "\<forall>k \<in> set ks. wk_addr (ip k) (w1 k) = wk_addr (ip k) (w k)" using w1 by (simp add: wk_voted_def wk_addr_def)
  then have "\<forall>k \<in> set ks. \<exists>buf. (wk_addr (ip k) (w1 k), buf) \<in> to_wk S2 \<and> told COMMIT buf" using members S2(4) by metis
  moreover have "\<forall>k \<in> set ks. wks S2 k = Running (w1 k) \<and> wk_voted t (w k) (w1 k)" using w1 S2(2) by simp
  ultimately obtain S3 where S3: "(sys_step opens boots ip)\<^sup>*\<^sup>* S2 S3" "mgr S3 = mgr S2"
    "\<forall>k \<in> set ks. \<exists>w'. wks S3 k = Running w' \<and> wk_finished t (w1 k) w'"
    using round_finishes [OF assms(1,3), of S2 w1 t w ip opens boots] by blast
  have "\<exists>w' vp vd. wks S3 k = Running w' \<and> \<not> is_active w' \<and> wk_store w' = wk_store (w k) \<and>
        log_entries (wk_log w') = log_entries (wk_log (w k)) @ [txentry_init LOG_PREPARED t vp, txentry_init LOG_COMMIT t vd]"
    if k: "k \<in> set ks" for k
    using S3(3) w1 k by (fastforce simp: wk_finished_def wk_voted_def)
  moreover have "(sys_step opens boots ip)\<^sup>*\<^sup>* S S3" using S1(1) S2(1) S3(1) by (meson rtranclp_trans)
  moreover have "mgr_log_of S3 = mgr_log_of S @ [txentry_init LOG_COMMIT t vc]" using S1(2) S2(3) S3(2) by simp
  ultimately show ?thesis by blast
qed

end
