(* ===== verification/Recover.thy ===== *)
theory Recover
  imports Round
begin

text \<open>
  A worker that waits for the decision of a manager that is down. The manager starts again,
  the worker asks, the manager answers from its repaired log, and the worker comes to its end:
  what the two programs do on their own is put together to a run of the system.
\<close>

section \<open>A waiting worker\<close>

definition wk_waiting :: "u32 \<Rightarrow> worker_state_t \<Rightarrow> bool" where
  "wk_waiting t w \<longleftrightarrow> wk_live w \<and> wk_wf 1 w \<and> wk_pc w = TUncertain \<and> wk_transaction w = t \<and>
     vc_lookup (wk_vclock w) (node_id w) \<noteq> None"

text \<open>The end of its wait, by what it is told.\<close>

definition wk_resolved :: "cmdType \<Rightarrow> u32 \<Rightarrow> worker_state_t \<Rightarrow> worker_state_t \<Rightarrow> bool" where
  "wk_resolved c t w w' \<longleftrightarrow> \<not> is_active w' \<and> wk_pc w' = TIdle \<and>
     (if c = COMMIT
      then wk_store w' = wk_store w \<and>
        (\<exists>vc. log_entries (wk_log w') = log_entries (wk_log w) @ [txentry_init LOG_COMMIT t vc])
      else obj_vals (wk_store w') = committed_vals w \<and>
        log_entries (wk_log w') = log_entries (wk_log w) @ abort_of (log_entries (wk_log w)))"

lemma resolved_posted [simp]: "wk_resolved c t (wk_posted d w) w' = wk_resolved c t w w'"
  by (simp add: wk_resolved_def)

lemma waiting_resolved:
  assumes "wk_waiting t w" and "os_ok os" and "told c buf" and "c = COMMIT \<or> c = ABORT"
  shows "\<exists>w'. tx_worker_thread os (RDatagram 1 buf a) w = Running w' \<and> wk_resolved c t w w'"
proof -
  have w: "wk_live w" "wk_wf (Suc 0) w" "wk_pc w = TUncertain" "wk_transaction w = t" using assms(1) by (simp_all add: wk_waiting_def)
  obtain x where x: "vc_lookup (wk_vclock w) (node_id w) = Some x" using assms(1) by (auto simp: wk_waiting_def)
  from assms(4) show ?thesis
  proof
    assume c: "c = COMMIT"
    with assms(3) have buf: "told COMMIT buf" by simp
    obtain w' vc where "tx_worker_thread os (RDatagram 1 buf a) w = Running w'" "wk_store w' = wk_store w"
      "log_entries (wk_log w') = log_entries (wk_log w) @ [txentry_init LOG_COMMIT (wk_transaction w) vc]"
      "wk_pc w' = TIdle" "\<not> is_active w'"
      by (rule uncertain_commit [OF w(1) assms(2) w(2) x w(3) buf zero_less_one])
    then show ?thesis using c w(4) by (auto simp: wk_resolved_def)
  next
    assume c: "c = ABORT"
    with assms(3) have buf: "told ABORT buf" by simp
    obtain w' where "tx_worker_thread os (RDatagram 1 buf a) w = Running w'" "obj_vals (wk_store w') = committed_vals w"
      "log_entries (wk_log w') = log_entries (wk_log w) @ abort_of (log_entries (wk_log w))" "wk_pc w' = TIdle" "\<not> is_active w'"
      by (rule uncertain_abort [OF w(1) assms(2) w(2) x w(3) buf zero_less_one])
    then show ?thesis using c by (auto simp: wk_resolved_def)
  qed
qed

text \<open>A time-out makes it ask.\<close>

lemma waiting_asks:
  assumes "wk_waiting t w" and "os_ok os"
  shows "\<exists>d. wk_step (TxThread, os, RTimeout) w = Running (wk_posted d w) \<and> dg_src d = srv_port (the (wk_server w)) \<and>
     told ASK (dg_msg d) \<and> m_tid (message_from_nbo (dg_msg d)) = t \<and> wk_waiting t (wk_posted d w)"
proof -
  let ?m = "(message_init (Some (wk_vclock w)))\<lparr>m_type := cmd_code ASK, m_tid := wk_transaction w\<rparr>"
  have w: "wk_live w" "wk_pc w = TUncertain" "wk_transaction w = t" using assms(1) by (simp_all add: wk_waiting_def)
  have "wk_step (TxThread, os, RTimeout) w = Running (wk_posted (wk_dgram os w ?m) w)"
    using w assms(2) by (simp add: wk_step_def tx_worker_thread_def tx_worker_uncertain_def wk_live_def)
  moreover have "wk_waiting t (wk_posted (wk_dgram os w ?m) w)"
    using assms(1) by (simp add: wk_waiting_def wk_live_def) (simp add: wk_posted_def)
  ultimately show ?thesis using w(3) by (intro exI [of _ "wk_dgram os w ?m"]) (simp add: wk_dgram_def nbo.dec_enc)
qed

section \<open>A manager that is asked\<close>

lemma asked_answers:
  assumes "live m" and "log_room n (tm_log m)" and "vc_lookup (tm_vclock m) (tmgr_port m) = Some x" and "os_ok os"
    and "told ASK buf" and "answer (log_entries (tm_log m)) (m_tid (message_from_nbo buf)) = Some c"
  shows "\<exists>m' d. tm_step (os, RDatagram 1 buf a) m = Running m' \<and> tm_log m' = tm_log m \<and> d \<in> set (tm_out m') \<and>
     dg_dest d = a \<and> told c (dg_msg d)"
proof -
  obtain vc where vc: "tm_step (os, RDatagram 1 buf a) m = tm_handle os (message_from_nbo buf) a (m\<lparr>tm_vclock := vc\<rparr>)"
    using mgr_receives [OF assms(1,3), of 1 os buf a] by auto
  let ?u = "m\<lparr>tm_vclock := vc\<rparr>"
  have u: "live ?u" "log_room n (tm_log ?u)" using assms(1,2) by (simp_all add: live_def)
  obtain m' where m': "tm_ask os (message_from_nbo buf) a ?u = Running m'" "says (reply ?u (m_tid (message_from_nbo buf)) a) ?u m'"
    using from_log_live(1) [OF u(1) assms(4) u(2)] by blast
  have "tm_handle os (message_from_nbo buf) a ?u = Running m'"
    using m'(1) assms(5) cmd_of_code [of ASK] by (simp add: tm_handle_def)
  moreover have "tm_log m' = tm_log m" using m'(2) core_eqD(1) [of m' ?u] by (simp add: says_def)
  moreover have "tm_out m' = tm_out m @ [mgr_dgram ?u a ((message_init (Some vc))\<lparr>m_tid := m_tid (message_from_nbo buf), m_type := cmd_code c\<rparr>)]"
    using m'(2) assms(6) by (simp add: says_def reply_def)
  ultimately show ?thesis
    using vc by (intro exI [of _ m'] exI [of _ "mgr_dgram ?u a ((message_init (Some vc))\<lparr>m_tid := m_tid (message_from_nbo buf), m_type := cmd_code c\<rparr>)"])
      (simp add: mgr_dgram_def nbo.dec_enc)
qed

section \<open>The run\<close>

text \<open>A question, an answer and its effect, with the manager running.\<close>

lemma question_resolves:
  assumes m: "mgr S = Running m" "live m" "log_room 1 (tm_log m)" "vc_lookup (tm_vclock m) (tmgr_port m) = Some x"
    and w: "wks S k = Running w" "wk_waiting t w" and os: "os_ok os"
    and c: "answer (log_entries (tm_log m)) t = Some c" "c = COMMIT \<or> c = ABORT"
  shows "\<exists>S' w'. (sys_step opens boots ip)\<^sup>*\<^sup>* S S' \<and> running (mgr S') \<and> mgr_log_of S' = mgr_log_of S \<and> wks S' k = Running w' \<and> wk_resolved c t w w'"
proof -
  obtain d where d: "wk_step (TxThread, os, RTimeout) w = Running (wk_posted d w)" "dg_src d = srv_port (the (wk_server w))"
    "told ASK (dg_msg d)" "m_tid (message_from_nbo (dg_msg d)) = t" "wk_waiting t (wk_posted d w)"
    using waiting_asks [OF w(2) os] by blast
  have room: "log_room 1 (wk_log w)" using w(2) by (simp add: wk_waiting_def wk_wf_def)
  let ?w = "wk_posted d w"
  let ?S1 = "wk_goes ip k (Running ?w) S"
  have s1: "sys_step opens boots ip S ?S1"
    using sys_step.wk_iterates [OF w(1) room, of RTimeout ip opens boots os] d(1) by simp
  have ask: "(wk_addr (ip k) w, dg_msg d) \<in> to_mgr ?S1" using d(2) by (simp add: wk_sent_def wk_addr_def)
  obtain m' e where e: "tm_step (os, RDatagram 1 (dg_msg d) (wk_addr (ip k) w)) m = Running m'" "tm_log m' = tm_log m"
    "e \<in> set (tm_out m')" "dg_dest e = wk_addr (ip k) w" "told c (dg_msg e)"
    using asked_answers [OF m(2-4) os d(3)] c(1) d(4) by blast
  let ?S2 = "mgr_goes (Running m') ?S1"
  have "sys_step opens boots ip ?S1 (mgr_goes (tm_step (os, RDatagram 1 (dg_msg d) (wk_addr (ip k) w)) m) ?S1)"
    by (rule sys_step.mgr_iterates) (use m(1,3) ask in auto)
  then have s2: "sys_step opens boots ip ?S1 ?S2" by (simp add: e(1))
  obtain w' where w': "tx_worker_thread os (RDatagram 1 (dg_msg e) no_addr) ?w = Running w'" "wk_resolved c t ?w w'"
    using waiting_resolved [OF d(5) os e(5) c(2)] by blast
  have "(wk_addr (ip k) ?w, dg_msg e) \<in> to_wk ?S2" using e(3,4) by (force simp: mgr_sent_def wk_addr_def)
  moreover have "wk_live ?w" using d(5) by (simp add: wk_waiting_def)
  ultimately have "can_step ip ?S2 (wk_resolved c t) k"
    using room w' by (intro can_thread [of ?S2 k ?w]) simp_all
  then obtain S3 where S3: "(sys_step opens boots ip)\<^sup>*\<^sup>* ?S2 S3" "mgr S3 = mgr ?S2" "stepped ip ?S2 S3 (wk_resolved c t) k"
    using workers_step [of "[k]" ip ?S2 "\<lambda>_. wk_resolved c t" opens boots] by auto
  then obtain w'' where "wks S3 k = Running w''" "wk_resolved c t w w''"
    by (auto simp: stepped_def)
  moreover have "(sys_step opens boots ip)\<^sup>*\<^sup>* S S3" using s1 s2 S3(1) by (meson converse_rtranclp_into_rtranclp)
  moreover have "running (mgr S3)" "mgr_log_of S3 = mgr_log_of S" using S3(2) e(2) m(1) by simp_all
  ultimately show ?thesis by blast
qed

lemma restart_resolves:
  assumes m: "mgr S = Halted h m" "mgr_log (log_entries (tm_log m))" "tx_types (log_entries (tm_log m)) t \<noteq> []"
    and room: "log_room (Suc (length (undecided (log_entries (tm_log m))))) (tm_log m)"
    and start: "os_starts os" "length argv = 2"
      "vc_lookup (txlog_read_clock (tm_log m)) (atoi (argv ! 1)) = Some x"
    and w: "wks S k = Running w" "wk_waiting t w" and os: "os_ok os"
    and c: "c = (if last (tx_types (log_entries (tm_log m)) t) = log_code LOG_COMMIT then COMMIT else ABORT)"
  shows "\<exists>S' w'. (sys_step opens boots ip)\<^sup>*\<^sup>* S S' \<and> running (mgr S') \<and> answer (mgr_log_of S') t = Some c \<and>
     wks S' k = Running w' \<and> wk_resolved c t w w'"
proof -
  have "log_room (length (undecided (log_entries (tm_log m)))) (tm_log m)" using room by (simp add: log_room_def)
  then obtain s where s: "tm_main_start os argv (Some (tm_log m)) = Inr (Running s)" "vc_lookup (tm_vclock s) (tmgr_port s) = Some x"
    using start_runs [OF start(1) os start(2,3)] by blast
  have "log_room (1 + length (undecided (log_entries (tm_log m)))) (tm_log m)" using room by simp
  note spec = tm_main_start_spec [OF s(1) this]
  let ?S = "mgr_goes (Running s) S"
  have "sys_step opens boots ip S ?S" by (rule sys_step.mgr_starts [OF m(1) s(1) room])
  then have steps: "(sys_step opens boots ip)\<^sup>*\<^sup>* S T" if "(sys_step opens boots ip)\<^sup>*\<^sup>* ?S T" for T
    using that by (rule converse_rtranclp_into_rtranclp)
  have ans: "answer (log_entries (tm_log s)) t = Some c"
    using answer_restored [OF m(2,3)] spec(2) c by simp
  moreover have "live s" using spec(3,4) by (simp add: live_def)
  ultimately obtain S' w' where "(sys_step opens boots ip)\<^sup>*\<^sup>* ?S S'" "running (mgr S')" "mgr_log_of S' = mgr_log_of ?S"
    "wks S' k = Running w'" "wk_resolved c t w w'"
    using question_resolves [of ?S s x k w t os c opens boots ip] spec(1) s(2) w os c by (auto split: if_splits)
  then show ?thesis using ans by (intro exI [of _ S'] exI [of _ w']) (simp add: steps)
qed

end
