(* ===== verification/Samples.thy ===== *)
theory Samples
  imports TManagerDecide
begin

text \<open>
  Concrete inputs at which the properties are evaluated: an operating system that fails
  nothing, addresses on the local host, and messages as they arrive from the network.
\<close>

definition sample_os :: os_t where
  "sample_os = \<lparr>os_malloc = True, os_resolve = (\<lambda>_. Some 0x0100007F), os_socket = 3, os_bind = True,
     os_autoport = 0, os_sendto = (\<lambda>_. True), os_msync = True, os_fopen = True, os_open = True,
     os_fstat = True, os_write = True, os_map_log = True, os_map_store = True, os_munmap = True, os_now = \<lparr>tv_sec = 0, tv_usec = 0\<rparr>,
     os_stack_addr = 0, os_stack_entry = zero_entry, os_heap_fd = 0\<rparr>"

definition sample_addr :: "u32 \<Rightarrow> sockaddr_in" where
  "sample_addr p = \<lparr>sin_family = AF_INET, sin_port = htons (ucast p), sin_addr = 0x0100007F\<rparr>"

definition sample_msg :: "cmdType \<Rightarrow> u32 \<Rightarrow> message_t" where
  "sample_msg c t = zero_msg\<lparr>m_type := cmd_code c, m_tid := t\<rparr>"

definition sample_event :: "cmdType \<Rightarrow> u32 \<Rightarrow> u32 \<Rightarrow> os_t \<times> recv_event" where
  "sample_event c t p = (sample_os, RDatagram 200 (message_to_nbo (sample_msg c t)) (sample_addr p))"

definition fresh_log :: txlog_t where
  "fresh_log = \<lparr>log_slots = [], header = zero_head\<rparr>"

definition sample_argv :: "char list list" where
  "sample_argv = [lit ''./tmanager'', lit ''7000'']"

lemma sample_os_ok: "os_ok sample_os"
  by (simp add: os_ok_def sample_os_def)


lemma sample_os_open [simp]:
  "os_msync sample_os" "os_fopen sample_os" "os_sendto sample_os a" "os_malloc sample_os" "os_open sample_os"
  "os_fstat sample_os" "os_map_log sample_os" "os_map_store sample_os" "os_starts sample_os" "os_socket sample_os = 3" "os_resolve sample_os h = Some 0x0100007F"
  by (simp_all add: sample_os_def os_starts_def)

section \<open>A manager on port 7000\<close>

lemma zero_clock_list:
  "zero_clock = [zero_slot, zero_slot, zero_slot, zero_slot, zero_slot, zero_slot, zero_slot, zero_slot,
     zero_slot, zero_slot]"
  by (simp add: zero_clock_def numeral_eq_Suc)

definition sample_clock :: "u32 \<Rightarrow> u32 \<Rightarrow> vclock_t list" where
  "sample_clock p t = zero_clock[0 := \<lparr>nodeId = p, time = t\<rparr>]"

definition sample_server :: "u32 \<Rightarrow> server_t" where
  "sample_server p = \<lparr>srv_port = p, socket_id = 3, srv_timeout = 10, srv_address = sample_addr p\<rparr>"

definition sample_mgr :: txmanager_t where
  "sample_mgr = \<lparr>tm_server = Some (sample_server 7000), tm_log = fresh_log, tm_vclock = sample_clock 7000 1,
     transactions = replicate MAX_TRANSACTIONS zero_transaction, tmgr_port = 7000, commit_crash = False,
     abort_crash = False, tm_viz = \<lparr>viz_fd = Some 7000,
       viz_events = [(7000, ''Started manager'', sample_clock 7000 1)]\<rparr>, tm_out = []\<rparr>"

lemma atoi_7000: "atoi (lit ''7000'') = 7000"
  by (simp add: atoi_def strtol10_def sign_split_def isspace_def digit_val_def long_max_def)

lemma sample_start: "tm_main_start sample_os sample_argv (Some fresh_log) = Inr (Running sample_mgr)"
proof -
  let ?srv = "\<lparr>srv_port = 7000, socket_id = 0, srv_timeout = 10, srv_address = sample_addr 7000\<rparr>"
  have init: "tm_init sample_os 7000 fresh_log ?srv = sample_mgr\<lparr>tm_vclock := zero_clock, tm_viz := viz_closed\<rparr>"
    by (simp add: tm_init_def sample_os_def server_listen_def sample_mgr_def sample_server_def txlog_read_clock_def
        fresh_log_def zero_head_def)
  have srv: "server_alloc sample_os 7000 10 = Inr ?srv"
    by (simp add: server_alloc_def sample_os_def sample_addr_def resolve_host_def)
  have log: "txlog_open sample_os (Some fresh_log) = Inr fresh_log"
    by (simp add: txlog_open_def sample_os_def)
  have "tm_boot sample_os (sample_mgr\<lparr>tm_vclock := zero_clock, tm_viz := viz_closed\<rparr>) = Running sample_mgr"
    by (simp add: tm_boot_def sample_mgr_def vclock_has_def vclock_add_def zero_clock_list zero_slot_def sample_clock_def
        tm_viz_append_def shitviz_append_def viz_closed_def sample_os_def restoreTransactions_def fresh_log_def zero_head_def)
  then show ?thesis
    by (simp add: tm_main_start_def txlog_mapped_def sample_argv_def atoi_7000 log srv init)
qed

lemma sample_step:
  assumes "tm_server s \<noteq> None" and "tmgr_port s = 7000" and "tm_vclock s = sample_clock 7000 t"
  shows "tm_step (sample_event c i p) s =
     tm_handle sample_os (sample_msg c i) (sample_addr p) (s\<lparr>tm_vclock := sample_clock 7000 (t + 1)\<rparr>)"
proof -
  have "vclock_increment 7000 (vclock_update 7000 (sample_clock 7000 t) (m_vclock (sample_msg c i))) =
      Inr (sample_clock 7000 (t + 1))"
    by (simp add: sample_msg_def vclock_update_def vclock_update1_def zero_clock_list sample_clock_def zero_slot_def
        vclock_increment_def)
  then show ?thesis
    using assms by (auto simp: tm_step_def sample_event_def server_recv_def server_recv_timeout_def nbo.dec_enc tm_receive_def)
qed

lemma sample_msg_fields [simp]: "m_type (sample_msg c t) = cmd_code c" "m_tid (sample_msg c t) = t"
  by (simp_all add: sample_msg_def)

text \<open>Transaction 5, begun by the worker on port 8001.\<close>

definition sample_begun :: txmanager_t where
  "sample_begun = logged (txentry_init LOG_BEGIN 5 (sample_clock 7000 2)) (noted ''BEGINTX''
     (upd_tx 0 (\<lambda>_. new_transaction 5 (sample_addr 8001)) (sample_mgr\<lparr>tm_vclock := sample_clock 7000 2\<rparr>)))"

lemma sample_mgr_live [simp]: "live sample_mgr"
  by (simp add: live_def sample_mgr_def)

lemma fresh_log_facts [simp]: "log_entries fresh_log = []" "log_room n fresh_log = (n < 2 ^ 31)"
  by (simp_all add: fresh_log_def log_entries_def log_room_def log_count_def zero_head_def)

lemma empty_table_list:
  "replicate MAX_TRANSACTIONS zero_transaction = [zero_transaction, zero_transaction, zero_transaction, zero_transaction]"
  by (simp add: numeral_eq_Suc)

lemma sample_mgr_fields [simp]:
  "tm_log sample_mgr = fresh_log" "tm_out sample_mgr = []" "tmgr_port sample_mgr = 7000"
  "transactions sample_mgr = [zero_transaction, zero_transaction, zero_transaction, zero_transaction]" "tm_vclock sample_mgr = sample_clock 7000 1"
  "tm_server sample_mgr = Some (sample_server 7000)" "commit_crash sample_mgr = False" "abort_crash sample_mgr = False"
  by (simp_all add: sample_mgr_def empty_table_list del: MAX_TRANSACTIONS_def)

lemma fresh_log_durable: "tm_durable fresh_log" "agree.log_ok 0 fresh_log"
  by (simp_all add: tm_durable_def agree.log_ok_def)

lemma sample_mgr_inv: "n < 2 ^ 31 - 1 \<Longrightarrow> tm_inv n sample_mgr"
  using start_inv(1) [OF sample_start, of n 0] fresh_log_durable by (simp add: agree_inv)

lemma sample_begin: "tm_step (sample_event BEGINTX 5 8001) sample_mgr = Running sample_begun"
proof -
  let ?s = "sample_mgr\<lparr>tm_vclock := sample_clock 7000 2\<rparr>"
  have "tm_inv 0 ?s"
    using sample_mgr_inv [of 0] by (simp add: agree_inv [symmetric] agree.inv_def)
  then show ?thesis
    using tm_begin_live [of ?s sample_os 0 "sample_msg BEGINTX 5" "sample_addr 8001"]
    by (simp add: sample_step [of sample_mgr 1] sample_os_ok tm_handle_def sample_begun_def
        reusable_def zero_transaction_def cmd_of_code [of BEGINTX, simplified])
qed

lemma sample_begun_fields [simp]:
  "live sample_begun" "tm_out sample_begun = []" "tmgr_port sample_begun = 7000" "tm_vclock sample_begun = sample_clock 7000 2"
  "findTransaction 5 sample_begun = Some 0" "transactions sample_begun ! 0 = new_transaction 5 (sample_addr 8001)"
  "commit_crash sample_begun = False" "abort_crash sample_begun = False" "tm_server sample_begun = Some (sample_server 7000)"
  "length (transactions sample_begun) = 4"
  "log_entries (tm_log sample_begun) = [txentry_init LOG_BEGIN 5 (sample_clock 7000 2)]"
  using put_entry_room(1) [of 0 fresh_log]
  by (simp_all add: sample_begun_def findTransaction_def)

lemma sample_begun_inv: "n < 2 ^ 31 - 2 \<Longrightarrow> tm_inv n sample_begun"
  using agree.tm_step_inv [of "sample_event BEGINTX 5 8001" sample_mgr n] sample_mgr_inv [of "Suc n"]
  by (simp add: sample_begin agree_inv)

end
