(* ===== verification/TWorkerClaims.thy ===== *)
theory TWorkerClaims
  imports TWorkerLive Samples
begin

text \<open>
  The properties of the worker, each evaluated at a worker on port 8001 whose manager is on
  port 7000, and the defects around the vote.
\<close>

section \<open>A worker on port 8001\<close>

definition sample_store :: objstore_t where
  "sample_store = (zero_store \<lparr>tv_sec = 0, tv_usec = 0\<rparr>)\<lparr>obj_a := 1, obj_b := 2\<rparr>"

definition host_buf :: "char list" where
  "host_buf = ''localhost'' @ replicate 55 NUL"

definition sample_head :: txlog_head_t where
  "sample_head = zero_head\<lparr>tm_host := host_buf, tm_port := 7000, h_vclock := sample_clock 8001 3\<rparr>"

definition sample_update :: txlog_entry_t where
  "sample_update = (txentry_init LOG_UPDATE 5 (sample_clock 8001 2))\<lparr>old_a := 7, old_b := 8\<rparr>"

text \<open>Logs of transaction 5: begun, begun and updated, begun and updated and prepared.\<close>

definition sample_entries :: "nat \<Rightarrow> txlog_entry_t list" where
  "sample_entries k = take k [txentry_init LOG_BEGIN 5 (sample_clock 8001 1), sample_update,
     txentry_init LOG_PREPARED 5 (sample_clock 8001 3)]"

definition sample_log :: "nat \<Rightarrow> txlog_t" where
  "sample_log k = \<lparr>log_slots = sample_entries k, header = sample_head\<lparr>tx_count := of_nat (length (sample_entries k))\<rparr>\<rparr>"

definition sample_worker :: "nat \<Rightarrow> thread_pc \<Rightarrow> worker_state_t" where
  "sample_worker k pc = \<lparr>node_id = 8001, wk_server = Some (sample_server 9001), wk_log = sample_log k,
     wk_vclock = sample_clock 8001 3, wk_store = sample_store, wk_tm_port = 7000, wk_tm_host = host_buf,
     wk_transaction = 5, wk_delay = 0, is_active = (pc \<noteq> TIdle), do_commit = True, do_abort = False,
     uncertain = (pc = TUncertain), wk_pc = pc, cmd_server = Some (sample_server 8001),
     wk_viz = \<lparr>viz_fd = Some 8001, viz_events = []\<rparr>, wk_out = []\<rparr>"

lemma sample_log_facts [simp]:
  "log_entries (sample_log k) = sample_entries k" "log_room n (sample_log k) = (length (sample_entries k) + n < 2 ^ 31)"
proof -
  have "length (sample_entries k) \<le> 3" by (simp add: sample_entries_def)
  then have "unat (of_nat (length (sample_entries k)) :: u32) = length (sample_entries k)" by (intro unat_of_nat_small) simp
  then show "log_entries (sample_log k) = sample_entries k" "log_room n (sample_log k) = (length (sample_entries k) + n < 2 ^ 31)"
    by (simp_all add: sample_log_def log_entries_def log_room_def log_count_def)
qed

lemma sample_entries_simps [simp]:
  "sample_entries (Suc 0) = [txentry_init LOG_BEGIN 5 (sample_clock 8001 1)]"
  "sample_entries 2 = [txentry_init LOG_BEGIN 5 (sample_clock 8001 1), sample_update]"
  "sample_entries 3 = [txentry_init LOG_BEGIN 5 (sample_clock 8001 1), sample_update,
     txentry_init LOG_PREPARED 5 (sample_clock 8001 3)]"
  by (simp_all add: sample_entries_def)

lemma sample_update_facts [simp]: "is_update sample_update" "old_vals sample_update = (7, 8, [])" "id_fits (old_id sample_update)"
  by (simp_all add: is_update_def sample_update_def old_vals_def id_fits_def)

lemma sample_store_facts [simp]: "store_wf sample_store" "obj_vals sample_store = (1, 2, [])"
  by (simp_all add: sample_store_def store_wf_def obj_vals_def zero_store_def terminated_def)

lemma sample_worker_fields [simp]:
  "wk_live (sample_worker k pc)" "wk_pc (sample_worker k pc) = pc" "wk_log (sample_worker k pc) = sample_log k"
  "wk_store (sample_worker k pc) = sample_store" "wk_transaction (sample_worker k pc) = 5"
  "vc_lookup (wk_vclock (sample_worker k pc)) (node_id (sample_worker k pc)) = Some 3"
  "wk_out (sample_worker k pc) = []" "is_active (sample_worker k pc) = (pc \<noteq> TIdle)" "uncertain (sample_worker k pc) = (pc = TUncertain)"
  "do_commit (sample_worker k pc)" "wk_delay (sample_worker k pc) = 0"
  by (simp_all add: sample_worker_def wk_live_def sample_clock_def zero_clock_list)

lemma sample_worker_wf: "k \<in> {1, 2, 3} \<Longrightarrow> wk_wf 100 (sample_worker k pc)"
  by (auto simp: wk_wf_def ids_ok_def)

lemma sample_committed [simp]:
  "committed_vals (sample_worker (Suc 0) pc) = (1, 2, [])" "committed_vals (sample_worker 2 pc) = (7, 8, [])"
  "committed_vals (sample_worker 3 pc) = (7, 8, [])"
  by (simp_all add: committed_vals_def undo_vals_def since_def)

section \<open>Atomicity\<close>

text \<open>
  C7. A crash undoes an open transaction. Take a worker that begins or joins a transaction, let
  both of its threads run for as long as they like, with updates, votes, errors from the
  manager and failing system calls, and let the process stop anywhere, but never receive a
  commit. If the last thing in its log is then an update, the next start restores the values
  the store had before the transaction.
\<close>

theorem crash_undoes_transaction:
  assumes "wk_wf (Suc (n + length es)) s" and "\<not> is_active s" and "wk_enter os c txt msg s = Running s1"
    and "admissible (wk_acc (Some (obj_vals (wk_store s)))) wk_step es s1"
    and "final (run_machine wk_step es s1) = s2"
    and "log_room 1 (wk_log s2)" and "log_entries (wk_log s2) \<noteq> []" and "is_update (last (log_entries (wk_log s2)))"
    and "wk_main_start os' w0 argv (Some (wk_store s2)) (Some (wk_log s2)) = Inr (Running s3)"
  shows "obj_vals (wk_store s3) = obj_vals (wk_store s)"
proof -
  have "wk_keeps (Some (obj_vals (wk_store s))) (n + length es) s1"
  proof -
    have keeps: "wk_keeps None (Suc (n + length es)) s" using assms(1) by (simp add: wk_keeps_def)
    have "wk_wf (n + length es) s1"
      using enter_keeps [OF keeps, of os c "txt" msg] assms(3) by (simp add: wk_keeps_def)
    moreover have room: "log_room (Suc (n + length es)) (wk_log s)" using assms(1) by (simp add: wk_wf_def)
    ultimately show ?thesis
      using enter_Running(1,5) [OF assms(3,2) room] by (auto simp: wk_keeps_def committed_vals_def)
  qed
  from wk.run_inv [OF this assms(4)] assms(5) have "wk_keeps (Some (obj_vals (wk_store s))) 0 s2"
    by (cases "run_machine wk_step es s1") (auto dest: wk_keeps_0)
  then show ?thesis
    using start_undoes(1) [OF assms(9), of 0] assms(6-8) by (simp add: wk_keeps_def wk_wf_def committed_vals_def)
qed

text \<open>A worker that begins transaction 6 and then changes A.\<close>

definition sample_request :: message_t where
  "sample_request = (sample_msg BEGINTX 6)\<lparr>m_strdata := host_buf, m_port := 7000\<rparr>"

definition sample_new_a :: "thread \<times> os_t \<times> recv_event" where
  "sample_new_a = (MainThread, sample_os,
     RDatagram 200 (message_to_nbo ((sample_msg NEW_A 0)\<lparr>m_value := 42\<rparr>)) (sample_addr 6000))"

lemma host_buf_facts [simp]: "length host_buf = 64" "terminated host_buf"
  by (simp_all add: host_buf_def terminated_def)

lemma sample_begun_and_updated:
  obtains s1 s2 where "wk_enter sample_os BEGINTX [] sample_request (sample_worker 1 TIdle) = Running s1"
    "is_active s1" "wk_step sample_new_a s1 = Running s2" "wk_wf 90 s2"
    "log_entries (wk_log s2) \<noteq> []" "is_update (last (log_entries (wk_log s2)))"
    "vc_lookup (h_vclock (header (wk_log s2))) 8001 = Some 4" "obj_vals (wk_store s2) = (42, 2, [])"
proof -
  let ?s = "sample_worker 1 TIdle" and ?m = "(sample_msg NEW_A 0)\<lparr>m_value := 42\<rparr>"
  have wf: "wk_wf 100 ?s" by (rule sample_worker_wf) simp
  have "\<exists>s'. wk_enter sample_os BEGINTX [] sample_request ?s = Running s' \<and> cmd_server s' = cmd_server ?s \<and>
      node_id s' = node_id ?s \<and> wk_vclock s' = wk_vclock ?s \<and> viz_fd (wk_viz s') \<noteq> None"
    by (rule enter_live) (simp_all add: sample_os_ok sample_worker_def fits_msg_def sample_request_def sample_log_def
        sample_head_def)
  then obtain s1 where s1: "wk_enter sample_os BEGINTX [] sample_request ?s = Running s1" "cmd_server s1 \<noteq> None"
      "node_id s1 = 8001" "vc_lookup (wk_vclock s1) 8001 = Some 3" "viz_fd (wk_viz s1) \<noteq> None"
    by (auto simp: sample_worker_def sample_clock_def zero_clock_list)
  have "log_room (Suc 99) (wk_log ?s)" using wf by (simp add: wk_wf_def)
  from enter_Running [OF s1(1) _ this] have a1: "is_active s1" "wk_store s1 = sample_store" by simp_all
  have wf1: "wk_wf 99 s1"
    using enter_keeps [of None 99 ?s sample_os BEGINTX "[]" sample_request] s1(1) wf by (simp add: wk_keeps_def)
  obtain vc where vc: "wk_step sample_new_a s1 = wk_handle sample_os ?m (wk_clocked vc s1)" "vc_lookup vc 8001 = Some 4"
    using command_live [OF sample_os_ok, of s1 3 200 "message_to_nbo ?m" "sample_addr 6000"] s1(2-4) by (auto simp: sample_new_a_def wk_step_def nbo.dec_enc)
  have h: "wk_handle sample_os ?m = wk_new_a sample_os ?m"
    using cmd_of_code [of NEW_A] by (intro ext) (simp add: wk_handle_def sample_msg_def)
  have c: "wk_wf (Suc 98) (wk_clocked vc s1)" "is_active (wk_clocked vc s1)" "viz_fd (wk_viz (wk_clocked vc s1)) \<noteq> None"
      "obj_vals (wk_store (wk_clocked vc s1)) = (1, 2, [])" using wf1 a1 s1(5) by simp_all
  obtain s2 u where "wk_new_a sample_os ?m (wk_clocked vc s1) = Running s2" "wk_wf 98 s2"
      "log_entries (wk_log s2) = log_entries (wk_log (wk_clocked vc s1)) @ [u]" "is_update u"
      "obj_vals (wk_store s2) = (m_value ?m, 2, [])" "h_vclock (header (wk_log s2)) = e_vclock u"
      "e_vclock u = wk_vclock (wk_clocked vc s1)"
    using new_a_live [OF sample_os_ok c, of ?m] by blast
  then show thesis
    using s1(1) a1 vc h by (intro that [of s1 s2]) (simp_all add: wk_wf_def log_room_def)
qed

lemma strtoul_8001: "ucast (fst (strtoul10 (lit ''8001''))) = (8001 :: u32)"
  by (simp add: strtoul10_def sign_split_def isspace_def digit_val_def)

theorem crash_undoes_transaction_witness:
  "\<exists>s1 s2 s3. wk_enter sample_os BEGINTX [] sample_request (sample_worker 1 TIdle) = Running s1 \<and>
     wk_step sample_new_a s1 = Running s2 \<and> obj_vals (wk_store s2) = (42, 2, []) \<and>
     wk_main_start sample_os (sample_worker 1 TIdle) [[], lit ''8001''] (Some (wk_store s2)) (Some (wk_log s2)) = Inr (Running s3) \<and>
     obj_vals (wk_store s3) = (1, 2, [])"
proof -
  obtain s1 s2 where s: "wk_enter sample_os BEGINTX [] sample_request (sample_worker 1 TIdle) = Running s1"
    "is_active s1" "wk_step sample_new_a s1 = Running s2" "wk_wf 90 s2"
    "log_entries (wk_log s2) \<noteq> []" "is_update (last (log_entries (wk_log s2)))"
    "vc_lookup (h_vclock (header (wk_log s2))) 8001 = Some 4" "obj_vals (wk_store s2) = (42, 2, [])"
    by (rule sample_begun_and_updated)
  have acc: "admissible (wk_acc (Some (obj_vals (wk_store (sample_worker 1 TIdle))))) wk_step [sample_new_a] s1"
    using s(2) by (simp add: wk_acc_def sample_new_a_def nbo.dec_enc fits_msg_def sample_msg_def terminated_def split: outcome.splits)
  have "wk_wf 2 (sample_worker 1 TIdle)" using sample_worker_wf [of 1 TIdle] by (simp add: wk_wf_def)
  moreover have room: "log_room 1 (wk_log s2)" using s(4) by (simp add: wk_wf_def log_room_def)
  moreover obtain s3 where s3: "wk_main_start sample_os (sample_worker 1 TIdle) [[], lit ''8001''] (Some (wk_store s2)) (Some (wk_log s2)) = Inr (Running s3)"
    using start_live [of sample_os "[[], lit ''8001'']" "wk_log s2" 4 "wk_store s2" 0 "sample_worker 1 TIdle"] s(4-7) room
    by (auto simp: sample_os_ok strtoul_8001 wk_wf_def)
  ultimately have "obj_vals (wk_store s3) = obj_vals (wk_store (sample_worker 1 TIdle))"
    using crash_undoes_transaction [of 0 "[sample_new_a]" "sample_worker 1 TIdle" sample_os BEGINTX "[]" sample_request s1 s2
        sample_os "sample_worker 1 TIdle" "[[], lit ''8001'']" s3] acc s
    by (simp add: numeral_2_eq_2)
  then show ?thesis using s s3 by auto
qed

text \<open>
  C15. What the roll-back does, exactly: all updates since the last beginning or decision are
  undone, and an abort of that transaction is logged behind them.
\<close>

theorem rollback_restores:
  assumes "os_ok os" and "wk_wf (Suc n) s" and "log_entries (wk_log s) = es @ b # us" and "boundary b"
    and "\<forall>u \<in> set us. \<not> boundary u" and "filter is_update us = u # rest"
  shows "\<exists>s'. update_rollback os s = Running s' \<and> obj_vals (wk_store s') = old_vals u \<and>
     log_entries (wk_log s') = es @ b # us @ [txentry_init LOG_ABORT (e_transaction b) (e_vclock b)]"
proof -
  have tw: "takeWhile (\<lambda>e. \<not> boundary e) (rev us @ b # rev es) = rev us"
    using assms(4,5) by (subst takeWhile_append2) auto
  then have "committed_vals s = old_vals u"
    using assms(3,6) by (simp add: committed_vals_def undo_vals_def since_def)
  moreover have "find boundary (rev us @ b # rev es) = Some b"
    using assms(4,5) by (induction us rule: rev_induct) auto
  ultimately show ?thesis
    using update_rollback_live [OF assms(1,2)] assms(3) by (metis (no_types) undone_def abort_of_def
        option.case(2) rev.simps(2) rev_append append_assoc append_Cons append_Nil)
qed

theorem rollback_restores_witness:
  "\<exists>s'. update_rollback sample_os (sample_worker 2 TLoop) = Running s' \<and> obj_vals (wk_store s') = (7, 8, [])"
  using rollback_restores [of sample_os 99 "sample_worker 2 TLoop" "[]" "txentry_init LOG_BEGIN 5 (sample_clock 8001 1)"
      "[sample_update]" sample_update "[]"] sample_worker_wf [of 2 TLoop]
  by (auto simp: sample_os_ok)

section \<open>Votes and decisions\<close>

text \<open>
  C13. Asked to prepare, a worker that will commit puts \<^verbatim>\<open>PREPARED\<close> into its log before it
  votes, and is then uncertain: the thread only waits for the decision. With a negative
  delay it stops between the two, with the promise logged and no vote sent.
\<close>

theorem vote_after_log:
  assumes "wk_live s" and "os_ok os" and "wk_wf (Suc n) s" and "vc_lookup (wk_vclock s) (node_id s) = Some c"
    and "wk_pc s = TLoop" and "do_commit s" and "told PREPARE_TO_COMMIT buf" and "0 < len"
  shows "\<exists>m vc. tx_worker_thread os (RDatagram len buf a) s = m \<and>
     log_entries (wk_log (final m)) = log_entries (wk_log s) @ [txentry_init LOG_PREPARED (wk_transaction s) vc] \<and>
     obj_vals (wk_store (final m)) = obj_vals (wk_store s) \<and>
     (if sint (wk_delay s) < 0 then (\<exists>s'. m = Halted (Exit 1) s' \<and> wk_out s' = wk_out s)
      else (\<exists>s' d. m = Running s' \<and> wk_pc s' = TUncertain \<and> uncertain s' \<and> wk_out s' = wk_out s @ [d] \<and>
        m_type (message_from_nbo (dg_msg d)) = cmd_code PREPARED \<and> m_tid (message_from_nbo (dg_msg d)) = wk_transaction s))"
proof -
  obtain vc where vc: "thread_clock os (message_from_nbo buf) s = Running (wk_clocked vc s)"
    using thread_clock_live [OF assms(2,4)] by blast
  let ?e = "txentry_init LOG_PREPARED (wk_transaction s) vc"
  have room: "log_room (Suc n) (wk_log (wk_clocked vc s))" using assms(3) by (simp add: wk_wf_def)
  let ?l = "wk_logged ?e (wk_noted ''Voting COMMIT'' (wk_clocked vc s))"
  let ?v = "(message_init (Some vc))\<lparr>m_tid := wk_transaction s, m_type := cmd_code PREPARED\<rparr>"
  have run: "tx_worker_thread os (RDatagram len buf a) s = (if sint (wk_delay s) < 0 then Halted (Exit 1) ?l
      else Running ((wk_posted (wk_dgram os ?l ?v) ?l)\<lparr>uncertain := True, wk_pc := TUncertain\<rparr>))"
    using assms(1,2,5-8) vc cmd_of_code [of PREPARE_TO_COMMIT]
    by (simp add: tx_worker_thread_def tx_worker_loop_def vote_commit_def wk_live_def)
  show ?thesis
    unfolding run using put_entry_room(1) [OF room, of ?e]
    by (intro exI [where x = "if sint (wk_delay s) < 0 then Halted (Exit 1) ?l
      else Running ((wk_posted (wk_dgram os ?l ?v) ?l)\<lparr>uncertain := True, wk_pc := TUncertain\<rparr>)"] exI [where x = vc])
      (simp add: wk_dgram_def nbo.dec_enc)
qed

theorem vote_after_log_witness:
  "\<exists>s' d. tx_worker_thread sample_os (RDatagram 200 (message_to_nbo (sample_msg PREPARE_TO_COMMIT 0)) (sample_addr 7000))
      (sample_worker 2 TLoop) = Running s' \<and> wk_pc s' = TUncertain \<and> wk_out s' = [d] \<and>
      m_type (message_from_nbo (dg_msg d)) = cmd_code PREPARED"
  using vote_after_log [of "sample_worker 2 TLoop" sample_os 99 3 "message_to_nbo (sample_msg PREPARE_TO_COMMIT 0)" 200 "sample_addr 7000"]
    sample_worker_wf [of 2 TLoop]
  by (auto simp: sample_os_ok nbo.dec_enc)

text \<open>
  C14. A worker that starts on a log that ends in \<^verbatim>\<open>PREPARED\<close> keeps the new values and waits in
  the uncertain state for the decision about that transaction, from the manager whose address
  is in the log. A commit leaves the values and is logged; an abort restores the values from
  before the transaction. Either way the worker is free for the next transaction.
\<close>

theorem prepared_recovers:
  assumes "wk_main_start os w0 argv (Some store) (Some log) = Inr (Running s)"
    and "log_room (Suc n) log" and "ids_ok (log_entries log)" and "store_wf store"
    and "log_entries log \<noteq> []" and "e_type (last (log_entries log)) = log_code LOG_PREPARED"
    and "vc_lookup (wk_vclock s) (node_id s) = Some c" and "os_ok os'"
    and "told COMMIT buf \<or> told ABORT buf" and "0 < len"
  shows "\<exists>s'. wk_pc s = TUncertain \<and> wk_transaction s = e_transaction (last (log_entries log)) \<and>
     obj_vals (wk_store s) = obj_vals store \<and>
     tx_worker_thread os' (RDatagram len buf a) s = Running s' \<and> \<not> is_active s' \<and> \<not> uncertain s' \<and> wk_pc s' = TIdle \<and>
     obj_vals (wk_store s') =
       (if told COMMIT buf then obj_vals store else undo_vals (log_entries log) (obj_vals store)) \<and>
     undo_vals (log_entries (wk_log s')) (obj_vals (wk_store s')) = obj_vals (wk_store s')"
proof -
  note st = start_uncertain [OF assms(1-6)]
  have live: "wk_live s" using st(9,10) by (simp add: wk_live_def)
  have cv: "committed_vals s = undo_vals (log_entries log) (obj_vals store)" by (simp add: committed_vals_def st)
  show ?thesis
  proof (cases "told COMMIT buf")
    case True
    obtain s' vc where s': "tx_worker_thread os' (RDatagram len buf a) s = Running s'" "wk_store s' = wk_store s"
      "log_entries (wk_log s') = log_entries (wk_log s) @ [txentry_init LOG_COMMIT (wk_transaction s) vc]"
      "wk_pc s' = TIdle" "\<not> is_active s'" "\<not> uncertain s'"
      using uncertain_commit [OF live assms(8) st(8) assms(7) st(1) True assms(10)] by blast
    then show ?thesis using True st by simp
  next
    case False
    then have ab: "told ABORT buf" using assms(9) by blast
    obtain s' where s': "tx_worker_thread os' (RDatagram len buf a) s = Running s'" "obj_vals (wk_store s') = committed_vals s"
      "log_entries (wk_log s') = log_entries (wk_log s) @ abort_of (log_entries (wk_log s))"
      "wk_pc s' = TIdle" "\<not> is_active s'" "\<not> uncertain s'"
      using uncertain_abort [OF live assms(8) st(8) assms(7) st(1) ab assms(10)] by blast
    moreover have "undo_vals (es @ abort_of es) (undo_vals es v) = undo_vals es v" for es v
      by (cases "find boundary (rev es)") (simp_all add: abort_of_def)
    ultimately show ?thesis using False st cv by simp
  qed
qed

lemma sample_restart_uncertain:
  "\<exists>s. wk_main_start sample_os (sample_worker 1 TIdle) [[], lit ''8001''] (Some sample_store) (Some (sample_log 3)) = Inr (Running s) \<and>
     vc_lookup (wk_vclock s) (node_id s) = Some 4"
proof -
  let ?w = "sample_worker 1 TIdle" and ?i = "wk_init (sample_worker 1 TIdle) 8001 sample_store (sample_log 3)"
  have "wk_vclock ?i = sample_clock 8001 3"
    by (simp add: wk_init_def txlog_read_clock_def sample_log_def sample_head_def)
  then have wake: "wk_wake sample_os ?i = Running (?i\<lparr>wk_vclock := sample_clock 8001 4,
      wk_viz := \<lparr>viz_fd = Some 8001, viz_events = [(8001, ''Started worker'', sample_clock 8001 4)]\<rparr>\<rparr>)"
    by (simp add: wk_wake_def wk_with_store_def objstore_mapped_def vclock_has_def vclock_increment_def sample_clock_def zero_clock_list wk_read_id_def
        objstore_get_id_def wk_viz_append_def shitviz_append_def viz_closed_def wk_init_def sample_store_def zero_store_def
        terminated_def)
  let ?s1 = "?i\<lparr>wk_vclock := sample_clock 8001 4,
      wk_viz := \<lparr>viz_fd = Some 8001, viz_events = [(8001, ''Started worker'', sample_clock 8001 4)]\<rparr>\<rparr>"
  have last: "txlog_last_entry (sample_log 3) zero_entry = txentry_init LOG_PREPARED 5 (sample_clock 8001 3)"
    using last_entry_of [of 0 "sample_log 3" zero_entry] by simp
  have srv: "server_alloc sample_os p 10 = Inr (\<lparr>srv_port = p, socket_id = 0, srv_timeout = 10,
      srv_address = sample_addr p\<rparr>)" for p
    by (simp add: server_alloc_def sample_os_def resolve_host_def sample_addr_def)
  obtain d where d: "strcpy host_buf host_buf = Inr d"
    using strcpy_ok [of host_buf host_buf] length_cstr_less [of host_buf] by auto
  have "\<exists>s2. wk_recover sample_os ?s1 = Running s2 \<and> wk_vclock s2 = sample_clock 8001 4 \<and> node_id s2 = 8001"
    using last d
    by (simp add: wk_recover_def wk_init_def tx_manager_spawn_def open_listener_def srv log_head_def
        sample_os_def [THEN arg_cong [where f = os_stack_entry]] log_of_code [of LOG_PREPARED, simplified] Let_def)
      (simp add: sample_worker_def sample_log_def sample_head_def)
  then show ?thesis
    using wake by (auto simp: wk_main_start_def wk_boot_def objstore_init_def txlog_open_def txlog_mapped_def strtoul_8001 srv
        sample_clock_def zero_clock_list)
qed

theorem prepared_recovers_witness:
  "\<exists>s s'. wk_main_start sample_os (sample_worker 1 TIdle) [[], lit ''8001''] (Some sample_store) (Some (sample_log 3)) = Inr (Running s) \<and>
     tx_worker_thread sample_os (RDatagram 200 (message_to_nbo (sample_msg ABORT 5)) (sample_addr 7000)) s = Running s' \<and>
     obj_vals (wk_store s') = (7, 8, [])"
proof -
  obtain s where s: "wk_main_start sample_os (sample_worker 1 TIdle) [[], lit ''8001''] (Some sample_store) (Some (sample_log 3)) = Inr (Running s)"
    and c: "vc_lookup (wk_vclock s) (node_id s) = Some 4" using sample_restart_uncertain by blast
  have "undo_vals (sample_entries 3) (1, 2, []) = (7, 8, [])" by (simp add: undo_vals_def since_def)
  with prepared_recovers [OF s, of 9, OF _ _ _ _ _ c sample_os_ok, of "message_to_nbo (sample_msg ABORT 5)" 200 "sample_addr 7000"] s
  show ?thesis by (auto simp: nbo.dec_enc ids_ok_def)
qed

text \<open>
  C16. The thread of an uncertain worker waits: in its iterations nothing but a decision changes
  the store or the log, every time-out sends one \<^verbatim>\<open>ASK\<close> for its transaction, and any other
  message is only noted. This is about the thread; the main thread of the process still
  obeys commands, and what that does is stated among the defects below.
\<close>

theorem uncertain_waits:
  assumes "wk_live s" and "os_ok os" and "vc_lookup (wk_vclock s) (node_id s) = Some c" and "wk_pc s = TUncertain"
    and "ev = RTimeout \<or> (\<exists>len buf a. ev = RDatagram len buf a \<and> 0 < len \<and> \<not> told COMMIT buf \<and> \<not> told ABORT buf)"
  shows "\<exists>s'. tx_worker_thread os ev s = Running s' \<and> wk_pc s' = TUncertain \<and> wk_store s' = wk_store s \<and>
     log_entries (wk_log s') = log_entries (wk_log s) \<and>
     map (\<lambda>d. (m_type (message_from_nbo (dg_msg d)), m_tid (message_from_nbo (dg_msg d)))) (drop (length (wk_out s)) (wk_out s')) =
       (if ev = RTimeout then [(cmd_code ASK, wk_transaction s)] else [])"
  using assms(5)
proof
  assume "ev = RTimeout"
  then show ?thesis
    using assms(1,2,4) by (simp add: tx_worker_thread_def tx_worker_uncertain_def wk_live_def wk_dgram_def nbo.dec_enc)
next
  assume "\<exists>len buf a. ev = RDatagram len buf a \<and> 0 < len \<and> \<not> told COMMIT buf \<and> \<not> told ABORT buf"
  then obtain len buf a where ev: "ev = RDatagram len buf a" "0 < len" "\<not> told COMMIT buf" "\<not> told ABORT buf" by blast
  obtain vc where vc: "thread_clock os (message_from_nbo buf) s = Running (wk_clocked vc s)"
    using thread_clock_live [OF assms(2,3)] by blast
  have "cmd_of (m_type (message_from_nbo buf)) \<noteq> Some COMMIT" "cmd_of (m_type (message_from_nbo buf)) \<noteq> Some ABORT"
    using ev(3,4) by (simp_all only: cmd_of_eq_Some) blast+
  then have "\<exists>m. tx_worker_thread os ev s = Running (wk_noted m (wk_clocked vc s))"
    using assms(1,4) ev(1,2) vc
    by (auto simp: tx_worker_thread_def tx_worker_uncertain_def wk_live_def split: option.splits cmdType.splits)
  then show ?thesis using assms(4) ev(1) by auto
qed

theorem uncertain_waits_witness:
  "\<exists>s'. tx_worker_thread sample_os RTimeout (sample_worker 3 TUncertain) = Running s' \<and>
     map (\<lambda>d. m_type (message_from_nbo (dg_msg d))) (wk_out s') = [cmd_code ASK]"
  using uncertain_waits [of "sample_worker 3 TUncertain" sample_os 3 RTimeout] by (auto simp: sample_os_ok map_eq_Cons_conv)

text \<open>
  C17. Every run of the worker, with any interleaving of its threads and any failures, keeps the
  log readable, the identifiers in it and in the store terminated, and leaves them so when
  the process stops; strings that arrive must end within their buffer.
\<close>

theorem worker_run_wf:
  assumes "wk_wf (n + length es) s" and "admissible (wk_acc None) wk_step es s"
  shows "ensures (wk_wf n) (wk_wf 0) (run_machine wk_step es s)"
  by (rule ensures_mono [OF wk.run_inv [of None n es s]]) (use assms in \<open>simp_all add: wk_keeps_def\<close>)

theorem worker_run_wf_witness:
  "wk_wf (90 + length [sample_new_a]) (sample_worker 2 TLoop) \<and>
     ensures (wk_wf 90) (wk_wf 0) (run_machine wk_step [sample_new_a] (sample_worker 2 TLoop))"
proof -
  have "admissible (wk_acc None) wk_step [sample_new_a] (sample_worker 2 TLoop)"
    by (simp add: wk_acc_def sample_new_a_def nbo.dec_enc fits_msg_def sample_msg_def terminated_def split: outcome.splits)
  moreover have "wk_wf (90 + length [sample_new_a]) (sample_worker 2 TLoop)"
    using sample_worker_wf [of 2 TLoop] by (simp add: wk_wf_def)
  ultimately show ?thesis using worker_run_wf [of 90 "[sample_new_a]" "sample_worker 2 TLoop"] by blast
qed

text \<open>
  C18. Every update inside a transaction, of A, of B or of the identifier, logs the three old
  values first and then changes the one it is for; what the transaction would be rolled back
  to stays the same. If the log cannot be flushed, the process stops with the store untouched.
  The new identifier has to end within its buffer.
\<close>

theorem update_saves_old:
  assumes "os_ok os" and "wk_wf (Suc n) s" and "is_active s" and "viz_fd (wk_viz s) \<noteq> None"
    and "obj_vals (wk_store s) = (x, y, z)" and "id_fits (m_strdata msg)" and "\<not> os_msync os'"
  shows "saves_old (wk_new_a os msg s) s (m_value msg, y, z) \<and>
     saves_old (wk_new_b os msg s) s (x, m_value msg, z) \<and>
     saves_old (wk_new_id os msg s) s (x, y, cstr (m_strdata msg)) \<and>
     wk_store (final (wk_new_a os' msg s)) = wk_store s \<and> wk_store (final (wk_new_b os' msg s)) = wk_store s \<and>
     wk_store (final (wk_new_id os' msg s)) = wk_store s"
  using updates_save [OF assms(1-5)] updates_log_first [OF assms(3,7)] assms(6) by simp

theorem update_saves_old_witness:
  "saves_old (wk_new_id sample_os ((sample_msg NEW_IDSTR 0)\<lparr>m_strdata := host_buf\<rparr>) (sample_worker 2 TLoop))
     (sample_worker 2 TLoop) (1, 2, cstr host_buf)"
proof -
  have "id_fits host_buf" by (rule id_fits_terminated) simp_all
  then show ?thesis
    using update_saves_old [of sample_os 99 "sample_worker 2 TLoop" 1 2 "[]" "(sample_msg NEW_IDSTR 0)\<lparr>m_strdata := host_buf\<rparr>"
        "sample_os\<lparr>os_msync := False\<rparr>"] sample_worker_wf [of 2 TLoop]
    by (auto simp: sample_os_ok) (simp add: sample_worker_def)
qed

section \<open>Defects around the vote\<close>

text \<open>
  C28. A worker does not read the id in a decision: a commit of another transaction, or with no
  id, which is how the manager sends them, makes the thread log the commit of its own
  transaction and end, even before it has voted.
\<close>

theorem foreign_commit_logged:
  assumes "wk_live s" and "os_ok os" and "wk_wf (Suc n) s" and "vc_lookup (wk_vclock s) (node_id s) = Some c"
    and "wk_pc s = TLoop \<or> wk_pc s = TUncertain" and "told COMMIT buf" and "0 < len"
    and "m_tid (message_from_nbo buf) \<noteq> wk_transaction s"
  shows "\<exists>s' vc. tx_worker_thread os (RDatagram len buf a) s = Running s' \<and> wk_store s' = wk_store s \<and>
    log_entries (wk_log s') = log_entries (wk_log s) @ [txentry_init LOG_COMMIT (wk_transaction s) vc] \<and>
    wk_pc s' = TIdle \<and> \<not> is_active s'"
  using commit_logged [OF assms(1-7)] .

theorem foreign_commit_logged_witness:
  "\<exists>s' vc. tx_worker_thread sample_os (RDatagram 200 (message_to_nbo (sample_msg COMMIT 6)) (sample_addr 7000))
       (sample_worker 2 TLoop) = Running s' \<and>
     log_entries (wk_log s') = sample_entries 2 @ [txentry_init LOG_COMMIT 5 vc]"
  using foreign_commit_logged [of "sample_worker 2 TLoop" sample_os 99 3 "message_to_nbo (sample_msg COMMIT 6)" 200 "sample_addr 7000"]
    sample_worker_wf [of 2 TLoop]
  by (auto simp: sample_os_ok nbo.dec_enc)

text \<open>
  C26. A worker that has voted to commit still obeys an abort command: it rolls back at once.
  When the commit of the manager arrives it is logged all the same, so the transaction is
  committed everywhere and its updates are lost here.
\<close>

theorem abort_after_vote_loses_updates:
  assumes "wk_live s" and "os_ok os" and "wk_wf (Suc (Suc n)) s" and "vc_lookup (wk_vclock s) (node_id s) = Some c"
    and "is_active s" and "wk_pc s = TUncertain" and "told COMMIT buf" and "0 < len"
  shows "\<exists>s1 s2 vc. wk_abort os s = Running s1 \<and> obj_vals (wk_store s1) = committed_vals s \<and>
     tx_worker_thread os (RDatagram len buf a) s1 = Running s2 \<and> obj_vals (wk_store s2) = committed_vals s \<and>
     log_entries (wk_log s2) = log_entries (wk_log s) @ abort_of (log_entries (wk_log s)) @
       [txentry_init LOG_COMMIT (wk_transaction s) vc]"
proof -
  obtain u where u: "update_rollback os s = Running u"
    "undone (committed_vals s) (log_entries (wk_log s) @ abort_of (log_entries (wk_log s))) (Suc n) u" "wk_rest u = wk_rest s"
    using update_rollback_live [OF assms(2,3)] by blast
  note r = wk_rest_eqD [OF u(3)]
  let ?s1 = "wk_noted ''Aborting transaction'' (u\<lparr>do_commit := False, do_abort := True\<rparr>)"
  have run: "wk_abort os s = Running ?s1"
    using assms(1,5) u(1) r(8) by (simp add: wk_abort_def wk_live_def)
  have s1: "wk_live ?s1" "vc_lookup (wk_vclock ?s1) (node_id ?s1) = Some c" "wk_pc ?s1 = TUncertain" "wk_transaction ?s1 = wk_transaction s"
    using assms(1,4,6) r by (simp_all add: wk_live_def wk_noted_def)
  have "wk_wf (Suc n) ?s1" using u(2) by (simp add: undone_def)
  from uncertain_commit [OF s1(1) assms(2) this s1(2,3) assms(7,8), of a]
  obtain s2 vc where "tx_worker_thread os (RDatagram len buf a) ?s1 = Running s2" "wk_store s2 = wk_store ?s1"
    "log_entries (wk_log s2) = log_entries (wk_log ?s1) @ [txentry_init LOG_COMMIT (wk_transaction ?s1) vc]" by blast
  then show ?thesis
    using run u(2) s1(4) by (intro exI [of _ ?s1] exI [of _ s2] exI [of _ vc]) (simp add: undone_def)
qed

theorem abort_after_vote_witness:
  "\<exists>s1 s2. wk_abort sample_os (sample_worker 3 TUncertain) = Running s1 \<and>
     tx_worker_thread sample_os (RDatagram 200 (message_to_nbo (sample_msg COMMIT 5)) (sample_addr 7000)) s1 = Running s2 \<and>
     obj_vals (wk_store s2) = (7, 8, [])"
  using abort_after_vote_loses_updates [of "sample_worker 3 TUncertain" sample_os 98 3 "message_to_nbo (sample_msg COMMIT 5)" 200
      "sample_addr 7000"] sample_worker_wf [of 3 TUncertain]
  by (auto simp: sample_os_ok nbo.dec_enc)

text \<open>
  C27. A worker that has voted to commit also accepts further updates. If it stops after one, the
  next start sees an update at the end of the log and aborts the transaction on its own,
  without asking the manager, which may have committed it.
\<close>

theorem update_after_vote_aborts:
  assumes "os_ok os" and "wk_wf (Suc (Suc n)) s" and "is_active s" and "viz_fd (wk_viz s) \<noteq> None"
    and "wk_new_a os msg s = Running s1"
    and "wk_main_start os' w0 argv (Some (wk_store s1)) (Some (wk_log s1)) = Inr (Running s2)"
  shows "obj_vals (wk_store s2) = committed_vals s \<and> uncertain s2 = uncertain w0 \<and>
     log_entries (wk_log s2) = log_entries (wk_log s1) @ abort_of (log_entries (wk_log s))"
proof -
  obtain x y z where xyz: "obj_vals (wk_store s) = (x, y, z)" by (cases "obj_vals (wk_store s)")
  obtain u where u: "log_entries (wk_log s1) = log_entries (wk_log s) @ [u]" "is_update u" "old_vals u = (x, y, z)" "wk_wf (Suc n) s1"
    using new_a_live [OF assms(1-4) xyz, of msg] assms(5) by (metis outcome.inject(1))
  have "log_room (Suc n) (wk_log s1)" "ids_ok (log_entries (wk_log s1))" "store_wf (wk_store s1)"
    using u(4) by (simp_all add: wk_wf_def)
  from start_undoes [OF assms(6) this] u(1,2)
  have "obj_vals (wk_store s2) = undo_vals (log_entries (wk_log s)) (x, y, z)" "uncertain s2 = uncertain w0"
    "log_entries (wk_log s2) = log_entries (wk_log s1) @ abort_of (log_entries (wk_log s1))"
    using u(3) by simp_all
  moreover have "abort_of (log_entries (wk_log s1)) = abort_of (log_entries (wk_log s))"
    using u(1,2) by (simp add: abort_of_def)
  ultimately show ?thesis by (simp add: committed_vals_def xyz)
qed

theorem update_after_vote_witness:
  "\<exists>s1 s2. wk_new_a sample_os ((sample_msg NEW_A 0)\<lparr>m_value := 42\<rparr>) (sample_worker 3 TUncertain) = Running s1 \<and>
     wk_main_start sample_os (sample_worker 1 TIdle) [[], lit ''8001''] (Some (wk_store s1)) (Some (wk_log s1)) = Inr (Running s2) \<and>
     obj_vals (wk_store s2) = (7, 8, []) \<and> \<not> uncertain s2"
proof -
  let ?s = "sample_worker 3 TUncertain" and ?m = "(sample_msg NEW_A 0)\<lparr>m_value := 42\<rparr>"
  have c: "wk_wf (Suc (Suc 98)) ?s" "is_active ?s" "viz_fd (wk_viz ?s) \<noteq> None" "obj_vals (wk_store ?s) = (1, 2, [])"
    using sample_worker_wf [of 3 TUncertain] by (simp_all, simp add: sample_worker_def)
  obtain s1 u where s1: "wk_new_a sample_os ?m ?s = Running s1" "log_entries (wk_log s1) = log_entries (wk_log ?s) @ [u]" "is_update u"
      "wk_wf (Suc 98) s1" "h_vclock (header (wk_log s1)) = e_vclock u" "e_vclock u = wk_vclock ?s"
    using new_a_live [OF sample_os_ok c, of ?m] by blast
  have "vc_lookup (h_vclock (header (wk_log s1))) 8001 = Some 3"
    using s1(5,6) by (simp add: sample_worker_def sample_clock_def zero_clock_list)
  then obtain s2 where s2: "wk_main_start sample_os (sample_worker 1 TIdle) [[], lit ''8001''] (Some (wk_store s1)) (Some (wk_log s1)) = Inr (Running s2)"
    using start_live [of sample_os "[[], lit ''8001'']" "wk_log s1" 3 "wk_store s1" 98 "sample_worker 1 TIdle"] s1(2-4)
    by (auto simp: sample_os_ok strtoul_8001 wk_wf_def)
  from update_after_vote_aborts [OF sample_os_ok c(1-3) s1(1) s2] s1(1) s2 show ?thesis by auto
qed

end
