(* ===== verification/TManagerClaims.thy ===== *)
theory TManagerClaims
  imports Samples
begin

text \<open>
  The properties of the transaction manager, each evaluated at a manager that has just begun
  transaction 5 for the worker on port 8001, and the defects that the properties' side
  conditions exclude.
\<close>

section \<open>Safety over the life of a log\<close>

lemma sample_life:
  assumes "admissible disciplined tm_step es sample_mgr" and "length es < 2 ^ 31 - 1"
  shows "mgr_log_life (tm_log (final (run_machine tm_step es sample_mgr)))"
proof -
  have "mgr_log_life fresh_log"
    by (rule mgr_log_life.fresh [of sample_os]) (simp add: txlog_open_def sample_os_def fresh_log_def)
  from mgr_log_life.life [OF this sample_start, of es] assms show ?thesis by simp
qed

lemma sample_vote:
  "tm_step (sample_event PREPARED 5 8001) sample_begun =
     (let s = sample_begun\<lparr>tm_vclock := sample_clock 7000 3\<rparr> in
      Running (posted (to_workers s (mgr_msg COMMIT s) (t_nodes (new_transaction 5 (sample_addr 8001)))) (committed 0 s)))"
  using tm_prepared_last [of "sample_begun\<lparr>tm_vclock := sample_clock 7000 3\<rparr>" sample_os "sample_msg PREPARED 5" 0]
  by (simp add: sample_step [of _ 2] tm_handle_def cmd_of_code [of PREPARED, simplified] sample_os_ok
      new_transaction_def Let_def)

lemma sample_committed_types:
  "map e_type (log_entries (tm_log (final (run_machine tm_step
     [sample_event BEGINTX 5 8001, sample_event PREPARED 5 8001] sample_mgr)))) = [log_code LOG_BEGIN, log_code LOG_COMMIT]"
proof -
  have "log_room 1 (tm_log sample_begun)" using sample_begun_inv [of 1] by (simp add: tm_inv_def)
  then show ?thesis
    using put_entry_room(1) [of 0 "tm_log sample_begun"]
    by (simp add: sample_begin sample_vote committed_def Let_def)
qed

text \<open>
  C6. Whatever happens to the manager over any number of lives (failing system calls, crashes,
  restarts in the middle of a repair, lost, repeated or reordered messages), its log never
  holds a commit and an abort of the same transaction, provided that nobody asks to commit a
  decided transaction or to abort a committed one, and that requests to begin or abort and
  votes name ids other than 0. C25 and C29 show that the manager checks neither.
\<close>

theorem mgr_no_conflict:
  assumes "mgr_log_life log"
  shows "no_conflict (log_entries log)"
  using mgr_log_life_sane [OF assms] log_ok_no_conflict by (auto simp: log_sane_def)

theorem mgr_no_conflict_witness:
  "\<exists>log. mgr_log_life log \<and> map e_type (log_entries log) = [log_code LOG_BEGIN, log_code LOG_COMMIT] \<and>
     no_conflict (log_entries log)"
proof -
  let ?es = "[sample_event BEGINTX 5 8001, sample_event PREPARED 5 8001]"
  let ?log = "tm_log (final (run_machine tm_step ?es sample_mgr))"
  have "mgr_log_life ?log"
    by (rule sample_life) (simp_all add: disciplined_def sample_event_def nbo.dec_enc split: outcome.splits option.splits)
  then show ?thesis
    using mgr_no_conflict [of ?log] sample_committed_types by (intro exI [where x = ?log] conjI)
qed

text \<open>
  C10. The table agrees with the log throughout every run, whatever the messages are: ids are
  unique, every transaction in the table was begun in the log, a slot in \<^verbatim>\<open>BEGIN_STATE\<close> has
  only its beginning there, and a decided slot has that decision as its last entry. When the
  process stops, at any point, it leaves a log from which it can be restarted.
\<close>

theorem mgr_run_agrees:
  assumes "tm_inv (n + length es) s"
  shows "ensures (tm_inv n) (\<lambda>s. tm_durable (tm_log s)) (run_machine tm_step es s)"
  using assms by (rule tm_run_inv)

theorem mgr_run_agrees_witness:
  "tm_inv (0 + length [sample_event BEGINTX 5 8001]) sample_mgr \<and> tm_inv 0 sample_begun"
  using mgr_run_agrees [of 0 "[sample_event BEGINTX 5 8001]" sample_mgr] sample_mgr_inv [of 1]
  by (simp add: sample_begin)

section \<open>Starting again\<close>

text \<open>The log of a manager that stopped while transaction 5 was undecided.\<close>

lemma sample_restart: "tm_durable (tm_log sample_begun)" "log_room 10 (tm_log sample_begun)"
  "undecided (log_entries (tm_log sample_begun)) = [5]" "mgr_log (log_entries (tm_log sample_begun))"
  using sample_begun_inv [of 10]
  by (auto simp: tm_inv_def tm_durable_def log_room_def decided_in_def is_decision_def)

lemma sample_restart_clock: "vc_lookup (txlog_read_clock (tm_log sample_begun)) (atoi (sample_argv ! 1)) = Some 2"
  by (simp add: txlog_read_clock_def sample_begun_def sample_argv_def atoi_7000 sample_clock_def zero_clock_list)

lemma sample_restart_runs: "\<exists>s. tm_main_start sample_os sample_argv (Some (tm_log sample_begun)) = Inr (Running s)"
proof -
  have "log_room (length (undecided (log_entries (tm_log sample_begun)))) (tm_log sample_begun)"
    using sample_restart by (simp add: log_room_def)
  then show ?thesis
    using start_runs [of sample_os sample_argv "tm_log sample_begun" 2] sample_restart_clock
    by (auto simp: sample_os_ok sample_argv_def)
qed

text \<open>
  C11. A start appends an abort for exactly the transactions that were begun and not decided, in
  the order they were begun, changes nothing else of the log, and enters the message loop
  with the invariant of its runs.
\<close>

theorem restart_repairs:
  assumes "tm_main_start os argv (Some log) = Inr (Running s)"
    and "log_room (n + Suc (length (undecided (log_entries log)))) log" and "tm_durable log"
  shows "tm_inv n s \<and> log_entries (tm_log s) =
       log_entries log @ map (\<lambda>t. txentry_init LOG_ABORT t (tm_vclock s)) (undecided (log_entries log))"
proof -
  have "agree.log_ok 0 log" using assms(3) by (simp add: tm_durable_def agree.log_ok_def)
  moreover have "log_room (Suc n + length (undecided (log_entries log))) log" using assms(2) by simp
  ultimately show ?thesis
    using start_inv(1) [OF assms(1,2)] tm_main_start_spec(2) [OF assms(1), of "Suc n"] by (simp add: agree_inv restored_def)
qed

theorem restart_repairs_witness:
  "\<exists>s. tm_main_start sample_os sample_argv (Some (tm_log sample_begun)) = Inr (Running s) \<and>
     tx_types (log_entries (tm_log s)) 5 = [log_code LOG_BEGIN, log_code LOG_ABORT]"
proof -
  obtain s where s: "tm_main_start sample_os sample_argv (Some (tm_log sample_begun)) = Inr (Running s)"
    using sample_restart_runs by blast
  have "log_room (2 + Suc (length (undecided (log_entries (tm_log sample_begun))))) (tm_log sample_begun)"
    using sample_restart by (simp add: log_room_def)
  from restart_repairs [OF s this sample_restart(1)] s show ?thesis using sample_restart(3) by auto
qed

text \<open>
  C9. After a restart the manager answers a worker that asks for any transaction that was ever
  begun, and at once: with the commit if that is what the log says, with an abort otherwise.
  No worker stays uncertain after the manager has come back.
\<close>

theorem restart_answers:
  assumes "tm_main_start os argv (Some log) = Inr (Running s)"
    and "log_room (length (undecided (log_entries log))) log" and "mgr_log (log_entries log)"
    and "tx_types (log_entries log) (m_tid msg) \<noteq> []" and "m_type msg = cmd_code ASK" and "os_ok os'"
  shows "\<exists>s'. tm_handle os' msg a s = Running s' \<and> tm_log s' = tm_log s \<and>
     map (\<lambda>d. (dg_dest d, m_type (message_from_nbo (dg_msg d)), m_tid (message_from_nbo (dg_msg d)))) (tm_out s') =
       [(a, if last (tx_types (log_entries log) (m_tid msg)) = log_code LOG_COMMIT
            then cmd_code COMMIT else cmd_code ABORT, m_tid msg)]"
proof -
  have spec: "log_room 0 (tm_log s)" "live s" "tm_out s = []"
    "log_entries (tm_log s) = restored (tm_vclock s) (log_entries log)"
    using tm_main_start_spec [OF assms(1), of 0] assms(2) by (simp_all add: live_def)
  from from_log_live(1) [OF spec(2) assms(6) spec(1), of msg a] obtain s' where
    s': "tm_ask os' msg a s = Running s'" "says (reply s (m_tid msg) a) s s'" by blast
  have "tm_handle os' msg a s = Running s'"
    using s'(1) assms(5) cmd_of_code [of ASK] by (simp add: tm_handle_def)
  with s'(2) show ?thesis
    using answer_restored [OF assms(3,4)] core_eqD(1) [of s' s] spec(3,4)
    by (auto simp: says_def reply_def mgr_dgram_def nbo.dec_enc)
qed

theorem restart_answers_witness:
  "\<exists>s s'. tm_main_start sample_os sample_argv (Some (tm_log sample_begun)) = Inr (Running s) \<and>
     tm_handle sample_os (sample_msg ASK 5) (sample_addr 8001) s = Running s' \<and>
     map (\<lambda>d. m_type (message_from_nbo (dg_msg d))) (tm_out s') = [cmd_code ABORT]"
proof -
  obtain s where s: "tm_main_start sample_os sample_argv (Some (tm_log sample_begun)) = Inr (Running s)"
    using sample_restart_runs by blast
  have "log_room (length (undecided (log_entries (tm_log sample_begun)))) (tm_log sample_begun)"
    using sample_restart by (simp add: log_room_def)
  from restart_answers [OF s this sample_restart(4), of "sample_msg ASK 5" sample_os "sample_addr 8001"] s
  show ?thesis by (auto simp: sample_os_ok map_eq_Cons_conv)
qed

section \<open>Deciding\<close>

text \<open>What a datagram says: where it goes, the command and the transaction it names.\<close>

definition says_what :: "datagram \<Rightarrow> sockaddr_in \<times> u32 \<times> u32" where
  "says_what d = (dg_dest d, m_type (message_from_nbo (dg_msg d)), m_tid (message_from_nbo (dg_msg d)))"

lemma says_what_workers:
  "map says_what (to_workers s (mgr_msg c s') ws) = map (\<lambda>w. (w_address w, cmd_code c, 0)) (filter (\<lambda>w. nid w \<noteq> 0) ws)"
  by (simp add: to_workers_def says_what_def mgr_dgram_def nbo.dec_enc)

text \<open>
  C8. Unanimity. As long as votes are outstanding, \<^verbatim>\<open>PREPARED\<close> votes log nothing and send
  nothing. The vote that completes the count puts the commit into the log and then tells
  every worker of the transaction, and only those.
\<close>

theorem votes_unanimous:
  assumes "live s" and "tm_inv (Suc n) s" and "findTransaction t s = Some i"
    and "t_state (transactions s ! i) \<noteq> ABORT_STATE" and "unat (nodeCount (transactions s ! i)) = Suc (length vs)"
    and "\<forall>(os, msg, a) \<in> set vs. m_tid msg = t" and "m_tid msg = t" and "os_ok os" and "\<not> commit_crash s"
  shows "\<exists>s1 s2. cast_votes vs s = Running s1 \<and> tm_log s1 = tm_log s \<and> tm_out s1 = tm_out s \<and>
     tm_prepared os msg a s1 = Running s2 \<and>
     log_entries (tm_log s2) = log_entries (tm_log s) @ [txentry_init LOG_COMMIT t (tm_vclock s)] \<and>
     map says_what (tm_out s2) = map says_what (tm_out s) @
       map (\<lambda>w. (w_address w, cmd_code COMMIT, 0)) (filter (\<lambda>w. nid w \<noteq> 0) (t_nodes (transactions s ! i)))"
proof -
  have room: "log_room (Suc n) (tm_log s)" using assms(2) by (simp add: tm_inv_def)
  obtain s1 where s1: "cast_votes vs s = Running s1" "live s1" "tm_log s1 = tm_log s" "tm_out s1 = tm_out s"
    "tm_vclock s1 = tm_vclock s" "commit_crash s1 = commit_crash s" "findTransaction t s1 = Some i"
    "t_state (transactions s1 ! i) \<noteq> ABORT_STATE" "t_nodes (transactions s1 ! i) = t_nodes (transactions s ! i)"
    "unat (nodeCount (transactions s1 ! i)) = 1"
    using votes_wait [OF assms(1,3,4) _ assms(6)] assms(5) by auto
  then have "nodeCount (transactions s1 ! i) = 1" by (metis unat_1 unsigned_word_eqI)
  from tm_prepared_last [OF s1(2) assms(8) _ s1(8) this, of msg a] s1 assms(7,9)
  have "tm_prepared os msg a s1 = Running (posted (to_workers s1 (mgr_msg COMMIT s1) (t_nodes (transactions s ! i))) (committed i s1))"
    by simp
  moreover have "t_tid (transactions s1 ! i) = t" using findTransaction_SomeD [OF s1(7)] by simp
  ultimately show ?thesis
    using s1 put_entry_room(1) [OF room] by (auto simp: committed_def Let_def says_what_workers)
qed

lemma no_workers_list: "t_nodes zero_transaction = zero_worker # replicate 9 zero_worker"
  by (simp add: zero_transaction_def numeral_eq_Suc)

theorem votes_unanimous_witness:
  "\<exists>s2. tm_prepared sample_os (sample_msg PREPARED 5) (sample_addr 8001) sample_begun = Running s2 \<and>
     map says_what (tm_out s2) = [(sample_addr 8001, cmd_code COMMIT, 0)]"
proof -
  have ws: "filter (\<lambda>w. nid w \<noteq> 0) (t_nodes (new_transaction 5 (sample_addr 8001))) =
      [\<lparr>nid = port_of (sample_addr 8001), w_address = sample_addr 8001\<rparr>]"
    by (simp add: new_transaction_def no_workers_list zero_worker_def port_of_def sample_addr_def)
  show ?thesis
    using votes_unanimous [of sample_begun 0 5 0 "[]" "sample_msg PREPARED 5" sample_os "sample_addr 8001"] ws
    by (auto simp: sample_begun_inv sample_os_ok new_transaction_def)
qed

text \<open>
  C12. The commit is decided by the log and not by the messages: a manager that is told to
  crash at the commit exits with the decision logged and no worker informed, and after any
  restart its answer for the transaction is commit.
\<close>

theorem commit_survives_crash:
  assumes "live s" and "os_ok os" and "tm_inv (Suc (Suc n)) s" and "findTransaction (m_tid msg) s = Some i"
    and "t_state (transactions s ! i) \<noteq> ABORT_STATE" and "nodeCount (transactions s ! i) = 1" and "commit_crash s"
  shows "\<exists>s1. tm_prepared os msg a s = Halted (Exit 1) s1 \<and> tm_out s1 = tm_out s \<and>
     (\<forall>os' argv s2. tm_main_start os' argv (Some (tm_log s1)) = Inr (Running s2) \<and>
        log_room (length (undecided (log_entries (tm_log s1)))) (tm_log s1) \<longrightarrow>
        answer (log_entries (tm_log s2)) (m_tid msg) = Some COMMIT)"
proof -
  let ?s1 = "committed i s"
  have room: "log_room (Suc n) (put_entry (tm_log s) e)" "log_entries (put_entry (tm_log s) e) = log_entries (tm_log s) @ [e]" for e
    using put_entry_room [of "Suc n" "tm_log s"] assms(3) by (simp_all add: tm_inv_def)
  have es: "log_entries (tm_log ?s1) = log_entries (tm_log s) @ [txentry_init LOG_COMMIT (m_tid msg) (tm_vclock s)]"
    using findTransaction_SomeD [OF assms(4)] by (simp add: committed_def Let_def room)
  have ml: "mgr_log (log_entries (tm_log ?s1))" using assms(3) by (simp add: es tm_inv_def)
  have "answer (log_entries (tm_log s2)) (m_tid msg) = Some COMMIT"
    if "tm_main_start os' argv (Some (tm_log ?s1)) = Inr (Running s2)"
      and "log_room (length (undecided (log_entries (tm_log ?s1)))) (tm_log ?s1)" for os' argv s2
    using tm_main_start_spec(2) [OF that(1), of 0] answer_restored [OF ml, of "m_tid msg" "tm_vclock s2"] that(2)
    by (simp add: es)
  then show ?thesis
    using tm_prepared_last [OF assms(1,2,4,5,6)] assms(7) by (auto simp: committed_def Let_def)
qed

theorem commit_survives_crash_witness:
  "\<exists>s1. tm_prepared sample_os (sample_msg PREPARED 5) (sample_addr 8001) (sample_begun\<lparr>commit_crash := True\<rparr>) =
     Halted (Exit 1) s1 \<and> tm_out s1 = []"
proof -
  have "tm_inv 2 (sample_begun\<lparr>commit_crash := True\<rparr>)"
    using sample_begun_inv [of 2] by (simp add: tm_inv_def)
  then show ?thesis
    using commit_survives_crash [of "sample_begun\<lparr>commit_crash := True\<rparr>" sample_os 0 "sample_msg PREPARED 5" 0 "sample_addr 8001"]
    by (auto simp: sample_os_ok new_transaction_def numeral_2_eq_2)
qed

text \<open>
  C22. An abort request for a transaction in the table is logged and then sent to every one of
  its workers; the slot is decided and can be reused.
\<close>

theorem abort_request:
  assumes "live s" and "os_ok os" and "tm_inv (Suc n) s" and "findTransaction (m_tid msg) s = Some i"
    and "\<not> abort_crash s"
  shows "\<exists>s'. tm_abort os msg a s = Running s' \<and>
     log_entries (tm_log s') = log_entries (tm_log s) @ [txentry_init LOG_ABORT (m_tid msg) (tm_vclock s)] \<and>
     transactions s' = (transactions s)[i := (transactions s ! i)\<lparr>t_state := ABORT_STATE\<rparr>] \<and>
     map says_what (tm_out s') = map says_what (tm_out s) @
       map (\<lambda>w. (w_address w, cmd_code ABORT, 0)) (filter (\<lambda>w. nid w \<noteq> 0) (t_nodes (transactions s ! i)))"
  using tm_abort_live [OF assms(1,2,4), of a] findTransaction_SomeD [OF assms(4)]
    put_entry_room(1) [of n "tm_log s"] assms(3,5)
  by (simp add: aborted_def tm_inv_def says_what_workers)

theorem abort_request_witness:
  "\<exists>s'. tm_abort sample_os (sample_msg ABORT 5) (sample_addr 8001) sample_begun = Running s' \<and>
     tx_types (log_entries (tm_log s')) 5 = [log_code LOG_BEGIN, log_code LOG_ABORT]"
  using abort_request [of sample_begun sample_os 0 "sample_msg ABORT 5" 0 "sample_addr 8001"]
  by (auto simp: sample_begun_inv sample_os_ok)

section \<open>Requests\<close>

text \<open>
  C19. A request to begin transaction \<open>t\<close>: an id that occurs anywhere in the log is refused, and
  so is a new id when all slots hold running transactions. Otherwise it goes to the first slot
  that is free or holds a decided transaction: it is logged, and the slot has the requesting
  worker as its only member, and nothing is sent. The exception is id 0, which is refused
  when that slot is a free one, because free slots carry it.
\<close>

theorem begin_request:
  assumes "live s" and "os_ok os" and "tm_inv (Suc n) s" and "m_tid msg = t"
  shows "\<exists>s'. tm_begin os msg a s = Running s' \<and>
     (case (if tx_types (log_entries (tm_log s)) t = [] then first_index reusable (transactions s) else None) of
        None \<Rightarrow> core s' = core s \<and> map says_what (tm_out s') = map says_what (tm_out s) @ [(a, cmd_code TX_ERROR, 0)]
      | Some i \<Rightarrow>
        if t = 0 \<and> t_tid (transactions s ! i) = 0
        then core s' = core s \<and> map says_what (tm_out s') = map says_what (tm_out s) @ [(a, cmd_code TX_ERROR, 0)]
        else tm_out s' = tm_out s \<and>
          log_entries (tm_log s') = log_entries (tm_log s) @ [txentry_init LOG_BEGIN t (tm_vclock s)] \<and>
          transactions s' = (transactions s)[i := new_transaction t a])"
proof (cases "tx_types (log_entries (tm_log s)) t = []")
  case True
  have room: "log_entries (put_entry (tm_log s) e) = log_entries (tm_log s) @ [e]" for e
    using assms(3) put_entry_room(1) [of n "tm_log s"] by (simp add: tm_inv_def)
  show ?thesis
  proof (cases "first_index reusable (transactions s)")
    case None
    then show ?thesis
      using True tm_begin_any [OF assms(1-3), of msg a] assms(4)
      by (auto simp: says_what_def mgr_dgram_def nbo.dec_enc refusal_def)
  next
    case (Some i)
    show ?thesis
    proof (cases "t = 0")
      case False
      then show ?thesis
        using Some first_index_SomeD [OF Some] True tm_begin_live [OF assms(1-3), of msg a] assms(4) by (auto simp: room)
    next
      case zero: True
      then show ?thesis
        using Some True tm_begin_any [OF assms(1-3), of msg a] assms(4)
        by (auto simp: room says_what_def mgr_dgram_def nbo.dec_enc refusal_def)
    qed
  qed
next
  case False
  then show ?thesis
    using tm_begin_any [OF assms(1-3), of msg a] assms(4)
    by (auto simp: says_what_def mgr_dgram_def nbo.dec_enc refusal_def)
qed

theorem begin_request_witness:
  "\<exists>s'. tm_begin sample_os (sample_msg BEGINTX 5) (sample_addr 8002) sample_begun = Running s' \<and>
     map says_what (tm_out s') = [(sample_addr 8002, cmd_code TX_ERROR, 0)]"
  using begin_request [of sample_begun sample_os 0 "sample_msg BEGINTX 5" 5 "sample_addr 8002"]
  by (auto simp: sample_begun_inv sample_os_ok)

text \<open>
  C20. A worker joins a transaction only while it is in \<^verbatim>\<open>BEGIN_STATE\<close> and has one of its ten
  places free; then it is counted and will be asked for its vote. Otherwise it is told so.
\<close>

theorem join_request:
  assumes "live s" and "os_ok os" and "findTransaction (m_tid msg) s = Some i"
  shows "\<exists>s'. tm_join os msg a s = Running s' \<and> tm_log s' = tm_log s \<and>
     (if t_state (transactions s ! i) = BEGIN_STATE \<and> (\<exists>w \<in> set (t_nodes (transactions s ! i)). nid w = 0)
      then tm_out s' = tm_out s \<and>
        nodeCount (transactions s' ! i) = nodeCount (transactions s ! i) + 1 \<and>
        \<lparr>nid = port_of a, w_address = a\<rparr> \<in> set (t_nodes (transactions s' ! i))
      else core s' = core s \<and> map says_what (tm_out s') = map says_what (tm_out s) @ [(a, cmd_code TX_ERROR, 0)])"
proof -
  note i = findTransaction_SomeD [OF assms(3)]
  show ?thesis
  proof (cases "first_index (\<lambda>w. nid w = 0) (t_nodes (transactions s ! i))")
    case None
    then have "\<not> (\<exists>w \<in> set (t_nodes (transactions s ! i)). nid w = 0)" by (simp add: first_index_None)
    with None show ?thesis
      using tm_join_live [OF assms, of a] i
      by (cases "t_state (transactions s ! i) = BEGIN_STATE")
        (auto simp: says_what_def mgr_dgram_def nbo.dec_enc refusal_def)
  next
    case (Some k)
    then have k: "k < length (t_nodes (transactions s ! i))" "\<exists>w \<in> set (t_nodes (transactions s ! i)). nid w = 0"
      using first_index_SomeD [OF Some] by auto
    then show ?thesis
      using tm_join_live [OF assms, of a] i Some set_update_memI [OF k(1)]
      by (cases "t_state (transactions s ! i) = BEGIN_STATE") (auto simp: says_what_def mgr_dgram_def nbo.dec_enc refusal_def)
  qed
qed

theorem join_request_witness:
  "\<exists>s'. tm_join sample_os (sample_msg JOINTX 5) (sample_addr 8002) sample_begun = Running s' \<and>
     nodeCount (transactions s' ! 0) = 2"
  using join_request [of sample_begun sample_os "sample_msg JOINTX 5" 0 "sample_addr 8002"]
  by (auto simp: sample_os_ok new_transaction_def no_workers_list zero_worker_def)

text \<open>
  C21. A commit request asks every worker of the transaction, once, to prepare: while the
  transaction is in \<^verbatim>\<open>PREPARE_STATE\<close> a second request does nothing. Nothing is logged.
\<close>

theorem commit_request:
  assumes "live s" and "os_ok os" and "findTransaction (m_tid msg) s = Some i"
    and "t_state (transactions s ! i) \<noteq> PREPARE_STATE"
  shows "\<exists>s1 s2. tm_commit os msg a s = Running s1 \<and> tm_log s1 = tm_log s \<and>
     t_state (transactions s1 ! i) = PREPARE_STATE \<and>
     map says_what (tm_out s1) = map says_what (tm_out s) @
       map (\<lambda>w. (w_address w, cmd_code PREPARE_TO_COMMIT, 0)) (filter (\<lambda>w. nid w \<noteq> 0) (t_nodes (transactions s ! i))) \<and>
     tm_commit os msg b s1 = Running s2 \<and> says [] s1 s2"
proof -
  let ?s1 = "posted (to_workers s (mgr_msg PREPARE_TO_COMMIT s) (t_nodes (transactions s ! i)))
      (noted ''Prepare to commit'' (upd_tx i (\<lambda>tx. tx\<lparr>t_state := PREPARE_STATE\<rparr>) s))"
  have i: "i < length (transactions s)" using findTransaction_SomeD [OF assms(3)] by simp
  have "findTransaction (m_tid msg) ?s1 = Some i" using assms(3) by (simp add: findTransaction_upd)
  from tm_commit_live [OF _ assms(2) this] assms(1) i
  have "tm_commit os msg b ?s1 = Running (noted ''Transaction in prepare state'' ?s1)" by simp
  then show ?thesis
    using tm_commit_live [OF assms(1-3), of a] assms(1,4) i by (auto simp: says_what_workers)
qed

theorem commit_request_witness:
  "\<exists>s1. tm_commit sample_os (sample_msg COMMIT 5) (sample_addr 8001) sample_begun = Running s1 \<and>
     t_state (transactions s1 ! 0) = PREPARE_STATE"
  using commit_request [of sample_begun sample_os "sample_msg COMMIT 5" 0 "sample_addr 8001"]
  by (auto simp: sample_os_ok new_transaction_def)

section \<open>What stops the manager\<close>

text \<open>
  C23. With an operating system that does not fail, a message stops the manager in three cases
  only: the two crashes it was told to make, at the decision they are for, and a vote for a
  transaction that is not in its table.
\<close>

theorem mgr_stops_only:
  assumes "live s" and "os_ok os" and "tm_inv n s" and "vc_lookup (tm_vclock s) (tmgr_port s) = Some c"
    and "tm_receive os msg a s = Halted h s'"
  shows "(m_type msg = cmd_code PREPARED \<and> findTransaction (m_tid msg) s = None \<and> h = SegFault) \<or>
     (m_type msg = cmd_code PREPARED \<and> commit_crash s \<and> h = Exit 1) \<or>
     (m_type msg = cmd_code ABORT \<and> abort_crash s \<and> h = Exit 1)"
proof -
  let ?vc = "vclock_update (tmgr_port s) (tm_vclock s) (m_vclock msg)"
  obtain vc where "vclock_increment (tmgr_port s) ?vc = Inr vc"
    using vc.receive [OF assms(4), of "m_vclock msg"] by blast
  then have run: "tm_handle os msg a (s\<lparr>tm_vclock := vc\<rparr>) = Halted h s'"
    using assms(5) by (simp add: tm_receive_def)
  have "tm_inv n (s\<lparr>tm_vclock := vc\<rparr>)" using assms(3) by (simp add: tm_inv_def)
  from tm_handle_live [OF _ assms(2) this run] assms(1) show ?thesis by simp
qed

theorem mgr_stops_only_witness:
  "\<exists>s'. tm_receive sample_os (sample_msg PREPARED 6) (sample_addr 8001) sample_begun = Halted SegFault s'"
proof -
  have run: "tm_receive sample_os (sample_msg PREPARED 6) (sample_addr 8001) sample_begun =
      tm_handle sample_os (sample_msg PREPARED 6) (sample_addr 8001) (sample_begun\<lparr>tm_vclock := sample_clock 7000 3\<rparr>)"
    using sample_step [of sample_begun 2 PREPARED 6 8001]
    by (simp add: tm_step_def sample_event_def server_recv_def server_recv_timeout_def nbo.dec_enc)
  have none: "findTransaction 6 sample_begun = None"
    by (simp add: findTransaction_def sample_begun_def zero_transaction_def)
  have "\<not> running (tm_receive sample_os (sample_msg PREPARED 6) (sample_addr 8001) sample_begun)"
    unfolding run
    by (simp add: tm_handle_def cmd_of_code [of PREPARED, simplified] tm_prepared_def none running_bnd)
  then obtain h s' where "tm_receive sample_os (sample_msg PREPARED 6) (sample_addr 8001) sample_begun = Halted h s'"
    by (cases "tm_receive sample_os (sample_msg PREPARED 6) (sample_addr 8001) sample_begun") auto
  with mgr_stops_only [OF _ sample_os_ok sample_begun_inv [of 0] _ this, of 2] show ?thesis
    by (simp add: sample_clock_def zero_clock_list)
qed

text \<open>
  C24. A vote for a transaction that is not in the table, be it unknown, or known and decided
  in an earlier life of the manager, stops the manager with a null pointer dereference, after
  the answer from the log was sent.
\<close>

theorem unknown_vote_faults:
  assumes "live s" and "os_ok os" and "tm_inv n s" and "findTransaction (m_tid msg) s = None"
  shows "\<exists>s'. tm_prepared os msg a s = Halted SegFault s' \<and> tm_log s' = tm_log s \<and>
     map says_what (tm_out s') = map says_what (tm_out s) @
       (case answer (log_entries (tm_log s)) (m_tid msg) of None \<Rightarrow> [] | Some d \<Rightarrow> [(a, cmd_code d, m_tid msg)])"
proof -
  have "log_room n (tm_log s)" using assms(3) by (simp add: tm_inv_def)
  from from_log_live(2) [OF assms(1,2) this, of "m_tid msg" a] obtain s' where
    s': "checkTransactionLog os (m_tid msg) a s = Running s'" "says (reply s (m_tid msg) a) s s'" by blast
  then show ?thesis
    using assms(4) core_eqD(1) [of s' s]
    by (auto simp: tm_prepared_def says_def reply_def says_what_def mgr_dgram_def nbo.dec_enc split: option.splits)
qed

theorem unknown_vote_faults_witness:
  "\<exists>s'. tm_prepared sample_os (sample_msg PREPARED 6) (sample_addr 8001) sample_mgr = Halted SegFault s'"
  using unknown_vote_faults [of sample_mgr sample_os 0 "sample_msg PREPARED 6" "sample_addr 8001"]
  by (auto simp: sample_os_ok sample_mgr_inv findTransaction_def zero_transaction_def)

section \<open>What the manager does not check\<close>

text \<open>
  C25. An abort request for a committed transaction is obeyed: the log then holds both decisions,
  the answer to a worker that asks turns from commit to abort, and every worker of the
  transaction, which may have committed by now, is told to abort.
\<close>

theorem late_abort_conflict:
  assumes "live s" and "os_ok os" and "tm_inv (Suc n) s" and "m_tid msg = t" and "t \<noteq> 0"
    and "findTransaction t s = Some i" and "t_state (transactions s ! i) = COMMIT_STATE" and "\<not> abort_crash s"
  shows "\<exists>s'. tm_abort os msg a s = Running s' \<and> \<not> no_conflict (log_entries (tm_log s')) \<and>
     answer (log_entries (tm_log s)) t = Some COMMIT \<and> answer (log_entries (tm_log s')) t = Some ABORT \<and>
     map says_what (tm_out s') = map says_what (tm_out s) @
       map (\<lambda>w. (w_address w, cmd_code ABORT, 0)) (filter (\<lambda>w. nid w \<noteq> 0) (t_nodes (transactions s ! i)))"
proof -
  note i = findTransaction_SomeD [OF assms(6)]
  have "transactions s ! i \<in> set (transactions s)" using i by simp
  then have "tx_agrees (tx_types (log_entries (tm_log s)) t) (transactions s ! i)"
    using assms(3,5) i by (auto simp: tm_inv_def)
  then have h: "tx_types (log_entries (tm_log s)) t \<noteq> []" "last (tx_types (log_entries (tm_log s)) t) = log_code LOG_COMMIT"
    using assms(7) by (simp_all add: tx_agrees_def)
  then have "log_code LOG_COMMIT \<in> set (tx_types (log_entries (tm_log s)) t)" by (metis last_in_set)
  then obtain c where c: "c \<in> set (log_entries (tm_log s))" "e_transaction c = t" "e_type c = log_code LOG_COMMIT"
    by (auto simp: tx_types_def)
  let ?s' = "posted (to_workers s (mgr_msg ABORT s) (t_nodes (transactions s ! i))) (aborted i s)"
  have run: "tm_abort os msg a s = Running ?s'" using tm_abort_live [OF assms(1,2), of msg i a] assms(4,6,8) by simp
  have room: "log_room (Suc n) (tm_log s)" using assms(3) by (simp add: tm_inv_def)
  have es: "log_entries (tm_log ?s') = log_entries (tm_log s) @ [txentry_init LOG_ABORT t (tm_vclock s)]"
    using put_entry_room(1) [OF room] i by (simp add: aborted_def)
  have "\<not> no_conflict (log_entries (tm_log ?s'))" unfolding es using c by (auto simp: no_conflict_def)
  moreover have "answer (log_entries (tm_log s)) t = Some COMMIT" using h by (simp add: answer_last)
  moreover have "answer (log_entries (tm_log ?s')) t = Some ABORT" unfolding es by simp
  ultimately show ?thesis using run by (simp add: says_what_workers) (simp add: aborted_def)
qed

lemma sample_committed_state:
  obtains s where "live s" "tm_inv 2 s" "findTransaction 5 s = Some 0" "t_state (transactions s ! 0) = COMMIT_STATE"
    "abort_crash s = False" "tm_step (sample_event PREPARED 5 8001) sample_begun = Running s"
    "t_nodes (transactions s ! 0) = t_nodes (new_transaction 5 (sample_addr 8001))"
proof -
  let ?s = "sample_begun\<lparr>tm_vclock := sample_clock 7000 3\<rparr>"
  let ?c = "posted (to_workers ?s (mgr_msg COMMIT ?s) (t_nodes (new_transaction 5 (sample_addr 8001)))) (committed 0 ?s)"
  have run: "tm_step (sample_event PREPARED 5 8001) sample_begun = Running ?c" by (simp add: sample_vote Let_def)
  have "tm_inv (Suc 2) sample_begun" by (rule sample_begun_inv) simp
  then have "tm_inv 2 ?c"
    using agree.tm_step_inv [of "sample_event PREPARED 5 8001" sample_begun 2] by (simp add: run agree_inv)
  then show thesis
    using run by (intro that [of ?c]) (simp_all add: committed_def Let_def findTransaction_upd)
qed

theorem late_abort_conflict_witness:
  "\<exists>s s'. tm_step (sample_event PREPARED 5 8001) sample_begun = Running s \<and>
     tm_abort sample_os (sample_msg ABORT 5) (sample_addr 8001) s = Running s' \<and> \<not> no_conflict (log_entries (tm_log s'))"
proof -
  obtain s where s: "live s" "tm_inv 2 s" "findTransaction 5 s = Some 0" "t_state (transactions s ! 0) = COMMIT_STATE"
    "abort_crash s = False" "tm_step (sample_event PREPARED 5 8001) sample_begun = Running s"
    by (rule sample_committed_state)
  have "tm_inv (Suc 1) s" using s(2) by (simp add: numeral_2_eq_2)
  from late_abort_conflict [OF s(1) sample_os_ok this _ _ s(3,4), of "sample_msg ABORT 5"] s(5,6) show ?thesis by auto
qed

text \<open>
  C29. Id 0 is taken for that of the first free slot. An abort request for it is logged as the
  abort of a transaction nobody began, and the slot counts as decided. A worker that joins it
  while the slot is clear and then votes gets a commit of transaction 0 logged, on its own.
\<close>

theorem zero_id_decided:
  assumes "live s" and "os_ok os" and "tm_inv (Suc n) s" and "findTransaction 0 s = Some i" and "m_tid msg = 0"
    and "transactions s ! i = zero_transaction" and "\<not> abort_crash s" and "\<not> commit_crash s"
  shows "(\<exists>s'. tm_abort os msg a s = Running s' \<and> t_state (transactions s' ! i) = ABORT_STATE \<and>
       log_entries (tm_log s') = log_entries (tm_log s) @ [txentry_init LOG_ABORT 0 (tm_vclock s)]) \<and>
     (\<exists>s1 s2. tm_join os msg a s = Running s1 \<and> tm_prepared os msg a s1 = Running s2 \<and>
       log_entries (tm_log s2) = log_entries (tm_log s) @ [txentry_init LOG_COMMIT 0 (tm_vclock s)])"
proof -
  note i = findTransaction_SomeD [OF assms(4)]
  have room: "log_room (Suc n) (tm_log s)" using assms(3) by (simp add: tm_inv_def)
  note put = put_entry_room(1) [OF room]
  have "tm_abort os msg a s = Running (posted (to_workers s (mgr_msg ABORT s) (t_nodes (transactions s ! i))) (aborted i s))"
    using tm_abort_live [OF assms(1,2), of msg i a] assms(4,5,7) by simp
  then have ab: "\<exists>s'. tm_abort os msg a s = Running s' \<and> t_state (transactions s' ! i) = ABORT_STATE \<and>
       log_entries (tm_log s') = log_entries (tm_log s) @ [txentry_init LOG_ABORT 0 (tm_vclock s)]"
    using i put by (simp add: aborted_def)
  have z: "first_index (\<lambda>w. nid w = 0) (t_nodes zero_transaction) = Some 0" "nodeCount zero_transaction = 0"
    "t_state zero_transaction = BEGIN_STATE"
    by (simp_all add: zero_transaction_def zero_worker_def numeral_eq_Suc)
  let ?f = "\<lambda>tx. tx\<lparr>t_nodes := (t_nodes tx)[0 := \<lparr>nid = port_of a, w_address = a\<rparr>], nodeCount := nodeCount tx + 1\<rparr>"
  let ?s1 = "noted ''Worker joined'' (upd_tx i ?f s)"
  have f0: "findTransaction (m_tid msg) s = Some i" using assms(4,5) by simp
  have j: "tm_join os msg a s = Running ?s1"
    using tm_join_live [OF assms(1,2) f0, of a] assms(6) z by simp
  have f1: "findTransaction (m_tid msg) ?s1 = Some i" using f0 by (simp add: findTransaction_upd)
  have "live ?s1" "t_state (transactions ?s1 ! i) \<noteq> ABORT_STATE" "nodeCount (transactions ?s1 ! i) = 1"
    using assms(1,6) z i by simp_all
  from tm_prepared_last [OF this(1) assms(2) f1 this(2,3), of a] assms(8)
  have "tm_prepared os msg a ?s1 = Running (posted (to_workers ?s1 (mgr_msg COMMIT ?s1) (t_nodes (transactions ?s1 ! i))) (committed i ?s1))"
    by simp
  then show ?thesis using ab j i put by (simp add: committed_def Let_def)
qed

theorem zero_id_decided_witness:
  "\<exists>s'. tm_abort sample_os (sample_msg ABORT 0) (sample_addr 8001) sample_begun = Running s' \<and>
     e_transaction (last (log_entries (tm_log s'))) = 0"
proof -
  have "findTransaction 0 sample_begun = Some 1" "transactions sample_begun ! 1 = zero_transaction"
    by (simp_all add: findTransaction_def sample_begun_def zero_transaction_def new_transaction_def)
  moreover have "tm_inv (Suc 1) sample_begun" by (rule sample_begun_inv) simp
  ultimately show ?thesis
    using zero_id_decided [OF _ sample_os_ok, of sample_begun 1 1 "sample_msg ABORT 0" "sample_addr 8001"] by auto
qed

end
