(* ===== verification/SystemClaims.thy ===== *)
theory SystemClaims
  imports Recover TWorkerClaims TManagerClaims
begin

text \<open>The properties of the whole system.\<close>

section \<open>A system of one manager and workers on the same host\<close>

definition idle_worker :: worker_state_t where
  "idle_worker = (sample_worker 1 TIdle)\<lparr>wk_log := fresh_log\<rparr>"

definition sample_system :: system where
  "sample_system = \<lparr>mgr = Halted (Exit 1) sample_mgr, wks = (\<lambda>k. Halted (Exit 1) idle_worker), to_mgr = {}, to_wk = {}\<rparr>"

text \<open>The socket on port 9001 is the one for transaction 5.\<close>

definition sample_own :: "sockaddr_in \<Rightarrow> u32" where
  "sample_own a = (if a = sock_addr 0x0100007F 9001 then 5 else 0)"

abbreviation sample_ip :: "nat \<Rightarrow> u32" where
  "sample_ip \<equiv> \<lambda>k. 0x0100007F"

text \<open>The sockets are handed out as \<open>sample_own\<close> says, and uninitialised flags are clear.\<close>

definition sample_opens :: may_open where
  "sample_opens = (\<lambda>k. opens_fresh sample_own (sample_ip k))"

definition clean_only :: may_boot where
  "clean_only = (\<lambda>k. clean_start)"

lemma sample_env: "fresh_sockets sample_own sample_ip sample_opens" "clean_boots clean_only"
  by (simp_all add: fresh_sockets_def sample_opens_def clean_boots_def clean_only_def)

lemma sample_init: "sys_reach sample_opens clean_only sample_ip sample_system"
  by (rule sys_reach.start) (simp add: sys_init_def sample_system_def idle_worker_def)

definition up_worker :: worker_state_t where
  "up_worker = (wk_init (sample_worker 1 TIdle) 8001 sample_store fresh_log)\<lparr>wk_vclock := sample_clock 8001 1,
     wk_store := sample_store\<lparr>lastUpdateTime := \<lparr>tv_sec = 0, tv_usec = 0\<rparr>, o_vclock := sample_clock 8001 1\<rparr>,
     wk_viz := \<lparr>viz_fd = Some 8001, viz_events = [(8001, ''Started worker'', sample_clock 8001 1)]\<rparr>,
     cmd_server := Some (sample_server 8001)\<rparr>"

lemma worker_starts:
  "wk_main_start sample_os (sample_worker 1 TIdle) [[], lit ''8001''] (Some (wk_store idle_worker)) (Some (wk_log idle_worker)) =
     Inr (Running up_worker)"
proof -
  let ?i = "wk_init (sample_worker 1 TIdle) 8001 sample_store fresh_log"
  let ?s = "?i\<lparr>wk_vclock := sample_clock 8001 1,
     wk_store := sample_store\<lparr>lastUpdateTime := \<lparr>tv_sec = 0, tv_usec = 0\<rparr>, o_vclock := sample_clock 8001 1\<rparr>,
     wk_viz := \<lparr>viz_fd = Some 8001, viz_events = [(8001, ''Started worker'', sample_clock 8001 1)]\<rparr>\<rparr>"
  have "wk_vclock ?i = zero_clock"
    by (simp add: wk_init_def txlog_read_clock_def fresh_log_def zero_head_def)
  then have wake: "wk_wake sample_os ?i = Running ?s"
    by (simp add: wk_wake_def wk_with_store_def objstore_mapped_def vclock_has_def vclock_add_def sample_clock_def zero_clock_list zero_slot_def wk_read_id_def
        objstore_get_id_def wk_viz_append_def shitviz_append_def viz_closed_def wk_init_def sample_store_def zero_store_def
        terminated_def wk_sync_def objstore_sync_def sample_os_def)
  have rec: "wk_recover sample_os ?s = Running ?s"
    by (simp add: wk_recover_def wk_init_def txlog_last_entry_def txlog_read_entry_def fresh_log_def zero_head_def
        sample_os_def zero_entry_def log_of_def)
  have srv: "server_alloc sample_os 8001 10 = Inr (\<lparr>srv_port = 8001, socket_id = 0, srv_timeout = 10,
      srv_address = sample_addr 8001\<rparr>)"
    by (simp add: server_alloc_def sample_os_def resolve_host_def sample_addr_def)
  have listen: "snd (server_listen sample_os \<lparr>srv_port = 8001, socket_id = 0, srv_timeout = 10, srv_address = sample_addr 8001\<rparr>) =
      sample_server 8001" "node_id ?s = 8001"
    by (simp_all add: server_listen_def sample_server_def sample_os_def wk_init_def)
  have "wk_boot sample_os ?i = Running up_worker"
    unfolding wk_boot_def wake bnd.simps rec listen srv attempt_Inr up_worker_def ..
  then show ?thesis
    by (simp add: wk_main_start_def objstore_init_def txlog_open_def txlog_mapped_def strtoul_8001 idle_worker_def)
qed

lemma up_worker_fields [simp]:
  "is_active up_worker = False" "uncertain up_worker = False" "wk_pc up_worker = TIdle" "node_id up_worker = 8001"
  "wk_vclock up_worker = sample_clock 8001 1" "wk_log up_worker = fresh_log" "wk_out up_worker = []"
  "cmd_server up_worker = Some (sample_server 8001)" "wk_delay up_worker = 0" "viz_fd (wk_viz up_worker) = Some 8001"
  "length (wk_tm_host up_worker) = 64" "wk_tm_host up_worker = host_buf" "obj_vals (wk_store up_worker) = (1, 2, [])" "store_wf (wk_store up_worker)"
  by (simp_all add: up_worker_def wk_init_def)
    (simp_all add: sample_worker_def sample_store_def obj_vals_def store_wf_def zero_store_def terminated_def)

text \<open>The system gives the worker port 9001 for transaction 5.\<close>

definition port_os :: os_t where
  "port_os = sample_os\<lparr>os_autoport := htons 9001\<rparr>"

lemma port_os_ok: "os_ok port_os" "os_malloc port_os" "fresh_socket sample_own (sample_ip k) port_os 5"
  by (simp_all add: port_os_def os_ok_def fresh_socket_def sample_own_def) (simp_all add: sample_os_def)

definition begin_req :: message_t where
  "begin_req = sample_request\<lparr>m_tid := 5\<rparr>"

lemma begin_req_facts [simp]: "m_tid begin_req = 5" "m_type begin_req = cmd_code BEGINTX" "fits_msg begin_req"
  by (simp_all add: begin_req_def sample_request_def fits_msg_def)

section \<open>A whole transaction, step by step\<close>

lemma both_up:
  "\<exists>S. sys_reach sample_opens clean_only sample_ip S \<and> mgr S = Running sample_mgr \<and> wks S 0 = Running up_worker"
proof -
  let ?S1 = "mgr_goes (Running sample_mgr) sample_system"
  have "sys_step sample_opens clean_only sample_ip sample_system ?S1"
    by (rule sys_step.mgr_starts [where m = sample_mgr and os = sample_os and argv = sample_argv])
      (simp_all add: sample_system_def sample_start)
  then have S1: "sys_reach sample_opens clean_only sample_ip ?S1" by (rule sys_reach.step [OF sample_init])
  have "sys_step sample_opens clean_only sample_ip ?S1 (wk_goes sample_ip 0 (Running up_worker) ?S1)"
    by (rule sys_step.wk_starts [where w = idle_worker, OF _ worker_starts])
      (simp_all add: sample_system_def clean_only_def clean_start_def idle_worker_def txlog_last_entry_def txlog_read_entry_def
        sample_os_def zero_entry_def, simp_all add: fresh_log_def)
  from sys_reach.step [OF S1 this] show ?thesis
    by (intro exI [of _ "wk_goes sample_ip 0 (Running up_worker) ?S1"] conjI) simp_all
qed

text \<open>The begin command: the worker has a socket and asks the manager.\<close>

lemma worker_begins:
  "\<exists>S w buf. sys_reach sample_opens clean_only sample_ip S \<and> mgr S = Running sample_mgr \<and> wks S 0 = Running w \<and>
     wk_addr (sample_ip 0) w = sock_addr 0x0100007F 9001 \<and> (sock_addr 0x0100007F 9001, buf) \<in> to_mgr S \<and>
     told BEGINTX buf \<and> m_tid (message_from_nbo buf) = 5 \<and> wk_voting 5 w \<and> wk_wf 90 w \<and> is_active w \<and> cmd_server w \<noteq> None"
proof -
  obtain S where S: "sys_reach sample_opens clean_only sample_ip S" "mgr S = Running sample_mgr" "wks S 0 = Running up_worker"
    using both_up by blast
  let ?ev = "RDatagram 200 (message_to_nbo begin_req) (sample_addr 6000)"
  obtain vc where vc: "wk_command port_os ?ev up_worker = wk_handle port_os begin_req (wk_clocked vc up_worker)"
    "vc_lookup vc 8001 = Some 2"
    using command_live [OF port_os_ok(1), of up_worker 1 200 "message_to_nbo begin_req" "sample_addr 6000"]
    by (auto simp: sample_clock_def zero_clock_list nbo.dec_enc)
  let ?u = "wk_clocked vc up_worker"
  obtain w where w: "wk_begin port_os begin_req ?u = Running w" "cmd_server w = cmd_server ?u" "node_id w = 8001"
    "wk_vclock w = vc" "viz_fd (wk_viz w) \<noteq> None"
    unfolding wk_begin_def
    using enter_live [OF port_os_ok(1,2), of ?u begin_req BEGINTX "''PASS: Begin transaction ''"]
    by (auto simp: wk_clocked_def fresh_log_def zero_head_def)
  have "wk_wf 100 ?u" by (simp add: wk_wf_def ids_ok_def)
  have room: "log_room (Suc 95) (wk_log ?u)" by simp
  note e = enter_Running [OF w(1) [unfolded wk_begin_def] _ room, simplified]
  let ?S = "wk_goes sample_ip 0 (Running w) S"
  have "sys_step sample_opens clean_only sample_ip S (wk_goes sample_ip 0 (wk_step (MainThread, port_os, ?ev) up_worker) S)"
    by (rule sys_step.wk_commanded [OF S(3)]) (auto simp: sample_opens_def opens_fresh_def nbo.dec_enc port_os_ok)
  moreover have "wk_step (MainThread, port_os, ?ev) up_worker = Running w"
    using vc(1) w(1) cmd_of_code [of BEGINTX] by (simp add: wk_step_def wk_handle_def)
  ultimately have reach: "sys_reach sample_opens clean_only sample_ip ?S" using sys_reach.step [OF S(1)] by simp
  have lk: "wk_linked sample_own (sample_ip 0) (known ?S) 0 w"
    using sys_reach_inv [OF reach sample_env] by (auto simp: sys_inv_def wk_part_def  dest: spec [of _ 0])
  obtain d where d: "wk_out w = [d]" "told BEGINTX (dg_msg d)" "m_tid (message_from_nbo (dg_msg d)) = 5"
    using e(6) by auto
  then have "from_owner sample_own (sock_addr (sample_ip 0) (dg_src d)) (message_from_nbo (dg_msg d))"
    using lk by (simp add: wk_linked_def wk_sound_def)
  then have src: "sock_addr 0x0100007F (dg_src d) = sock_addr 0x0100007F 9001"
    using d cmd_of_code [of BEGINTX] by (simp add: from_owner_def request_def sample_own_def split: if_splits)
  have "sockets_own sample_own (sample_ip 0) w" using lk e(2) by (simp add: wk_linked_def)
  then have addr: "wk_addr (sample_ip 0) w = sock_addr 0x0100007F 9001"
    using e(3,9) by (auto simp: sockets_own_def wk_addr_def sample_own_def split: if_splits)
  have wf: "wk_wf 90 w"
    using e(1,5,10) by (auto simp: wk_wf_def ids_ok_def log_room_def)
  then have "wk_voting 5 w"
    using e w vc(2) by (simp add: wk_voting_def wk_live_def wk_wf_def log_room_def)
  moreover have "(sock_addr 0x0100007F 9001, dg_msg d) \<in> to_mgr ?S"
    using d(1) src by (simp add:  wk_sent_def)
  moreover have "mgr ?S = Running sample_mgr" "wks ?S 0 = Running w" using S(2) by simp_all
  moreover have "cmd_server w \<noteq> None" using w(2) by (simp add: wk_clocked_def)
  ultimately show ?thesis using reach addr d(2,3) wf e(2) by blast
qed

text \<open>The manager begins transaction 5 with that worker.\<close>

lemma manager_begins:
  "\<exists>S w m. sys_reach sample_opens clean_only sample_ip S \<and> mgr S = Running m \<and> wks S 0 = Running w \<and>
     wk_addr (sample_ip 0) w = sock_addr 0x0100007F 9001 \<and> wk_voting 5 w \<and> wk_wf 90 w \<and> is_active w \<and> cmd_server w \<noteq> None \<and>
     counting 5 0 1 (t_nodes (new_transaction 5 (sock_addr 0x0100007F 9001))) m \<and> t_state (transactions m ! 0) = BEGIN_STATE"
proof -
  obtain S w buf where S: "sys_reach sample_opens clean_only sample_ip S" "mgr S = Running sample_mgr" "wks S 0 = Running w"
    "(sock_addr 0x0100007F 9001, buf) \<in> to_mgr S" "told BEGINTX buf" "m_tid (message_from_nbo buf) = 5"
    and w: "wk_addr (sample_ip 0) w = sock_addr 0x0100007F 9001" "wk_voting 5 w" "wk_wf 90 w" "is_active w" "cmd_server w \<noteq> None"
    using worker_begins by blast
  let ?a = "sock_addr 0x0100007F 9001"
  obtain vc where vc: "tm_step (sample_os, RDatagram 200 buf ?a) sample_mgr =
      tm_handle sample_os (message_from_nbo buf) ?a (sample_mgr\<lparr>tm_vclock := vc\<rparr>)" "vc_lookup vc 7000 = Some 2"
    using mgr_receives [of sample_mgr 1 200 sample_os buf ?a] by (auto simp: sample_clock_def zero_clock_list)
  let ?s = "sample_mgr\<lparr>tm_vclock := vc\<rparr>"
  let ?m = "logged (txentry_init LOG_BEGIN 5 vc) (noted ''BEGINTX'' (upd_tx 0 (\<lambda>_. new_transaction 5 ?a) ?s))"
  have "tm_inv 0 ?s" using sample_mgr_inv [of 0] by (simp add: tm_inv_def)
  then have m: "tm_step (sample_os, RDatagram 200 buf ?a) sample_mgr = Running ?m"
    using tm_begin_live [of ?s sample_os 0 "message_from_nbo buf" ?a] vc(1) S(5,6) cmd_of_code [of BEGINTX]
    by (simp add: tm_handle_def sample_os_ok reusable_def zero_transaction_def)
  have "sys_step sample_opens clean_only sample_ip S (mgr_goes (tm_step (sample_os, RDatagram 200 buf ?a) sample_mgr) S)"
    by (rule sys_step.mgr_iterates [OF S(2)]) (use S(4) in auto)
  from sys_reach.step [OF S(1) this] have reach: "sys_reach sample_opens clean_only sample_ip (mgr_goes (Running ?m) S)" by (simp add: m)
  have "counting 5 0 1 (t_nodes (new_transaction 5 ?a)) ?m"
    using vc(2) put_entry_room(2) [of 1 fresh_log] by (simp add: counting_def findTransaction_def) (simp add: new_transaction_def)
  moreover have "t_state (transactions ?m ! 0) = BEGIN_STATE" by (simp add: new_transaction_def)
  ultimately show ?thesis
    using reach w S(3) by (intro exI [of _ "mgr_goes (Running ?m) S"] exI [of _ w] exI [of _ ?m]) simp
qed

text \<open>The commit command: the worker passes it on.\<close>

lemma commit_passed:
  "\<exists>S w m buf. sys_reach sample_opens clean_only sample_ip S \<and> mgr S = Running m \<and> wks S 0 = Running w \<and>
     wk_addr (sample_ip 0) w = sock_addr 0x0100007F 9001 \<and> wk_voting 5 w \<and>
     counting 5 0 1 (t_nodes (new_transaction 5 (sock_addr 0x0100007F 9001))) m \<and> t_state (transactions m ! 0) = BEGIN_STATE \<and>
     (sock_addr 0x0100007F 9001, buf) \<in> to_mgr S \<and> told COMMIT buf \<and> m_tid (message_from_nbo buf) = 5"
proof -
  let ?a = "sock_addr 0x0100007F 9001" and ?ev = "RDatagram 200 (message_to_nbo (sample_msg COMMIT 0)) (sample_addr 6000)"
  obtain S w m where S: "sys_reach sample_opens clean_only sample_ip S" "mgr S = Running m" "wks S 0 = Running w"
    and w: "wk_addr (sample_ip 0) w = ?a" "wk_voting 5 w" "wk_wf 90 w" "is_active w" "cmd_server w \<noteq> None"
    and m: "counting 5 0 1 (t_nodes (new_transaction 5 ?a)) m" "t_state (transactions m ! 0) = BEGIN_STATE"
    using manager_begins by blast
  obtain c where c: "vc_lookup (wk_vclock w) (node_id w) = Some c" using w(2) by (auto simp: wk_voting_def)
  obtain vc where vc: "wk_command sample_os ?ev w = wk_handle sample_os (sample_msg COMMIT 0) (wk_clocked vc w)"
    "vc_lookup vc (node_id w) = Some (c + 1)"
    using command_live [OF sample_os_ok c w(5), of 200 "message_to_nbo (sample_msg COMMIT 0)" "sample_addr 6000"]
    by (auto simp: nbo.dec_enc)
  let ?u = "wk_noted ''Passing COMMIT to manager'' (wk_clocked vc w)"
  let ?d = "wk_dgram sample_os ?u ((message_write_commit (message_init (Some vc)))\<lparr>m_tid := 5\<rparr>)"
  let ?w = "wk_posted ?d ?u"
  have live: "wk_live w" "wk_transaction w = 5" using w(2) by (simp_all add: wk_voting_def)
  then have run: "wk_step (MainThread, sample_os, ?ev) w = Running ?w"
    using vc(1) w(4) cmd_of_code [of COMMIT] by (simp add: wk_step_def wk_handle_def wk_commit_def wk_live_def sample_os_ok)
  let ?S = "wk_goes sample_ip 0 (Running ?w) S"
  have "log_room 1 (wk_log w)" using w(3) by (simp add: wk_wf_def log_room_def)
  then have "sys_step sample_opens clean_only sample_ip S (wk_goes sample_ip 0 (wk_step (MainThread, sample_os, ?ev) w) S)"
    by (intro sys_step.wk_commanded [OF S(3)]) (auto simp: sample_opens_def opens_fresh_def nbo.dec_enc cmd_of_eq_Some)
  then have "sys_reach sample_opens clean_only sample_ip ?S" unfolding run by (rule sys_reach.step [OF S(1)])
  moreover have "(?a, dg_msg ?d) \<in> to_mgr ?S" "told COMMIT (dg_msg ?d)" "m_tid (message_from_nbo (dg_msg ?d)) = 5"
    using w(1) by (auto simp:  wk_sent_def wk_addr_def wk_dgram_def nbo.dec_enc message_write_commit_def)
  moreover have "wk_voting 5 ?w" "wk_addr (sample_ip 0) ?w = ?a"
    using w(1,2) vc(2) by (simp_all add: wk_voting_def wk_live_def wk_addr_def) (simp_all add: wk_effect_defs)
  moreover have "mgr ?S = Running m" "wks ?S 0 = Running ?w" using S(2) by simp_all
  ultimately show ?thesis using m by blast
qed

text \<open>The manager asks for votes.\<close>

lemma asked_to_prepare:
  "\<exists>S w m buf. sys_reach sample_opens clean_only sample_ip S \<and> mgr S = Running m \<and> wks S 0 = Running w \<and>
     wk_addr (sample_ip 0) w = sock_addr 0x0100007F 9001 \<and> wk_voting 5 w \<and>
     counting 5 0 1 (t_nodes (new_transaction 5 (sock_addr 0x0100007F 9001))) m \<and>
     (sock_addr 0x0100007F 9001, buf) \<in> to_wk S \<and> told PREPARE_TO_COMMIT buf"
proof -
  let ?a = "sock_addr 0x0100007F 9001"
  let ?ws = "t_nodes (new_transaction 5 ?a)"
  obtain S w m buf where S: "sys_reach sample_opens clean_only sample_ip S" "mgr S = Running m" "wks S 0 = Running w"
    and w: "wk_addr (sample_ip 0) w = ?a" "wk_voting 5 w"
    and m: "counting 5 0 1 ?ws m" "t_state (transactions m ! 0) = BEGIN_STATE"
    and buf: "(?a, buf) \<in> to_mgr S" "told COMMIT buf" "m_tid (message_from_nbo buf) = 5"
    using commit_passed by blast
  obtain c where "vc_lookup (tm_vclock m) (tmgr_port m) = Some c" using m(1) by (auto simp: counting_def)
  then obtain vm where vm: "tm_step (sample_os, RDatagram 200 buf ?a) m =
      tm_handle sample_os (message_from_nbo buf) ?a (m\<lparr>tm_vclock := vm\<rparr>)" "vc_lookup vm (tmgr_port m) = Some (c + 1)"
    using mgr_receives [of m c 200 sample_os buf ?a] m(1) by (auto simp: counting_def)
  let ?s = "m\<lparr>tm_vclock := vm\<rparr>"
  let ?m = "posted (to_workers ?s (mgr_msg PREPARE_TO_COMMIT ?s) ?ws)
      (noted ''Prepare to commit'' (upd_tx 0 (\<lambda>tx. tx\<lparr>t_state := PREPARE_STATE\<rparr>) ?s))"
  have mrun: "tm_step (sample_os, RDatagram 200 buf ?a) m = Running ?m"
    using tm_commit_live [of ?s sample_os "message_from_nbo buf" 0 ?a] vm(1) buf(2,3) m cmd_of_code [of COMMIT]
    by (simp add: tm_handle_def counting_def sample_os_ok)
  let ?T = "mgr_goes (Running ?m) S"
  have "log_room 1 (tm_log m)" using m(1) by (simp add:  counting_def)
  then have "sys_step sample_opens clean_only sample_ip S (mgr_goes (tm_step (sample_os, RDatagram 200 buf ?a) m) S)"
    by (rule sys_step.mgr_iterates [OF S(2)]) (use buf(1) in auto)
  then have "sys_reach sample_opens clean_only sample_ip ?T" unfolding mrun by (rule sys_reach.step [OF S(1)])
  moreover have "0 < length (transactions m)" using m(1) findTransaction_SomeD by (auto simp: counting_def)
  then have "counting 5 0 1 ?ws ?m"
    using m(1) vm(2) by (simp add: counting_def findTransaction_upd)
  moreover have "mgr_dgram ?s ?a (mgr_msg PREPARE_TO_COMMIT ?s) \<in> set (to_workers ?s (mgr_msg PREPARE_TO_COMMIT ?s) ?ws)"
    by (auto simp: to_workers_def new_transaction_def no_workers_list zero_worker_def port_of_def sock_addr_def)
  then have "(?a, message_to_nbo (mgr_msg PREPARE_TO_COMMIT ?s)) \<in> to_wk ?T"
    by (force simp: mgr_sent_def mgr_dgram_def)
  moreover have "mgr ?T = Running ?m" "wks ?T 0 = Running w" using S(3) by simp_all
  moreover have "told PREPARE_TO_COMMIT (message_to_nbo (mgr_msg PREPARE_TO_COMMIT ?s))" by (simp add: nbo.dec_enc)
  ultimately show ?thesis using w by blast
qed

text \<open>And the round runs to its end.\<close>

lemma sample_member: "\<exists>x \<in> set (t_nodes (new_transaction 5 (sock_addr 0x0100007F 9001))). nid x \<noteq> 0 \<and> w_address x = sock_addr 0x0100007F 9001"
  by (simp add: new_transaction_def no_workers_list zero_worker_def port_of_def sock_addr_def)

lemma reach_steps: "(sys_step opens boots ip)\<^sup>*\<^sup>* S S' \<Longrightarrow> sys_reach opens boots ip S \<Longrightarrow> sys_reach opens boots ip S'"
  by (induction rule: rtranclp_induct) (auto intro: sys_reach.step)

lemma transaction_commits:
  "\<exists>S e. sys_reach sample_opens clean_only sample_ip S \<and> e \<in> set (wk_log_of S 0) \<and> e_type e = log_code LOG_COMMIT \<and> e_transaction e = 5"
proof -
  let ?a = "sock_addr 0x0100007F 9001"
  obtain S w m buf where S: "sys_reach sample_opens clean_only sample_ip S" "mgr S = Running m" "wks S 0 = Running w"
    "wk_addr (sample_ip 0) w = ?a" "wk_voting 5 w" "counting 5 0 1 (t_nodes (new_transaction 5 ?a)) m"
    "(?a, buf) \<in> to_wk S" "told PREPARE_TO_COMMIT buf"
    using asked_to_prepare by blast
  have "\<exists>S'. (sys_step sample_opens clean_only sample_ip)\<^sup>*\<^sup>* S S' \<and> (\<exists>w' vp vd. wks S' 0 = Running w' \<and>
      log_entries (wk_log w') = log_entries (wk_log w) @ [txentry_init LOG_PREPARED 5 vp, txentry_init LOG_COMMIT 5 vd])"
    using round_commits [of "[0]" sample_os S "\<lambda>_. w" 5 sample_ip m 0 "t_nodes (new_transaction 5 ?a)" sample_opens clean_only]
      S sample_os_ok sample_member by auto
  then obtain S' w' vp vd where "(sys_step sample_opens clean_only sample_ip)\<^sup>*\<^sup>* S S'" "wks S' 0 = Running w'"
    "log_entries (wk_log w') = log_entries (wk_log w) @ [txentry_init LOG_PREPARED 5 vp, txentry_init LOG_COMMIT 5 vd]" by blast
  then show ?thesis using reach_steps S(1)
    by (intro exI [of _ S'] exI [of _ "txentry_init LOG_COMMIT 5 vd"]) auto
qed

section \<open>Agreement\<close>

text \<open>
  C1. No worker commits on its own. However the processes are interleaved and wherever they crash
  and start again, and whatever the network loses, repeats, delays or reorders: if the log of
  a worker holds a commit, the log of the manager holds the commit of the same transaction.
  Assumed, since the program does not enforce it: an address a worker opens a transaction socket
  at is never used for another transaction (C28 shows why: the id in a decision is not read),
  and a worker starts with its uninitialised flags clear. The system is closed: a
  transaction socket receives datagrams of the manager only, the manager those of transaction
  sockets only. The logs have room for the entries written.
\<close>

theorem worker_commits_decided:
  assumes "sys_reach opens boots ip S" and "fresh_sockets own ip opens" and "clean_boots boots"
    and "e \<in> set (wk_log_of S k)" and "e_type e = log_code LOG_COMMIT"
  shows "has_commit (mgr_log_of S) (e_transaction e)"
  using sys_reach_inv [OF assms(1-3)] assms(4,5) by (rule committed_known)

theorem worker_commits_decided_witness:
  "\<exists>S. sys_reach sample_opens clean_only sample_ip S \<and> (\<exists>e \<in> set (wk_log_of S 0). e_type e = log_code LOG_COMMIT) \<and> has_commit (mgr_log_of S) 5"
proof -
  obtain S e where S: "sys_reach sample_opens clean_only sample_ip S" "e \<in> set (wk_log_of S 0)" "e_type e = log_code LOG_COMMIT" "e_transaction e = 5"
    using transaction_commits by blast
  then show ?thesis using worker_commits_decided [OF S(1) sample_env S(2,3)] by auto
qed

section \<open>Progress\<close>

text \<open>
  C2. A round of two-phase commit can always be completed: once the workers of a transaction have
  been asked to prepare and want to commit, there is a continuation of the run in which all of
  them vote, the manager logs the commit, and every worker has the promise and the commit in
  its log, the values of its updates in its store, and is free for the next transaction.
\<close>

theorem commit_round:
  assumes "distinct ks" and "ks \<noteq> []" and "os_ok os"
    and "\<forall>k \<in> set ks. wks S k = Running (w k) \<and> wk_voting t (w k)"
    and "\<forall>k \<in> set ks. \<exists>buf. (wk_addr (ip k) (w k), buf) \<in> to_wk S \<and> told PREPARE_TO_COMMIT buf"
    and "mgr S = Running m" and "counting t i (length ks) ws m"
    and "\<forall>k \<in> set ks. \<exists>x \<in> set ws. nid x \<noteq> 0 \<and> w_address x = wk_addr (ip k) (w k)"
  shows "\<exists>S' vc. (sys_step opens boots ip)\<^sup>*\<^sup>* S S' \<and> mgr_log_of S' = mgr_log_of S @ [txentry_init LOG_COMMIT t vc] \<and>
     (\<forall>k \<in> set ks. \<exists>w' vp vd. wks S' k = Running w' \<and> \<not> is_active w' \<and> wk_store w' = wk_store (w k) \<and>
        log_entries (wk_log w') = log_entries (wk_log (w k)) @ [txentry_init LOG_PREPARED t vp, txentry_init LOG_COMMIT t vd])"
  using assms by (rule round_commits)

theorem commit_round_witness:
  "\<exists>S S' vc. sys_reach sample_opens clean_only sample_ip S \<and> (sys_step sample_opens clean_only sample_ip)\<^sup>*\<^sup>* S S' \<and>
     mgr_log_of S' = mgr_log_of S @ [txentry_init LOG_COMMIT 5 vc]"
proof -
  let ?a = "sock_addr 0x0100007F 9001"
  obtain S w m buf where S: "sys_reach sample_opens clean_only sample_ip S" "mgr S = Running m" "wks S 0 = Running w"
    "wk_addr (sample_ip 0) w = ?a" "wk_voting 5 w" "counting 5 0 1 (t_nodes (new_transaction 5 ?a)) m"
    "(?a, buf) \<in> to_wk S" "told PREPARE_TO_COMMIT buf"
    using asked_to_prepare by blast
  have "\<exists>S' vc. (sys_step sample_opens clean_only sample_ip)\<^sup>*\<^sup>* S S' \<and> mgr_log_of S' = mgr_log_of S @ [txentry_init LOG_COMMIT 5 vc]"
    using commit_round [of "[0]" sample_os S "\<lambda>_. w" 5 sample_ip m 0 "t_nodes (new_transaction 5 ?a)" sample_opens clean_only]
      S sample_os_ok sample_member by auto
  then show ?thesis using S(1) by blast
qed

section \<open>Recovery\<close>

text \<open>
  C3. No worker is blocked for good: while a worker waits for the decision of transaction \<open>t\<close>
  and the manager is down, there is a continuation of the run in which the manager starts
  again on its log, the worker asks, and is told. If the manager's log ends in a commit of the
  transaction, the worker keeps its updates and logs the commit; otherwise its values are those
  before the transaction. Either way it is free for the next transaction.
\<close>

theorem blocked_worker_resolved:
  assumes "mgr S = Halted h m" and "mgr_log (log_entries (tm_log m))" and "tx_types (log_entries (tm_log m)) t \<noteq> []"
    and "log_room (Suc (length (undecided (log_entries (tm_log m))))) (tm_log m)"
    and "os_starts os" and "length argv = 2"
    and "vc_lookup (txlog_read_clock (tm_log m)) (atoi (argv ! 1)) = Some x"
    and "wks S k = Running w" and "wk_waiting t w" and "os_ok os"
    and "c = (if last (tx_types (log_entries (tm_log m)) t) = log_code LOG_COMMIT then COMMIT else ABORT)"
  shows "\<exists>S' w'. (sys_step opens boots ip)\<^sup>*\<^sup>* S S' \<and> running (mgr S') \<and> answer (mgr_log_of S') t = Some c \<and>
     wks S' k = Running w' \<and> wk_resolved c t w w'"
  using assms by (rule restart_resolves)

definition blocked_system :: system where
  "blocked_system = \<lparr>mgr = Halted (Exit 1) sample_begun, wks = (\<lambda>k. Running (sample_worker 3 TUncertain)), to_mgr = {}, to_wk = {}\<rparr>"

theorem blocked_worker_resolved_witness:
  "\<exists>S' w'. (sys_step sample_opens clean_only sample_ip)\<^sup>*\<^sup>* blocked_system S' \<and> answer (mgr_log_of S') 5 = Some ABORT \<and>
     wks S' 0 = Running w' \<and> \<not> is_active w' \<and> obj_vals (wk_store w') = (7, 8, [])"
proof -
  let ?w = "sample_worker 3 TUncertain"
  have w: "wk_waiting 5 ?w"
    using sample_worker_wf [of 3 TUncertain] by (simp add: wk_waiting_def wk_wf_def)
  have room: "log_room (Suc (length (undecided (log_entries (tm_log sample_begun))))) (tm_log sample_begun)"
    using sample_restart by (simp add: log_room_def)
  have "\<exists>S' w'. (sys_step sample_opens clean_only sample_ip)\<^sup>*\<^sup>* blocked_system S' \<and> running (mgr S') \<and> answer (mgr_log_of S') 5 = Some ABORT \<and>
     wks S' 0 = Running w' \<and> wk_resolved ABORT 5 ?w w'"
    by (rule blocked_worker_resolved [of _ "Exit 1" sample_begun 5 sample_os sample_argv 2 0, OF _ sample_restart(4) _ room])
      (use w sample_restart_clock in \<open>simp_all add: blocked_system_def sample_os_ok sample_argv_def\<close>)
  then show ?thesis by (auto simp: wk_resolved_def)
qed

end
