(* ===== verification/Coord.thy ===== *)
theory Coord
  imports TManagerStart
begin

text \<open>
  What the manager is for, without its table, its messages and its clocks: a coordinator that
  knows of every transaction whether it is unknown, open, committed or aborted. A transaction is
  opened once and decided once. The lemmas show that the log of the manager refines it: every
  iteration of the message loop and every start, also one that stops half way, is a sequence of
  steps of the coordinator.
\<close>

section \<open>The coordinator\<close>

datatype status = Unknown | Open | Committed | Aborted

type_synonym coordinator = "u32 \<Rightarrow> status"

inductive coord_step :: "coordinator \<Rightarrow> coordinator \<Rightarrow> bool" where
  opens: "c t = Unknown \<Longrightarrow> coord_step c (c(t := Open))"
| commits: "c t = Open \<Longrightarrow> coord_step c (c(t := Committed))"
| aborts: "c t = Open \<Longrightarrow> coord_step c (c(t := Aborted))"

inductive_cases coord_stepE: "coord_step c d"

text \<open>
  What is known of a transaction only grows: a decision stands, and a transaction that was
  opened is never unknown again.
\<close>

instantiation status :: order
begin

definition less_eq_status :: "status \<Rightarrow> status \<Rightarrow> bool" where
  "s \<le> t \<longleftrightarrow> s = t \<or> s = Unknown \<or> (s = Open \<and> t \<noteq> Unknown)"

definition less_status :: "status \<Rightarrow> status \<Rightarrow> bool" where
  "s < t \<longleftrightarrow> s \<le> t \<and> s \<noteq> (t :: status)"

instance
  by standard (auto simp: less_eq_status_def less_status_def)

end

lemma decided_le: "s \<le> t \<Longrightarrow> s \<in> {Committed, Aborted} \<Longrightarrow> t = s"
  by (auto simp: less_eq_status_def)

lemma coord_step_less: "coord_step c d \<Longrightarrow> c < d"
  by (auto elim!: coord_stepE simp: less_fun_def le_fun_def less_eq_status_def split: if_splits)

lemma coord_steps_mono: "coord_step\<^sup>*\<^sup>* c d \<Longrightarrow> c \<le> d"
  by (induction rule: rtranclp_induct) (auto dest: coord_step_less)

section \<open>What the log says\<close>

definition status_of :: "u32 list \<Rightarrow> status" where
  "status_of h = (if h = [] then Unknown
     else if last h = log_code LOG_COMMIT then Committed
     else if last h = log_code LOG_ABORT then Aborted else Open)"

definition coord_of :: "txlog_entry_t list \<Rightarrow> coordinator" where
  "coord_of es t = status_of (tx_types es t)"

lemma coord_of_Nil [simp]: "coord_of [] = (\<lambda>t. Unknown)"
  by (rule ext) (simp add: coord_of_def status_of_def)

lemma coord_of_snoc:
  "coord_of (es @ [e]) = (coord_of es)(e_transaction e := status_of (tx_types es (e_transaction e) @ [e_type e]))"
  by (rule ext) (simp add: coord_of_def)

text \<open>One more entry in a history that decides at most once.\<close>

lemma one_decision_prefix: "one_decision (h @ fs) \<Longrightarrow> h = [] \<or> one_decision h"
  by (cases h) (auto simp: one_decision_def append_eq_Cons_conv)

lemma status_grows:
  assumes "one_decision (h @ [ty])"
  shows "status_of (h @ [ty]) = status_of h \<or> (status_of h = Unknown \<and> status_of (h @ [ty]) = Open) \<or>
     (status_of h = Open \<and> status_of (h @ [ty]) \<in> {Committed, Aborted})"
proof (cases h)
  case Nil
  then show ?thesis using assms by (simp add: one_decision_def status_of_def)
next
  case (Cons b h')
  have b: "b = log_code LOG_BEGIN" and tl: "h' @ [ty] = [log_code LOG_COMMIT] \<or> set (h' @ [ty]) \<subseteq> {log_code LOG_ABORT}"
    using assms by (simp_all add: Cons one_decision_def)
  show ?thesis
  proof (cases "h' = []")
    case True
    then show ?thesis using b tl by (auto simp: Cons status_of_def)
  next
    case False
    then have "set (h' @ [ty]) \<subseteq> {log_code LOG_ABORT}" using tl by auto
    then have "ty = log_code LOG_ABORT" "last h' = log_code LOG_ABORT"
      using last_in_set [OF False] by (auto simp del: log_code.simps)
    then show ?thesis using False by (simp add: Cons status_of_def)
  qed
qed

definition decides_once :: "txlog_entry_t list \<Rightarrow> bool" where
  "decides_once es \<longleftrightarrow> (\<forall>t. tx_types es t = [] \<or> one_decision (tx_types es t))"

lemma sane_decides: "log_sane log \<Longrightarrow> decides_once (log_entries log)"
  unfolding log_sane_def once.log_ok_def decides_once_def real_ids_def by (metis tx_types_eq_Nil)

lemma decides_once_prefix: "decides_once (es @ fs) \<Longrightarrow> decides_once es"
  unfolding decides_once_def by (metis append_is_Nil_conv one_decision_prefix tx_types_append)

lemma snoc_steps:
  assumes "decides_once (es @ [e])"
  shows "coord_step\<^sup>=\<^sup>= (coord_of es) (coord_of (es @ [e]))"
proof -
  let ?t = "e_transaction e" and ?c = "coord_of es"
  have "one_decision (tx_types es ?t @ [e_type e])" using assms by (auto simp: decides_once_def dest: spec [of _ ?t])
  note grows = status_grows [OF this]
  have old: "?c ?t = status_of (tx_types es ?t)" by (simp add: coord_of_def)
  have same: "?c(?t := status_of (tx_types es ?t)) = ?c" using old by (metis fun_upd_triv)
  show ?thesis using grows old same coord_step.intros [of ?c ?t] by (auto simp: coord_of_snoc)
qed

lemma append_steps: "decides_once (es @ fs) \<Longrightarrow> coord_step\<^sup>*\<^sup>* (coord_of es) (coord_of (es @ fs))"
proof (induction fs rule: rev_induct)
  case (snoc e fs)
  have "decides_once (es @ fs)" using snoc.prems decides_once_prefix [of "es @ fs" "[e]"] by simp
  then show ?case using snoc.IH snoc_steps [of "es @ fs" e] snoc.prems by (auto elim!: sup2E)
qed simp

section \<open>Refinement\<close>

lemma grows_steps:
  assumes "grows T l m" and "decides_once (log_entries (tm_log (final m)))"
  shows "coord_step\<^sup>=\<^sup>= (coord_of (log_entries l)) (coord_of (log_entries (tm_log (final m))))"
proof -
  obtain fs where fs: "length fs \<le> 1" "log_entries (tm_log (final m)) = log_entries l @ fs"
    using assms(1) by (auto simp: grows_def)
  then show ?thesis
  proof (cases fs)
    case (Cons e fs')
    then show ?thesis using fs assms(2) snoc_steps [of "log_entries l" e] by simp
  qed simp
qed

abbreviation coord_state :: "txmanager_t \<Rightarrow> coordinator" where
  "coord_state s \<equiv> coord_of (log_entries (tm_log s))"

interpretation mgr: simulation tm_step disciplined mgr_sane "\<lambda>s. log_sane (tm_log s)" coord_state coord_step
proof unfold_locales
  fix e s n
  assume acc: "disciplined e s" and inv: "mgr_sane (Suc n) s"
  have "ensures (mgr_sane n) (\<lambda>s. log_sane (tm_log s)) (tm_step e s)" by (rule sane.step_inv [OF acc inv])
  then have "log_sane (tm_log (final (tm_step e s)))" using mgr_sane_log by (cases "tm_step e s") auto
  moreover have "log_room (Suc n) (tm_log s)" using inv once.inv_room by (simp add: mgr_sane_def)
  ultimately show "coord_step\<^sup>=\<^sup>= (coord_state s) (coord_state (final (tm_step e s)))"
    using grows_steps [OF step_grows [OF _ may_log_UNIV]] sane_decides by blast
qed

text \<open>A life of the manager: the start, with its repair, and the run that follows.\<close>

lemma life_sim:
  assumes ok: "log_sane log" and start: "tm_main_start os argv (Some log) = Inr m"
    and room: "log_room (length es + Suc (length (undecided (log_entries log)))) log"
    and es: "\<And>s. m = Running s \<Longrightarrow> admissible disciplined tm_step es s"
  shows "coord_step\<^sup>*\<^sup>* (coord_of (log_entries log)) (coord_state (final (bnd m (run_machine tm_step es))))"
proof -
  have inv: "mgr_sane (length es) (final m)" using start_sane [OF start room ok] .
  then have "decides_once (log_entries (tm_log (final m)))" using sane_decides mgr_sane_log by blast
  moreover obtain fs where "log_entries (tm_log (final m)) = log_entries log @ fs"
    using tm_main_start_final [OF start room] by blast
  ultimately have up: "coord_step\<^sup>*\<^sup>* (coord_of (log_entries log)) (coord_state (final m))"
    using append_steps by simp
  show ?thesis
  proof (cases m)
    case (Running s)
    then show ?thesis using up inv mgr.run_sim [of 0 es s] es by (auto intro: rtranclp_trans)
  qed (use up in simp)
qed

end
