(* ===== verification/Shadow.thy ===== *)
theory Shadow
  imports TWorkerLive
begin

text \<open>
  What the worker's undo log is for: an object with a shadow copy. The object has its present
  values and, once they were changed inside a transaction, a copy of what they were before. A
  commit drops the copy, an abort goes back to it. The lemmas show that the worker refines this
  object: an iteration of either of its threads does to the object what the message says, and
  where the process stops in the middle, its log and store stand for the values before the
  iteration or for those after it.
\<close>

section \<open>The object\<close>

record shadow =
  sh_pc :: thread_pc
  sh_saved :: "vals option"
  sh_now :: vals

text \<open>What a recovery goes back to.\<close>

definition sh_stable :: "shadow \<Rightarrow> vals" where
  "sh_stable h = (case sh_saved h of None \<Rightarrow> sh_now h | Some v \<Rightarrow> v)"

definition sh_put :: "(vals \<Rightarrow> vals) \<Rightarrow> shadow \<Rightarrow> shadow" where
  "sh_put f h = h\<lparr>sh_saved := (if sh_pc h = TIdle then sh_saved h else Some (sh_stable h)), sh_now := f (sh_now h)\<rparr>"

definition sh_enter :: "shadow \<Rightarrow> shadow" where
  "sh_enter h = (if sh_pc h = TIdle then h\<lparr>sh_pc := TLoop, sh_saved := None\<rparr> else h)"

definition sh_back :: "shadow \<Rightarrow> shadow" where
  "sh_back h = h\<lparr>sh_saved := None, sh_now := sh_stable h\<rparr>"

text \<open>A command to the main thread, a message of the manager to the transaction thread.\<close>

definition sh_command :: "message_t \<Rightarrow> shadow \<Rightarrow> shadow" where
  "sh_command msg h = (case cmd_of (m_type msg) of
       Some BEGINTX \<Rightarrow> sh_enter h
     | Some JOINTX \<Rightarrow> sh_enter h
     | Some NEW_A \<Rightarrow> sh_put (\<lambda>(a, b, i). (m_value msg, b, i)) h
     | Some NEW_B \<Rightarrow> sh_put (\<lambda>(a, b, i). (a, m_value msg, i)) h
     | Some NEW_IDSTR \<Rightarrow> sh_put (\<lambda>(a, b, i). (a, b, cstr (m_strdata msg))) h
     | Some ABORT \<Rightarrow> if sh_pc h = TIdle then h else sh_back h
     | _ \<Rightarrow> h)"

definition sh_hear :: "message_t \<Rightarrow> shadow \<Rightarrow> shadow" where
  "sh_hear msg h = (if sh_pc h = TIdle then h else case cmd_of (m_type msg) of
       Some COMMIT \<Rightarrow> h\<lparr>sh_pc := TIdle, sh_saved := None\<rparr>
     | Some ABORT \<Rightarrow> (sh_back h)\<lparr>sh_pc := TIdle\<rparr>
     | Some PREPARE_TO_COMMIT \<Rightarrow> h\<lparr>sh_pc := TUncertain\<rparr>
     | Some TX_ERROR \<Rightarrow> if sh_pc h = TLoop \<and> m_value msg \<noteq> 0 then h\<lparr>sh_pc := TIdle\<rparr> else h
     | _ \<Rightarrow> h)"

definition sh_step :: "thread \<times> os_t \<times> recv_event \<Rightarrow> shadow \<Rightarrow> shadow" where
  "sh_step = (\<lambda>(th, os, ev) h. case ev of
       RDatagram len buf a \<Rightarrow>
         if len \<le> 0 then h
         else (case th of MainThread \<Rightarrow> sh_command (message_from_nbo buf) h
               | TxThread \<Rightarrow> sh_hear (message_from_nbo buf) h)
     | _ \<Rightarrow> h)"

lemma stable_upd [simp]:
  "sh_stable (h\<lparr>sh_pc := p\<rparr>) = sh_stable h" "sh_stable (h\<lparr>sh_saved := None\<rparr>) = sh_now h" "sh_stable (sh_back h) = sh_stable h"
  "sh_stable (h\<lparr>sh_saved := Some v\<rparr>) = v" "sh_pc (sh_back h) = sh_pc h" "sh_stable (h\<lparr>sh_pc := p, sh_saved := None\<rparr>) = sh_now h"
  by (cases h; simp add: sh_stable_def sh_back_def split: option.split)+

section \<open>The abstraction\<close>

definition saved_of :: "txlog_entry_t list \<Rightarrow> vals option" where
  "saved_of es = (case filter is_update (since es) of [] \<Rightarrow> None | u # us \<Rightarrow> Some (old_vals u))"

definition shadow_of :: "worker_state_t \<Rightarrow> shadow" where
  "shadow_of s = \<lparr>sh_pc = wk_pc s, sh_saved = saved_of (log_entries (wk_log s)), sh_now = obj_vals (wk_store s)\<rparr>"

lemma stable_shadow: "sh_stable (shadow_of s) = committed_vals s"
  by (simp add: sh_stable_def shadow_of_def saved_of_def committed_vals_def undo_vals_def split: list.splits)

lemma saved_of_append [simp]:
  "boundary e \<Longrightarrow> saved_of (es @ [e]) = None"
  "\<not> boundary e \<Longrightarrow> \<not> is_update e \<Longrightarrow> saved_of (es @ [e]) = saved_of es"
  "is_update e \<Longrightarrow> saved_of (es @ [e]) = (case saved_of es of None \<Rightarrow> Some (old_vals e) | Some v \<Rightarrow> Some v)"
  by (auto simp: saved_of_def split: list.splits)

text \<open>The flags the two threads share say where the transaction thread is.\<close>

definition flags_ok :: "worker_state_t \<Rightarrow> bool" where
  "flags_ok s \<longleftrightarrow> is_active s = (wk_pc s \<noteq> TIdle) \<and> uncertain s = (wk_pc s = TUncertain) \<and>
     (wk_pc s \<noteq> TIdle \<longrightarrow> (do_commit s \<or> do_abort s) \<and> (\<exists>e \<in> set (log_entries (wk_log s)). boundary e))"

definition refines :: "nat \<Rightarrow> shadow \<Rightarrow> worker_state_t \<Rightarrow> bool" where
  "refines n h s \<longleftrightarrow> wk_wf n s \<and> flags_ok s \<and> shadow_of s = h"

text \<open>What a worker that has stopped leaves behind: one of the values in \<open>V\<close>.\<close>

definition leaves :: "vals set \<Rightarrow> worker_state_t \<Rightarrow> bool" where
  "leaves V s \<longleftrightarrow> wk_wf 0 s \<and> committed_vals s \<in> V"

lemma refines_leaves: "refines n h s \<Longrightarrow> sh_stable h \<in> V \<Longrightarrow> leaves V s"
  by (auto simp: refines_def leaves_def stable_shadow dest: wk_wf_0)

lemma refines_mono: "refines (Suc n) h s \<Longrightarrow> refines n h s"
  by (simp add: refines_def wk_wf_mono)

lemma refines_cong:
  assumes "refines n h s" and "log_entries (wk_log s') = log_entries (wk_log s)"
    and "log_room n (wk_log s) \<Longrightarrow> log_room n (wk_log s')"
    and "obj_vals (wk_store s') = obj_vals (wk_store s)" and "store_wf (wk_store s) \<Longrightarrow> store_wf (wk_store s')"
    and "wk_pc s' = wk_pc s" "is_active s' = is_active s" "uncertain s' = uncertain s"
    and "do_commit s \<or> do_abort s \<Longrightarrow> do_commit s' \<or> do_abort s'"
  shows "refines n h s'"
  using assms by (auto simp: refines_def wk_wf_def flags_ok_def shadow_of_def)

section \<open>Effects\<close>

lemma viz_refines [simp]: "refines n h s \<Longrightarrow> refines n h (final (wk_viz_append os t s))"
  by (erule refines_cong) (simp_all add: wk_viz_append_def)

lemma clock_refines [simp]: "refines n h s \<Longrightarrow> refines n h (final (wk_write_clock os s))"
  by (erule refines_cong) (simp_all add: wk_write_clock_def)

lemma sync_refines [simp]: "refines n h s \<Longrightarrow> refines n h (final (wk_sync os vc s))"
  by (erule refines_cong) (simp_all add: wk_sync_def)

lemma send_refines [simp]: "refines n h s \<Longrightarrow> refines n h (final (wk_send os m s))"
  unfolding wk_send_def by (rule final_attemptI) (auto elim!: refines_cong)

lemma read_id_refines [simp]: "refines n h s \<Longrightarrow> refines n h (final (wk_read_id s))"
  by (simp add: wk_read_id_def)

lemma fields_refine [simp]:
  "refines n h (s\<lparr>wk_vclock := vc\<rparr>) = refines n h s"
  "refines n h (s\<lparr>do_commit := False, do_abort := True\<rparr>) = refines n h (s\<lparr>do_commit := True\<rparr>)"
  "refines n h (s\<lparr>do_abort := True, do_commit := False\<rparr>) = refines n h (s\<lparr>do_commit := True\<rparr>)"
  "refines n h (s\<lparr>do_abort := False, do_commit := True\<rparr>) = refines n h (s\<lparr>do_commit := True\<rparr>)"
  by (simp_all add: refines_def wk_wf_def flags_ok_def shadow_of_def)

lemma votes_refine [simp]: "refines n h s \<Longrightarrow> refines n h (s\<lparr>do_commit := True\<rparr>)"
  by (simp add: refines_def wk_wf_def flags_ok_def shadow_of_def)

text \<open>An effect the object does not see, then the rest.\<close>

lemma quiet_then:
  assumes "refines k h (final m)" and "sh_stable h \<in> V" and "\<And>u. refines k h u \<Longrightarrow> ensures P (leaves V) (f u)"
  shows "ensures P (leaves V) (bnd m f)"
  using assms by (cases m) (auto intro: refines_leaves)

lemma quiet: "refines n h (final m) \<Longrightarrow> sh_stable h \<in> V \<Longrightarrow> ensures (refines n h) (leaves V) m"
  by (cases m) (auto intro: refines_leaves)

lemmas quiet_ops =
  quiet [OF viz_refines] quiet [OF clock_refines] quiet [OF sync_refines] quiet [OF send_refines] quiet [OF read_id_refines]

lemmas then_ops =
  quiet_then [OF viz_refines] quiet_then [OF clock_refines] quiet_then [OF sync_refines] quiet_then [OF send_refines]
  quiet_then [OF read_id_refines]

lemma append_refines:
  assumes "refines (Suc n) h s" and "\<not> is_update e"
  shows "refines n (if boundary e then h\<lparr>sh_saved := None\<rparr> else h) (final (wk_append os e s))"
proof -
  have "log_room (Suc n) (wk_log s)" using assms(1) by (simp add: refines_def wk_wf_def)
  note put = put_entry_room [OF this]
  show ?thesis
    using assms
    by (auto simp: refines_def wk_wf_def flags_ok_def shadow_of_def wk_append_def final_txlog_append put ids_ok_def)
qed

lemma log_old_refines:
  assumes r: "refines (Suc n) h s" and "sh_stable h \<in> V"
  shows "ensures (refines n (h\<lparr>sh_saved := Some (sh_stable h)\<rparr>)) (leaves V) (wk_log_old os s)"
  unfolding wk_log_old_def Let_def
proof (rule ensures_attempt)
  fix d
  let ?e = "(txentry_init LOG_UPDATE (wk_transaction s) (wk_vclock s))
      \<lparr>old_a := objstore_get_a (wk_store s), old_b := objstore_get_b (wk_store s)\<rparr>"
  assume d: "strcpy (old_id ?e) (objstore_get_id (wk_store s)) = Inr d"
  let ?u = "?e\<lparr>old_id := d\<rparr>"
  have room: "log_room (Suc n) (wk_log s)" using r by (simp add: refines_def wk_wf_def)
  note put = put_entry_room [OF this]
  have u: "is_update ?u" by (simp add: is_update_def)
  have vals: "old_vals ?u = obj_vals (wk_store s)" and fits: "id_fits d"
    using strcpy_Inr [OF d] id_fits_terminated [of d] by (auto simp: old_vals_def obj_vals_def objstore_defs)
  have "refines n (h\<lparr>sh_saved := Some (sh_stable h)\<rparr>) (final (wk_append os ?u s))"
    using r u vals fits
    by (auto simp: refines_def wk_wf_def flags_ok_def shadow_of_def wk_append_def final_txlog_append put ids_ok_def
        sh_stable_def split: option.splits)
  then show "ensures (refines n (h\<lparr>sh_saved := Some (sh_stable h)\<rparr>)) (leaves V) (wk_append os ?u s)"
    using assms(2) by (intro quiet) (simp_all add: sh_stable_def)
qed (use refines_leaves [OF r assms(2)] in simp)

lemma store_refines:
  assumes "refines n h s" and "\<And>st. store_wf st \<Longrightarrow> store_wf (g st)" and "\<And>st. obj_vals (g st) = f (obj_vals st)"
  shows "refines n (h\<lparr>sh_now := f (sh_now h)\<rparr>) (s\<lparr>wk_store := g (wk_store s)\<rparr>)"
  using assms by (auto simp: refines_def wk_wf_def flags_ok_def shadow_of_def)

lemma rollback_refines:
  assumes r: "refines (Suc n) h s" and "sh_pc h \<noteq> TIdle" and "sh_stable h \<in> V"
  shows "ensures (refines n (sh_back h)) (leaves V) (update_rollback os s)"
proof -
  have wf: "wk_wf (Suc n) s" and st: "sh_stable h = committed_vals s" and pc: "sh_pc h = wk_pc s"
    using r stable_shadow [of s] by (auto simp: refines_def shadow_of_def)
  have "\<exists>e \<in> set (log_entries (wk_log s)). boundary e" using r assms(2) pc by (simp add: refines_def flags_ok_def)
  then obtain b where "find boundary (rev (log_entries (wk_log s))) = Some b"
    by (cases "find boundary (rev (log_entries (wk_log s)))") (auto simp: find_None_iff)
  then obtain a where a: "abort_of (log_entries (wk_log s)) = [a]" "boundary a"
    by (simp add: abort_of_def)
  let ?m = "update_rollback os s"
  note rest = wk_rest_eqD [OF update_rollback_rest [of os s]]
  show ?thesis
  proof (cases ?m)
    case (Running u)
    then have u: "undone (committed_vals s) (log_entries (wk_log s) @ [a]) n u"
      using update_rollback_ensures [OF wf, of os] a(1) by simp
    then have "refines n (sh_back h) u"
      using r rest a(2) st unfolding Running final.simps
      by (auto simp: refines_def undone_def flags_ok_def shadow_of_def sh_back_def)
    then show ?thesis using Running by simp
  next
    case (Halted x u)
    then show ?thesis using update_rollback_ensures [OF wf, of os] st assms(3) by (simp add: leaves_def)
  qed
qed

section \<open>Commands\<close>

text \<open>The values before and after a step.\<close>

abbreviation between :: "shadow \<Rightarrow> shadow \<Rightarrow> vals set" where
  "between h h' \<equiv> {sh_stable h, sh_stable h'}"

abbreviation implements :: "nat \<Rightarrow> shadow \<Rightarrow> shadow \<Rightarrow> worker_state_t outcome \<Rightarrow> bool" where
  "implements n h h' \<equiv> ensures (refines n h') (leaves (between h h'))"

lemma idle_implements: "refines (Suc n) h s \<Longrightarrow> implements n h h (Running s)"
  by (simp add: refines_mono)

lemma shadow_active: "refines n h s \<Longrightarrow> is_active s = (sh_pc h \<noteq> TIdle)"
  by (auto simp: refines_def flags_ok_def shadow_of_def)

lemma sh_put_fields: "sh_put f h = (if sh_pc h = TIdle then h else h\<lparr>sh_saved := Some (sh_stable h)\<rparr>)\<lparr>sh_now := f (sh_now h)\<rparr>"
  by (cases h) (simp add: sh_put_def)

text \<open>The three updates up to the change of the store.\<close>

lemma put_refines:
  assumes r: "refines (Suc n) h s" and g: "\<And>st. store_wf st \<Longrightarrow> store_wf (g st)" "\<And>st. obj_vals (g st) = f (obj_vals st)"
  shows "ensures (\<lambda>u. refines n (sh_put f h) (u\<lparr>wk_store := g (wk_store u)\<rparr>)) (leaves (between h (sh_put f h)))
     (if is_active s then wk_log_old os s else Running s)"
proof (cases "is_active s")
  case True
  then have "sh_pc h \<noteq> TIdle" using shadow_active [OF r] by simp
  then have "refines n (sh_put f h) (u\<lparr>wk_store := g (wk_store u)\<rparr>)"
    if "refines n (h\<lparr>sh_saved := Some (sh_stable h)\<rparr>) u" for u
    using store_refines [where f = f and g = g, OF that g] by (simp add: sh_put_fields)
  then show ?thesis
    using True by (auto intro: ensures_mono [OF log_old_refines [OF r]])
next
  case False
  then have "sh_pc h = TIdle" using shadow_active [OF r] by simp
  then show ?thesis
    using store_refines [where f = f and g = g, OF refines_mono [OF r] g] False by (simp add: sh_put_fields)
qed

lemma new_ab_implements:
  assumes r: "refines (Suc n) h s"
  shows "implements n h (sh_put (\<lambda>(a, b, i). (m_value msg, b, i)) h) (wk_new_a os msg s)"
    and "implements n h (sh_put (\<lambda>(a, b, i). (a, m_value msg, i)) h) (wk_new_b os msg s)"
proof -
  have tail: "ensures (refines n h') (leaves (between h h')) (bnd (wk_sync os vc u) (\<lambda>s. wk_viz_append os (x s) s))"
    if "refines n h' u" for h' vc u x
    using that by (auto intro!: then_ops quiet_ops)
  have a: "obj_vals (objstore_set_a st x) = (case obj_vals st of (a, b, i) \<Rightarrow> (x, b, i))"
    and b: "obj_vals (objstore_set_b st x) = (case obj_vals st of (a, b, i) \<Rightarrow> (a, x, i))" for st x
    by (simp_all add: obj_vals_def objstore_defs)
  show "implements n h (sh_put (\<lambda>(a, b, i). (m_value msg, b, i)) h) (wk_new_a os msg s)"
    unfolding wk_new_a_def
    by (rule ensures_bnd [OF put_refines [OF r, where g = "\<lambda>st. objstore_set_a st (m_value msg)"]])
      (auto simp: a intro: tail ob.wf_set_a)
  show "implements n h (sh_put (\<lambda>(a, b, i). (a, m_value msg, i)) h) (wk_new_b os msg s)"
    unfolding wk_new_b_def
    by (rule ensures_bnd [OF put_refines [OF r, where g = "\<lambda>st. objstore_set_b st (m_value msg)"]])
      (auto simp: b intro: tail ob.wf_set_b)
qed

lemma new_id_implements:
  assumes r: "refines (Suc n) h s" and fits: "id_fits (m_strdata msg)"
  shows "implements n h (sh_put (\<lambda>(a, b, i). (a, b, cstr (m_strdata msg))) h) (wk_new_id os msg s)"
  unfolding wk_new_id_def
proof (rule ensures_bnd)
  let ?g = "\<lambda>st. objstore_set_id st (m_strdata msg)" and ?f = "\<lambda>(a, b, i). (a, b, cstr (m_strdata msg))"
  let ?h = "sh_put ?f h"
  have g: "obj_vals (?g st) = ?f (obj_vals st)" for st
    using ob.vals_set_id [OF fits] by (cases "obj_vals st") simp
  have put: "ensures (\<lambda>u. refines n ?h (u\<lparr>wk_store := ?g (wk_store u)\<rparr>)) (leaves (between h ?h))
     (if is_active s then wk_log_old os s else Running s)"
    by (rule put_refines [OF r]) (use fits g in \<open>auto intro: ob.wf_set_id\<close>)
  then show "ensures (refines n ?h) (leaves (between h ?h)) (if is_active s
      then bnd (wk_log_old os s) (\<lambda>s. Running (s\<lparr>wk_store := ?g (wk_store s)\<rparr>))
      else wk_sync os (wk_vclock s) (s\<lparr>wk_store := ?g (wk_store s)\<rparr>))"
    by (cases "is_active s") (auto intro: ensures_bnd quiet_ops)
qed (auto intro!: then_ops quiet_ops)

lemma abort_implements:
  assumes r: "refines (Suc n) h s"
  shows "implements n h (if sh_pc h = TIdle then h else sh_back h) (wk_abort os s)"
proof (cases "sh_pc h = TIdle")
  case True
  then show ?thesis using shadow_active [OF r] refines_mono [OF r] by (simp add: wk_abort_def quiet_ops)
next
  case False
  then have "wk_abort os s = bnd (update_rollback os s) (\<lambda>s. wk_viz_append os ''Aborting transaction'' (s\<lparr>do_commit := False, do_abort := True\<rparr>))"
    using shadow_active [OF r] by (simp add: wk_abort_def)
  then show ?thesis
    using False by (auto intro!: ensures_bnd [OF rollback_refines [OF r]] quiet_ops)
qed

lemma talk_implements:
  assumes "refines n h s"
  shows "implements n h h (wk_delay_response os msg s)" "implements n h h (wk_commit os s)"
    "implements n h h (wk_commit_crash os s)" "implements n h h (wk_abort_crash os s)"
    "implements n h h (wk_vote_abort os s)" "implements n h h (wk_crash os s)"
  unfolding wk_delay_response_def wk_commit_def wk_commit_crash_def wk_abort_crash_def wk_vote_abort_def wk_crash_def
  using assms by (auto intro!: quiet_ops then_ops dest: refines_leaves)

text \<open>Entering a transaction: whatever is left to undo from before is forgotten.\<close>

lemma spawn_store: "wk_store (final (tx_manager_spawn os h p t s)) = wk_store s"
  by (auto simp: tx_manager_spawn_def remember_tm_def open_listener_def log_head_def Let_def
      intro!: final_attemptI [where P = "\<lambda>u. wk_store u = wk_store s"] final_bndI [where P = "\<lambda>u. wk_store u = wk_store s"])

lemma enter_halts:
  assumes wf: "wk_wf (Suc n) s" and "\<not> is_active s" and "wk_enter os c t msg s = Halted x u"
  shows "leaves {committed_vals s, obj_vals (wk_store s)} u"
proof -
  let ?V = "{committed_vals s, obj_vals (wk_store s)}"
  let ?I = "\<lambda>u. wk_keeps (Some (committed_vals s)) (Suc n) u \<and> wk_store u = wk_store s"
  have I: "leaves ?V u" if "wk_keeps (Some (committed_vals s)) 0 u" for u
    using that by (simp add: leaves_def wk_keeps_def)
  have spawn: "ensures ?I (leaves ?V) (tx_manager_spawn os (m_strdata msg) (m_port msg) (m_tid msg) s)"
    using spawn_keeps [of "Some (committed_vals s)" "Suc n" s os "m_strdata msg" "m_port msg" "m_tid msg"] wf
      spawn_store [of os "m_strdata msg" "m_port msg" "m_tid msg" s]
    by (cases "tx_manager_spawn os (m_strdata msg) (m_port msg) (m_tid msg) s") (auto simp: wk_keeps_def intro: I)
  have send: "ensures ?I (leaves ?V) (wk_send os m u)" if "?I u" for m u
    using that send_keeps [of "Some (committed_vals s)" "Suc n" u os m]
    by (auto simp: wk_send_def attempt_def intro: I split: sum.splits)
  have app: "ensures (leaves ?V) (leaves ?V) (bnd (wk_append os (txentry_init LOG_BEGIN t' vc) u) (wk_viz_append os y))"
    if "?I u" for t' vc u y
  proof -
    have room: "log_room (Suc n) (wk_log u)" using that by (simp add: wk_keeps_def wk_wf_def)
    have "log_room 0 (put_entry (wk_log u) e)" for e using put_entry_room(2) [OF room, of e] by (simp add: log_room_def)
    then have "leaves ?V (final (wk_append os (txentry_init LOG_BEGIN t' vc) u))"
      using that put_entry_room(1) [OF room]
      by (auto simp: leaves_def wk_append_def final_txlog_append wk_keeps_def wk_wf_def committed_vals_def ids_ok_def)
    moreover have "leaves ?V (final (wk_viz_append os y v))" if "leaves ?V v" for v
      using that by (simp add: leaves_def wk_viz_append_def wk_wf_def committed_vals_def)
    ultimately show ?thesis
      by (cases "wk_append os (txentry_init LOG_BEGIN t' vc) u") (auto intro: ensures_final)
  qed
  have "ensures (leaves ?V) (leaves ?V) (wk_enter os c t msg s)"
    unfolding wk_enter_def if_not_P [OF assms(2)]
    by (rule ensures_bnd [OF spawn]) (auto intro!: ensures_bnd [OF send] app I dest: wk_keeps_0)
  then show ?thesis using assms(3) by simp
qed

lemma enter_implements:
  assumes r: "refines (Suc n) h s"
  shows "implements n h (sh_enter h) (wk_enter os c t msg s)"
proof (cases "sh_pc h = TIdle")
  case False
  then show ?thesis using shadow_active [OF r] refines_mono [OF r] by (simp add: wk_enter_def sh_enter_def)
next
  case True
  have idle: "\<not> is_active s" using shadow_active [OF r] True by simp
  have wf: "wk_wf (Suc n) s" and fl: "flags_ok s" and h: "h = shadow_of s" using r by (auto simp: refines_def)
  have room: "log_room (Suc n) (wk_log s)" using wf by (simp add: wk_wf_def)
  show ?thesis
  proof (cases "wk_enter os c t msg s")
    case (Running u)
    note e = enter_Running [OF Running idle room]
    obtain vc where "log_entries (wk_log u) = log_entries (wk_log s) @ [txentry_init LOG_BEGIN (m_tid msg) vc]" using e(5) by blast
    moreover have "\<not> uncertain s" using fl idle by (auto simp: flags_ok_def)
    ultimately have "refines n (sh_enter h) u"
      using e wf True by (simp add: refines_def wk_wf_def flags_ok_def shadow_of_def h sh_enter_def ids_ok_def)
    then show ?thesis using Running by simp
  next
    case (Halted x u)
    have "sh_stable (sh_enter h) = obj_vals (wk_store s)" using True by (simp add: sh_enter_def sh_stable_def h shadow_of_def)
    moreover have "sh_stable h = committed_vals s" by (simp add: h stable_shadow)
    ultimately show ?thesis using enter_halts [OF wf idle Halted] Halted by simp
  qed
qed

lemma handle_implements:
  assumes r: "refines (Suc n) h s" and "fits_msg msg"
  shows "implements n h (sh_command msg h) (wk_handle os msg s)"
proof -
  have "id_fits (m_strdata msg)" using assms(2) by (simp add: fits_msg_def id_fits_terminated)
  then show ?thesis
    unfolding wk_handle_def wk_begin_def wk_join_def sh_command_def
    using enter_implements [OF r] new_ab_implements [OF r] new_id_implements [OF r] abort_implements [OF r]
      talk_implements [OF refines_mono [OF r]] quiet_ops(1) [OF refines_mono [OF r]]
    by (auto split: option.splits cmdType.splits)
qed

section \<open>The transaction thread\<close>

lemma thread_clock_refines [simp]: "refines n h s \<Longrightarrow> refines n h (final (thread_clock os msg s))"
  unfolding thread_clock_def Let_def by (rule final_attemptI) simp_all

lemma exit_refines:
  assumes "refines n h s" and "sh_stable h \<in> V"
  shows "ensures (refines n (h\<lparr>sh_pc := TIdle\<rparr>)) (leaves V) (thread_exit (s\<lparr>uncertain := False\<rparr>))"
    and "sh_pc h = TLoop \<Longrightarrow> ensures (refines n (h\<lparr>sh_pc := TIdle\<rparr>)) (leaves V) (thread_exit s)"
proof -
  have left: "leaves V s" using assms by (rule refines_leaves)
  then have "leaves V (s\<lparr>uncertain := False\<rparr>)" by (simp add: leaves_def committed_vals_def)
  with left show "ensures (refines n (h\<lparr>sh_pc := TIdle\<rparr>)) (leaves V) (thread_exit (s\<lparr>uncertain := False\<rparr>))"
    "sh_pc h = TLoop \<Longrightarrow> ensures (refines n (h\<lparr>sh_pc := TIdle\<rparr>)) (leaves V) (thread_exit s)"
    unfolding thread_exit_def using assms(1)
    by (auto intro!: ensures_attempt simp: refines_def flags_ok_def shadow_of_def wk_wf_def)
qed

lemma commit_implements:
  assumes r: "refines (Suc n) h s"
  shows "ensures (refines n (h\<lparr>sh_saved := None\<rparr>)) (leaves {sh_stable h, sh_now h}) (log_decision os s)"
  unfolding log_decision_def
proof (rule then_ops(1) [OF r])
  fix u assume u: "refines (Suc n) h u"
  show "ensures (refines n (h\<lparr>sh_saved := None\<rparr>)) (leaves {sh_stable h, sh_now h})
     (wk_append os (txentry_init LOG_COMMIT (wk_transaction u) (wk_vclock u)) u)"
    using append_refines [OF u, of "txentry_init LOG_COMMIT (wk_transaction u) (wk_vclock u)" os]
    by (intro quiet) (simp_all add: sh_stable_def)
qed simp

lemma back_implements:
  assumes r: "refines (Suc n) h s" and "sh_pc h \<noteq> TIdle"
  shows "ensures (refines n (sh_back h)) (leaves {sh_stable h}) (wk_roll_back os s)"
  unfolding wk_roll_back_def by (rule then_ops(1) [OF r]) (use assms(2) rollback_refines in auto)

lemma vote_implements:
  assumes r: "refines (Suc n) h s" and pc: "sh_pc h = TLoop"
  shows "implements n h (h\<lparr>sh_pc := TUncertain\<rparr>) (vote_commit os s)"
    and "implements n h (h\<lparr>sh_pc := TUncertain\<rparr>) (vote_abort os s)"
proof -
  let ?h = "h\<lparr>sh_pc := TUncertain\<rparr>"
  have wait: "implements n h ?h (if c then Halted (Exit 1) u
      else bnd (wk_send os m u) (\<lambda>s. Running (s\<lparr>uncertain := True, wk_pc := TUncertain\<rparr>)))"
    if u: "refines n h u" for u m c
  proof -
    have "refines n ?h (v\<lparr>uncertain := True, wk_pc := TUncertain\<rparr>)" if "refines n h v" for v
      using that pc by (auto simp: refines_def wk_wf_def flags_ok_def shadow_of_def)
    then show ?thesis using refines_leaves [OF u] by (auto intro!: then_ops(4) [OF u])
  qed
  have app: "refines n h (final (wk_append os (txentry_init LOG_PREPARED t vc) u))" if "refines (Suc n) h u" for t vc u
    using append_refines [OF that, of "txentry_init LOG_PREPARED t vc" os] by simp
  show "implements n h ?h (vote_commit os s)"
    unfolding vote_commit_def Let_def
    by (intro then_ops(1) [OF r] quiet_then [OF app] wait) simp_all
  show "implements n h ?h (vote_abort os s)"
    unfolding vote_abort_def Let_def
    by (intro then_ops(1) [OF refines_mono [OF r]] wait) simp_all
qed

text \<open>Both ways a transaction ends, from either loop.\<close>

lemma end_implements:
  assumes r: "refines (Suc n) h s"
  shows "implements n h (h\<lparr>sh_pc := TIdle, sh_saved := None\<rparr>) (bnd (log_decision os s) (\<lambda>s. thread_exit (s\<lparr>uncertain := False\<rparr>)))"
    and "sh_pc h = TLoop \<Longrightarrow> implements n h (h\<lparr>sh_pc := TIdle, sh_saved := None\<rparr>) (bnd (log_decision os s) thread_exit)"
    and "sh_pc h \<noteq> TIdle \<Longrightarrow> implements n h ((sh_back h)\<lparr>sh_pc := TIdle\<rparr>) (bnd (wk_roll_back os s) (\<lambda>s. thread_exit (s\<lparr>uncertain := False\<rparr>)))"
    and "sh_pc h = TLoop \<Longrightarrow> implements n h ((sh_back h)\<lparr>sh_pc := TIdle\<rparr>) (bnd (wk_roll_back os s) thread_exit)"
proof -
  let ?c = "h\<lparr>sh_saved := None\<rparr>" and ?V = "{sh_stable h, sh_now h}"
  have c: "h\<lparr>sh_pc := TIdle, sh_saved := None\<rparr> = ?c\<lparr>sh_pc := TIdle\<rparr>" by (cases h) simp
  show "implements n h (h\<lparr>sh_pc := TIdle, sh_saved := None\<rparr>) (bnd (log_decision os s) (\<lambda>s. thread_exit (s\<lparr>uncertain := False\<rparr>)))"
    unfolding c stable_upd using exit_refines(1) [of n ?c _ ?V] by (intro ensures_bnd [OF commit_implements [OF r]]) simp
  show "implements n h (h\<lparr>sh_pc := TIdle, sh_saved := None\<rparr>) (bnd (log_decision os s) thread_exit)" if "sh_pc h = TLoop"
    unfolding c stable_upd using exit_refines(2) [of n ?c _ ?V] that by (intro ensures_bnd [OF commit_implements [OF r]]) simp
  show "implements n h ((sh_back h)\<lparr>sh_pc := TIdle\<rparr>) (bnd (wk_roll_back os s) (\<lambda>s. thread_exit (s\<lparr>uncertain := False\<rparr>)))"
    if "sh_pc h \<noteq> TIdle"
    unfolding stable_upd insert_absorb2 using exit_refines(1) [of n "sh_back h" _ "{sh_stable h}"]
    by (intro ensures_bnd [OF back_implements [OF r that]]) simp
  show "implements n h ((sh_back h)\<lparr>sh_pc := TIdle\<rparr>) (bnd (wk_roll_back os s) thread_exit)" if "sh_pc h = TLoop"
    unfolding stable_upd insert_absorb2 using exit_refines(2) [of n "sh_back h" _ "{sh_stable h}"] that
    by (intro ensures_bnd [OF back_implements [OF r]]) simp_all
qed

text \<open>The error that makes the thread give up.\<close>

lemma error_implements:
  assumes r: "refines (Suc n) h s" and pc: "sh_pc h = TLoop"
  shows "implements n h (if m_value msg \<noteq> 0 then h\<lparr>sh_pc := TIdle\<rparr> else h)
     (if \<not> terminated (m_strdata msg) then Halted Undef s
      else bnd (wk_viz_append os (x msg) s) (\<lambda>s. if m_value msg \<noteq> 0 then thread_exit s else Running s))"
  using refines_leaves [OF r] pc exit_refines(2) [of n h]
  by (auto intro!: then_ops(1) [OF refines_mono [OF r]] quiet_ops(1) [OF refines_mono [OF r]])

text \<open>Both loops receive, merge the clock and act on the message.\<close>

lemma recv_implements:
  assumes r: "refines (Suc n) h s" and idle: "implements n h h idle"
    and k: "\<And>msg u. refines (Suc n) h u \<Longrightarrow> implements n h (sh_hear msg h) (k msg u)"
  shows "implements n h (sh_step (TxThread, os, ev) h) (attempt (server_recv (wk_server s) ev zero_msg no_addr) s
      (\<lambda>(bytes, msg, recv_addr). if bytes \<le> 0 then idle else bnd (thread_clock os msg s) (k msg)))"
proof (rule ensures_attempt)
  fix v assume v: "server_recv (wk_server s) ev zero_msg no_addr = Inr v"
  obtain len msg a where vv: "v = (len, msg, a)" by (cases v)
  have "ensures (refines n (sh_hear msg h)) (leaves (between h (sh_hear msg h))) (bnd (thread_clock os msg s) (k msg))"
    by (rule quiet_then [OF thread_clock_refines [OF r]]) (simp_all add: k)
  then show "implements n h (sh_step (TxThread, os, ev) h)
      (case v of (bytes, msg, recv_addr) \<Rightarrow> if bytes \<le> 0 then idle else bnd (thread_clock os msg s) (k msg))"
    using server_recv_cases [OF v [unfolded vv]] vv idle by (auto simp: sh_step_def)
qed (use refines_leaves [OF r] in simp)

lemma loop_implements:
  assumes r: "refines (Suc n) h s" and h: "sh_pc h = TLoop"
  shows "implements n h (sh_step (TxThread, os, ev) h) (tx_worker_loop os ev s)"
  unfolding tx_worker_loop_def
proof (rule recv_implements [OF r])
  fix msg u assume u: "refines (Suc n) h u"
  have votes: "do_commit u \<or> do_abort u" using u h by (auto simp: refines_def flags_ok_def shadow_of_def)
  show "implements n h (sh_hear msg h) (case cmd_of (m_type msg) of
       Some PREPARE_TO_COMMIT \<Rightarrow>
         if do_commit u then vote_commit os u
         else if do_abort u then vote_abort os u
         else wk_viz_append os ''Dunno what to do for PREPARE :('' u
     | Some TX_ERROR \<Rightarrow>
         if \<not> terminated (m_strdata msg) then Halted Undef u
         else bnd (wk_viz_append os (''Manager Error: '' @ cstr (m_strdata msg)) u)
                (\<lambda>s. if m_value msg \<noteq> 0 then thread_exit s else Running s)
     | Some COMMIT \<Rightarrow> bnd (log_decision os u) thread_exit
     | Some ABORT \<Rightarrow> bnd (wk_roll_back os u) thread_exit
     | _ \<Rightarrow> wk_viz_append os ''Unknown command'' u)"
    using votes vote_implements [OF u h] end_implements(2,4) [OF u h] quiet_ops(1) [OF refines_mono [OF u]]
      error_implements [OF u h, of msg os "\<lambda>msg. ''Manager Error: '' @ cstr (m_strdata msg)"]
    unfolding sh_hear_def h by (auto split: option.splits cmdType.splits)
qed (simp add: refines_mono [OF r])

lemma uncertain_implements:
  assumes r: "refines (Suc n) h s" and h: "sh_pc h = TUncertain"
  shows "implements n h (sh_step (TxThread, os, ev) h) (tx_worker_uncertain os ev s)"
  unfolding tx_worker_uncertain_def
proof (rule recv_implements [OF r])
  fix msg u assume u: "refines (Suc n) h u"
  have same: "h\<lparr>sh_pc := TUncertain\<rparr> = h" using h by (cases h) simp
  show "implements n h (sh_hear msg h) (case cmd_of (m_type msg) of
       Some COMMIT \<Rightarrow> bnd (log_decision os u) (\<lambda>s. thread_exit (s\<lparr>uncertain := False\<rparr>))
     | Some ABORT \<Rightarrow> bnd (wk_roll_back os u) (\<lambda>s. thread_exit (s\<lparr>uncertain := False\<rparr>))
     | Some PREPARE_TO_COMMIT \<Rightarrow> wk_viz_append os ''Unexpected PREPARE in uncertain state'' u
     | _ \<Rightarrow> wk_viz_append os ''Unknown command in uncertain state'' u)"
    using end_implements(1) [OF u] end_implements(3) [OF u] quiet_ops(1) [OF refines_mono [OF u]]
    unfolding sh_hear_def same by (auto simp: h split: option.splits cmdType.splits)
qed (simp add: quiet_ops(4) [OF refines_mono [OF r]])

lemma thread_implements:
  assumes r: "refines (Suc n) h s"
  shows "implements n h (sh_step (TxThread, os, ev) h) (tx_worker_thread os ev s)"
proof -
  have pc: "wk_pc s = sh_pc h" using r by (auto simp: refines_def shadow_of_def)
  show ?thesis
  proof (cases "wk_pc s")
    case TIdle
    then have "sh_step (TxThread, os, ev) h = h" using pc by (simp add: sh_step_def sh_hear_def split: recv_event.split)
    then show ?thesis using TIdle refines_mono [OF r] by (simp add: tx_worker_thread_def)
  qed (use loop_implements [OF r] uncertain_implements [OF r] pc in \<open>simp_all add: tx_worker_thread_def\<close>)
qed

section \<open>Steps and runs\<close>

lemma command_implements:
  assumes r: "refines (Suc n) h s"
    and fits: "\<And>len buf a. ev = RDatagram len buf a \<Longrightarrow> fits_msg (message_from_nbo buf)"
  shows "implements n h (sh_step (MainThread, os, ev) h) (wk_command os ev s)"
  unfolding wk_command_def
proof (rule ensures_attempt)
  fix v assume v: "server_recv (cmd_server s) ev zero_msg no_addr = Inr v"
  obtain len msg a where vv: "v = (len, msg, a)" by (cases v)
  note ev = server_recv_cases [OF v [unfolded vv]]
  have "implements n h (sh_command msg h) (attempt (vclock_increment (node_id s) (wk_vclock s)) s (\<lambda>vc.
      bnd (wk_write_clock os (s\<lparr>wk_vclock := vc\<rparr>)) (wk_handle os msg)))" if "fits_msg msg"
    by (intro ensures_attempt then_ops(2) [where k = "Suc n" and h = h])
      (use r refines_leaves [OF r] handle_implements [OF _ that] in auto)
  then show "implements n h (sh_step (MainThread, os, ev) h) (case v of (bytes, msg, recv_addr) \<Rightarrow>
      if bytes \<le> 0 then Running s else attempt (vclock_increment (node_id s) (wk_vclock s)) s (\<lambda>vc.
        bnd (wk_write_clock os (s\<lparr>wk_vclock := vc\<rparr>)) (wk_handle os msg)))"
    using ev vv refines_mono [OF r] fits by (auto simp: sh_step_def)
qed (use refines_leaves [OF r] in simp)

lemma step_implements:
  assumes "refines (Suc n) h s" and "wk_acc None e s"
  shows "implements n h (sh_step e h) (wk_step e s)"
proof -
  obtain th os ev where e: "e = (th, os, ev)" by (cases e)
  have "fits_msg (message_from_nbo buf)" if "ev = RDatagram len buf a" for len buf a
    using assms(2) that by (simp add: e wk_acc_def Let_def)
  then show ?thesis
    using thread_implements [OF assms(1), of os ev] command_implements [OF assms(1), of ev os]
    by (cases th) (simp_all add: e wk_step_def)
qed

text \<open>
  A run: while it goes on the object is what the messages made of it; where it stops, it
  stopped in some iteration, and what it leaves is the object before or after that one.
\<close>

lemma run_implements:
  assumes "refines (n + length es) h s" and "admissible (wk_acc None) wk_step es s"
  shows "ensures (refines n (fold sh_step es h))
     (\<lambda>s'. \<exists>k < length es. leaves (between (fold sh_step (take k es) h) (fold sh_step (take (Suc k) es) h)) s')
     (run_machine wk_step es s)"
  using assms
proof (induction es arbitrary: h s)
  case (Cons e es)
  have one: "implements (n + length es) h (sh_step e h) (wk_step e s)"
    using step_implements [of "n + length es" h s e] Cons.prems by simp
  show ?case
  proof (cases "wk_step e s")
    case (Running u)
    then have "ensures (refines n (fold sh_step es (sh_step e h)))
       (\<lambda>s'. \<exists>k < length es. leaves (between (fold sh_step (take k es) (sh_step e h)) (fold sh_step (take (Suc k) es) (sh_step e h))) s')
       (run_machine wk_step es u)"
      using Cons.IH [of "sh_step e h" u] one Cons.prems(2) by simp
    then show ?thesis
      using Running by (auto elim!: ensures_mono intro: exI [of _ "Suc _"])
  next
    case (Halted x u)
    then show ?thesis using one by (auto intro!: exI [of _ 0])
  qed
qed simp

end
