(* ===== verification/RefineClaims.thy ===== *)
theory RefineClaims
  imports Coord Shadow TWorkerClaims TManagerClaims
begin

text \<open>The two programs as refinements of what they are for: the properties and their instances.\<close>

section \<open>The manager is a coordinator\<close>

text \<open>
  C4. The manager refines the coordinator of \<open>Coord\<close>. Take a log that is the outcome of any
  number of lives, start the manager on it and let it run: the repair and the run, wherever they
  stop, take the coordinator from what the old log says to what the new log says in steps that
  open an unknown transaction or decide an open one. So no decision is ever taken back. As in
  C6, requests to begin or abort and votes name ids other than 0, nobody asks to commit a decided
  transaction, and nobody asks to abort a committed one.
\<close>

theorem manager_refines_coordinator:
  assumes "mgr_log_life log" and "tm_main_start os argv (Some log) = Inr m"
    and "log_room (length es + Suc (length (undecided (log_entries log)))) log"
    and "\<And>s. m = Running s \<Longrightarrow> admissible disciplined tm_step es s"
    and "final (bnd m (run_machine tm_step es)) = s'"
  shows "coord_step\<^sup>*\<^sup>* (coord_of (log_entries log)) (coord_of (log_entries (tm_log s'))) \<and>
     (\<forall>t. coord_of (log_entries log) t \<in> {Committed, Aborted} \<longrightarrow>
        coord_of (log_entries (tm_log s')) t = coord_of (log_entries log) t)"
proof -
  have steps: "coord_step\<^sup>*\<^sup>* (coord_of (log_entries log)) (coord_of (log_entries (tm_log s')))"
    using life_sim [OF mgr_log_life_sane [OF assms(1)] assms(2,3)] assms(4,5) by blast
  moreover have "coord_of (log_entries log) t \<le> coord_of (log_entries (tm_log s')) t" for t
    using coord_steps_mono [OF steps] by (rule le_funD)
  ultimately show ?thesis using decided_le by blast
qed

theorem manager_refines_coordinator_witness:
  "\<exists>s'. final (run_machine tm_step [sample_event BEGINTX 5 8001, sample_event PREPARED 5 8001] sample_mgr) = s' \<and>
     coord_step\<^sup>*\<^sup>* (\<lambda>t. Unknown) (coord_of (log_entries (tm_log s'))) \<and> coord_of (log_entries (tm_log s')) 5 = Committed"
proof -
  let ?es = "[sample_event BEGINTX 5 8001, sample_event PREPARED 5 8001]"
  let ?s = "final (run_machine tm_step ?es sample_mgr)"
  have life: "mgr_log_life fresh_log"
    by (rule mgr_log_life.fresh [of sample_os]) (simp add: txlog_open_def sample_os_def fresh_log_def)
  have "admissible disciplined tm_step ?es sample_mgr"
    by (simp add: disciplined_def sample_event_def nbo.dec_enc split: outcome.splits option.splits)
  then have steps: "coord_step\<^sup>*\<^sup>* (\<lambda>t. Unknown) (coord_of (log_entries (tm_log ?s)))"
    using manager_refines_coordinator [OF life sample_start, of ?es ?s] by simp
  have room: "log_room 1 (tm_log sample_begun)" using sample_begun_inv [of 1] by (simp add: tm_inv_def)
  have "coord_of (log_entries (tm_log ?s)) 5 = Committed"
    using put_entry_room(1) [of 0 "tm_log sample_begun"] room
    by (simp add: sample_begin sample_vote committed_def Let_def coord_of_def status_of_def)
  then show ?thesis using steps by blast
qed

section \<open>The worker is an object with a shadow copy\<close>

text \<open>
  C5. The worker refines the object of \<open>Shadow\<close>, whatever its two threads receive and in
  whatever order, and whether system calls fail or not: as long as it runs, its store, its log
  and the state of its transaction thread stand for the object that the messages make, one
  after the other; and where it stops, its files stand for the values before the iteration in
  which it stopped or for those after it. The strings that arrive end within their buffer.
\<close>

theorem worker_refines_shadow:
  assumes "wk_wf (n + length es) s" and "flags_ok s" and "admissible (wk_acc None) wk_step es s"
  shows "ensures (\<lambda>s'. wk_wf n s' \<and> flags_ok s' \<and> shadow_of s' = fold sh_step es (shadow_of s))
     (\<lambda>s'. \<exists>k < length es. committed_vals s' \<in> {sh_stable (fold sh_step (take k es) (shadow_of s)),
        sh_stable (fold sh_step (take (Suc k) es) (shadow_of s))})
     (run_machine wk_step es s)"
proof -
  have "refines (n + length es) (shadow_of s) s" using assms(1,2) by (simp add: refines_def)
  from run_implements [OF this assms(3)] show ?thesis
    by (rule ensures_mono) (auto simp: refines_def leaves_def)
qed

text \<open>A worker that has voted is told to abort.\<close>

theorem worker_refines_shadow_witness:
  "\<exists>s'. run_machine wk_step [(TxThread, sample_os, RDatagram 200 (message_to_nbo (sample_msg ABORT 5)) (sample_addr 7000))]
       (sample_worker 3 TUncertain) = Running s' \<and>
     shadow_of (sample_worker 3 TUncertain) = \<lparr>sh_pc = TUncertain, sh_saved = Some (7, 8, []), sh_now = (1, 2, [])\<rparr> \<and>
     shadow_of s' = \<lparr>sh_pc = TIdle, sh_saved = None, sh_now = (7, 8, [])\<rparr>"
proof -
  let ?w = "sample_worker 3 TUncertain" and ?m = "sample_msg ABORT 5"
  let ?es = "[(TxThread, sample_os, RDatagram 200 (message_to_nbo ?m) (sample_addr 7000))]"
  have wf: "wk_wf 100 ?w" by (rule sample_worker_wf) simp
  then have wf1: "wk_wf (0 + length ?es) ?w" "wk_wf (Suc 0) ?w" by (simp_all add: wk_wf_def log_room_def)
  have h: "shadow_of ?w = \<lparr>sh_pc = TUncertain, sh_saved = Some (7, 8, []), sh_now = (1, 2, [])\<rparr>"
    by (simp add: shadow_of_def saved_of_def since_def)
  have "flags_ok ?w" by (simp add: flags_ok_def)
  moreover have "admissible (wk_acc None) wk_step ?es ?w"
    by (simp add: wk_acc_def nbo.dec_enc fits_msg_def sample_msg_def terminated_def split: outcome.splits)
  ultimately have ens: "ensures (\<lambda>s'. shadow_of s' = fold sh_step ?es (shadow_of ?w)) (\<lambda>s'. True) (run_machine wk_step ?es ?w)"
    using worker_refines_shadow [OF wf1(1)] by (auto elim: ensures_mono)
  have "fold sh_step ?es (shadow_of ?w) = \<lparr>sh_pc = TIdle, sh_saved = None, sh_now = (7, 8, [])\<rparr>"
    using cmd_of_code [of ABORT] by (simp add: h sh_step_def nbo.dec_enc sh_hear_def sh_back_def sh_stable_def)
  moreover obtain s' where "tx_worker_thread sample_os (RDatagram 200 (message_to_nbo ?m) (sample_addr 7000)) ?w = Running s'"
    by (rule uncertain_abort [OF _ sample_os_ok wf1(2), of 3 "message_to_nbo ?m" 200 "sample_addr 7000"])
      (simp_all add: nbo.dec_enc)
  ultimately show ?thesis using ens h by (auto simp: wk_step_def)
qed

end
