(* ===== verification/Command.thy ===== *)
theory Command
  imports Server
begin

text \<open>
  The command line client, \<^verbatim>\<open>src/command.c\<close>: it reads a line, splits it at blanks, and sends
  one datagram to the worker the line names. Standard input is a list of characters; an
  argument is the string in its buffer. The port of the unbound socket that a datagram is
  sent from is the one the system chooses.
\<close>

section \<open>State\<close>

definition CMD_BUFFER_SIZE :: nat where
  [simp]: "CMD_BUFFER_SIZE = 512"

definition CMD_SIZE :: nat where
  [simp]: "CMD_SIZE = 128"

definition CMD_MAX_ARGS :: nat where
  [simp]: "CMD_MAX_ARGS = 10"

record cmd_t =
  c_stdin :: "char list"
  cmd_args :: "char list list"     \<comment> \<open>the first \<^verbatim>\<open>cmd_arg_count\<close> buffers\<close>
  c_out :: "datagram list"

abbreviation NL :: char where
  "NL \<equiv> CHR 0x0A"

section \<open>Reading a line\<close>

text \<open>\<^verbatim>\<open>fgets(buf, n, stdin)\<close>: up to and including a newline, at most \<open>n - 1\<close> characters;
  nothing at the end of the input.\<close>

fun read_line :: "nat \<Rightarrow> char list \<Rightarrow> char list \<times> char list" where
  "read_line 0 cs = ([], cs)"
| "read_line (Suc n) [] = ([], [])"
| "read_line (Suc n) (c # cs) =
     (if c = NL then ([c], cs) else let (line, rest) = read_line n cs in (c # line, rest))"

definition fgets :: "nat \<Rightarrow> char list \<Rightarrow> (char list \<times> char list) option" where
  "fgets n input = (if input = [] then None else Some (read_line (n - 1) input))"

text \<open>A token goes into the next buffer: only ten have been allocated, of \<^verbatim>\<open>CMD_SIZE\<close> bytes.\<close>

definition store_arg :: "char list list \<Rightarrow> char list \<Rightarrow> halt + char list list" where
  "store_arg args tok =
     (if CMD_MAX_ARGS \<le> length args then Inl SegFault
      else if CMD_SIZE \<le> length tok then Inl Undef
      else Inr (args @ [tok]))"

text \<open>
  The splitting loop. \<open>cur\<close> is the text between \<^verbatim>\<open>last\<close> and \<^verbatim>\<open>i\<close>. A blank ends a token; when
  there is no token yet, \<^verbatim>\<open>last\<close> stays where it is and the blank becomes part of the next one.
\<close>

fun split_args :: "char list \<Rightarrow> char list \<Rightarrow> char list list \<Rightarrow> halt + char list list \<times> char list" where
  "split_args [] cur args = Inr (args, cur)"
| "split_args (c # cs) cur args =
     (if CMD_MAX_ARGS \<le> length args then Inr (args, cur)
      else if \<not> isspace c then split_args cs (cur @ [c]) args
      else if cur = [] then split_args cs (cur @ [c]) args
      else (case store_arg args cur of Inl h \<Rightarrow> Inl h | Inr args \<Rightarrow> split_args cs [] args))"

text \<open>Both loops stay within the buffer the line is in.\<close>

definition parse_line :: "char list \<Rightarrow> halt + char list list" where
  "parse_line line =
     (let str = takeWhile (\<lambda>c. c \<noteq> NL \<and> c \<noteq> NUL) (take CMD_BUFFER_SIZE line)
      in case split_args (dropWhile isspace str) [] [] of
           Inl h \<Rightarrow> Inl h
         | Inr (args, cur) \<Rightarrow> if cur \<noteq> [] then store_arg args cur else Inr args)"

definition read_command :: "cmd_t \<Rightarrow> cmd_t outcome" where
  "read_command s = (case fgets CMD_BUFFER_SIZE (c_stdin s) of
       None \<Rightarrow> Halted (Exit (-1)) s
     | Some (line, rest) \<Rightarrow>
         let s = s\<lparr>c_stdin := rest\<rparr>
         in attempt (parse_line line) s (\<lambda>args. Running (s\<lparr>cmd_args := args\<rparr>)))"

section \<open>Sending\<close>

text \<open>A host that does not resolve is given up silently; so is a failing \<^verbatim>\<open>sendto\<close>.\<close>

definition send_message :: "os_t \<Rightarrow> char list \<Rightarrow> u32 \<Rightarrow> message_t \<Rightarrow> cmd_t \<Rightarrow> cmd_t outcome" where
  "send_message os worker_host worker_port msg s =
     (let (res, addr) = resolve_host os worker_host (os_stack_addr os)
      in if res \<noteq> 0 then Running s
         else let host = \<lparr>sin_family = AF_INET, sin_port = htons (ucast worker_port), sin_addr = addr\<rparr>
              in if os_socket os < 0 then Halted (Exit (-1)) s
                 else if os_sendto os host
                 then Running (s\<lparr>c_out := c_out s @
                   [\<lparr>dg_src = ucast (ntohs (os_autoport os)), dg_dest = host, dg_msg = message_to_nbo msg\<rparr>]\<rparr>)
                 else Running s)"

abbreviation arg :: "cmd_t \<Rightarrow> nat \<Rightarrow> char list" where
  "arg s i \<equiv> lit (cmd_args s ! i)"

text \<open>A command with \<open>n\<close> words whose message may not fit its buffer.\<close>

definition send_cmd :: "os_t \<Rightarrow> nat \<Rightarrow> (cmd_t \<Rightarrow> halt + message_t) \<Rightarrow> cmd_t \<Rightarrow> cmd_t outcome" where
  "send_cmd os n build s =
     (if length (cmd_args s) \<noteq> n then Running s
      else attempt (build s) s (\<lambda>msg. send_message os (arg s 1) (atoi (arg s 2)) msg s))"

definition do_begin :: "os_t \<Rightarrow> cmd_t \<Rightarrow> cmd_t outcome" where
  "do_begin os = send_cmd os 6
     (\<lambda>s. message_write_begin (message_init None) (arg s 3) (atoi (arg s 4)) (atoi (arg s 5)))"

definition do_join :: "os_t \<Rightarrow> cmd_t \<Rightarrow> cmd_t outcome" where
  "do_join os = send_cmd os 6
     (\<lambda>s. message_write_join (message_init None) (arg s 3) (atoi (arg s 4)) (atoi (arg s 5)))"

definition do_newa :: "os_t \<Rightarrow> cmd_t \<Rightarrow> cmd_t outcome" where
  "do_newa os = send_cmd os 4 (\<lambda>s. Inr (message_write_new_A (message_init None) (atoi (arg s 3))))"

definition do_newb :: "os_t \<Rightarrow> cmd_t \<Rightarrow> cmd_t outcome" where
  "do_newb os = send_cmd os 4 (\<lambda>s. Inr (message_write_new_B (message_init None) (atoi (arg s 3))))"

definition do_newid :: "os_t \<Rightarrow> cmd_t \<Rightarrow> cmd_t outcome" where
  "do_newid os = send_cmd os 4 (\<lambda>s. message_write_new_ID (message_init None) (arg s 3))"

definition do_crash :: "os_t \<Rightarrow> cmd_t \<Rightarrow> cmd_t outcome" where
  "do_crash os = send_cmd os 3 (\<lambda>s. Inr (message_write_crash (message_init None)))"

definition do_delay :: "os_t \<Rightarrow> cmd_t \<Rightarrow> cmd_t outcome" where
  "do_delay os = send_cmd os 4 (\<lambda>s. Inr (message_write_delay (message_init None) (atoi (arg s 3))))"

definition cmd_do_commit :: "os_t \<Rightarrow> cmd_t \<Rightarrow> cmd_t outcome" where
  "cmd_do_commit os = send_cmd os 3 (\<lambda>s. Inr (message_write_commit (message_init None)))"

definition do_commit_crash :: "os_t \<Rightarrow> cmd_t \<Rightarrow> cmd_t outcome" where
  "do_commit_crash os = send_cmd os 3 (\<lambda>s. Inr (message_write_commit_crash (message_init None)))"

definition cmd_do_abort :: "os_t \<Rightarrow> cmd_t \<Rightarrow> cmd_t outcome" where
  "cmd_do_abort os = send_cmd os 3 (\<lambda>s. Inr (message_write_abort (message_init None)))"

definition do_abort_crash :: "os_t \<Rightarrow> cmd_t \<Rightarrow> cmd_t outcome" where
  "do_abort_crash os = send_cmd os 3 (\<lambda>s. Inr (message_write_abort_crash (message_init None)))"

definition do_vote_abort :: "os_t \<Rightarrow> cmd_t \<Rightarrow> cmd_t outcome" where
  "do_vote_abort os = send_cmd os 3 (\<lambda>s. Inr (message_write_vote_abort (message_init None)))"

section \<open>The loop\<close>

text \<open>The command is the first whose name is a prefix of the first word.\<close>

definition cmd_dispatch :: "os_t \<Rightarrow> cmd_t \<Rightarrow> cmd_t outcome" where
  "cmd_dispatch os s =
     (let cmd_name = map tolower (cmd_args s ! 0);
          s = s\<lparr>cmd_args := (cmd_args s)[0 := cmd_name]\<rparr>
      in if strncmp_eq cmd_name ''begin'' 5 then do_begin os s
         else if strncmp_eq cmd_name ''join'' 4 then do_join os s
         else if strncmp_eq cmd_name ''newa'' 4 then do_newa os s
         else if strncmp_eq cmd_name ''newb'' 4 then do_newb os s
         else if strncmp_eq cmd_name ''newid'' 5 then do_newid os s
         else if strncmp_eq cmd_name ''crash'' 5 then do_crash os s
         else if strncmp_eq cmd_name ''delay'' 5 then do_delay os s
         else if strncmp_eq cmd_name ''commitcrash'' 11 then do_commit_crash os s
         else if strncmp_eq cmd_name ''commit'' 6 then cmd_do_commit os s
         else if strncmp_eq cmd_name ''abortcrash'' 10 then do_abort_crash os s
         else if strncmp_eq cmd_name ''abort'' 5 then cmd_do_abort os s
         else if strncmp_eq cmd_name ''voteabort'' 9 then do_vote_abort os s
         else if strncmp_eq cmd_name ''exit'' 4 \<or> strncmp_eq cmd_name ''quit'' 4 then Halted (Exit 0) s
         else Running s)"

definition cmd_step :: "os_t \<Rightarrow> cmd_t \<Rightarrow> cmd_t outcome" where
  "cmd_step os s = bnd (read_command s)
     (\<lambda>s. if cmd_args s = [] then Running s else cmd_dispatch os s)"

lemma read_line_le: "length (snd (read_line n cs)) \<le> length cs"
  by (induction n cs rule: read_line.induct) (auto split: prod.splits)

lemma read_line_less: "length (snd (read_line (Suc n) (c # cs))) < length (c # cs)"
  using read_line_le [of n cs] by (auto split: prod.splits)

lemma send_message_stdin: "send_message os h p m s = Running t \<Longrightarrow> c_stdin t = c_stdin s"
  by (cases "resolve_host os h (os_stack_addr os)") (auto simp: send_message_def Let_def split: if_splits)

lemma send_cmd_stdin: "send_cmd os n b s = Running t \<Longrightarrow> c_stdin t = c_stdin s"
  by (auto simp: send_cmd_def attempt_eq_Running split: if_splits dest: send_message_stdin)

lemmas cmd_defs =
  do_begin_def do_join_def do_newa_def do_newb_def do_newid_def do_crash_def do_delay_def cmd_do_commit_def
  do_commit_crash_def cmd_do_abort_def do_abort_crash_def do_vote_abort_def

lemma cmd_dispatch_stdin: "cmd_dispatch os s = Running t \<Longrightarrow> c_stdin t = c_stdin s"
  unfolding cmd_dispatch_def Let_def cmd_defs
  by (fastforce split: if_splits dest: send_cmd_stdin)

text \<open>The ways an iteration can halt.\<close>

lemma strcpy_Inl: "strcpy d z = Inl h \<Longrightarrow> h = Undef"
  by (simp add: strcpy_def split: if_splits)

lemma store_arg_Inl: "store_arg args z = Inl h \<Longrightarrow> h \<in> {SegFault, Undef}"
  by (auto simp: store_arg_def split: if_splits)

lemma split_args_Inl: "split_args cs cur args = Inl h \<Longrightarrow> h \<in> {SegFault, Undef}"
  by (induction cs cur args rule: split_args.induct) (auto split: if_splits sum.splits dest: store_arg_Inl)

lemma parse_line_Inl: "parse_line line = Inl h \<Longrightarrow> h \<in> {SegFault, Undef}"
  by (auto simp: parse_line_def Let_def split: if_splits sum.splits dest: store_arg_Inl split_args_Inl)

lemma read_command_Halted:
  "read_command s = Halted h t \<Longrightarrow> h \<in> {SegFault, Undef} \<or> h = Exit (-1) \<and> c_stdin s = []"
  by (auto simp: read_command_def fgets_def attempt_eq_Halted Let_def split: if_splits prod.splits dest!: parse_line_Inl)

lemma send_message_Halted: "send_message os h p m s = Halted x t \<Longrightarrow> x = Exit (-1) \<and> os_socket os < 0"
  by (cases "resolve_host os h (os_stack_addr os)") (auto simp: send_message_def Let_def split: if_splits)

lemma send_cmd_Halted:
  assumes "send_cmd os n b s = Halted x t" and "\<And>h. b s = Inl h \<Longrightarrow> h = Undef"
  shows "x = Undef \<or> x = Exit (-1) \<and> os_socket os < 0"
  using assms by (auto simp: send_cmd_def attempt_eq_Halted split: if_splits dest: send_message_Halted)

lemma commands_Halted:
  "do_begin os s = Halted x t \<Longrightarrow> x = Undef \<or> x = Exit (-1) \<and> os_socket os < 0"
  "do_join os s = Halted x t \<Longrightarrow> x = Undef \<or> x = Exit (-1) \<and> os_socket os < 0"
  "do_newa os s = Halted x t \<Longrightarrow> x = Undef \<or> x = Exit (-1) \<and> os_socket os < 0"
  "do_newb os s = Halted x t \<Longrightarrow> x = Undef \<or> x = Exit (-1) \<and> os_socket os < 0"
  "do_newid os s = Halted x t \<Longrightarrow> x = Undef \<or> x = Exit (-1) \<and> os_socket os < 0"
  "do_crash os s = Halted x t \<Longrightarrow> x = Undef \<or> x = Exit (-1) \<and> os_socket os < 0"
  "do_delay os s = Halted x t \<Longrightarrow> x = Undef \<or> x = Exit (-1) \<and> os_socket os < 0"
  "cmd_do_commit os s = Halted x t \<Longrightarrow> x = Undef \<or> x = Exit (-1) \<and> os_socket os < 0"
  "do_commit_crash os s = Halted x t \<Longrightarrow> x = Undef \<or> x = Exit (-1) \<and> os_socket os < 0"
  "cmd_do_abort os s = Halted x t \<Longrightarrow> x = Undef \<or> x = Exit (-1) \<and> os_socket os < 0"
  "do_abort_crash os s = Halted x t \<Longrightarrow> x = Undef \<or> x = Exit (-1) \<and> os_socket os < 0"
  "do_vote_abort os s = Halted x t \<Longrightarrow> x = Undef \<or> x = Exit (-1) \<and> os_socket os < 0"
proof -
  have "map_sum id f (strcpy d z) = Inl h \<Longrightarrow> h = Undef" for f :: "char list \<Rightarrow> message_t" and d z h
    by (cases "strcpy d z") (auto dest: strcpy_Inl)
  note m = this
  show "do_begin os s = Halted x t \<Longrightarrow> x = Undef \<or> x = Exit (-1) \<and> os_socket os < 0"
    "do_join os s = Halted x t \<Longrightarrow> x = Undef \<or> x = Exit (-1) \<and> os_socket os < 0"
    "do_newid os s = Halted x t \<Longrightarrow> x = Undef \<or> x = Exit (-1) \<and> os_socket os < 0"
    unfolding cmd_defs by (erule send_cmd_Halted; auto simp: message_write_begin_def message_write_join_def
        message_write_new_ID_def Let_def dest: m)+
  show "do_newa os s = Halted x t \<Longrightarrow> x = Undef \<or> x = Exit (-1) \<and> os_socket os < 0"
    "do_newb os s = Halted x t \<Longrightarrow> x = Undef \<or> x = Exit (-1) \<and> os_socket os < 0"
    "do_crash os s = Halted x t \<Longrightarrow> x = Undef \<or> x = Exit (-1) \<and> os_socket os < 0"
    "do_delay os s = Halted x t \<Longrightarrow> x = Undef \<or> x = Exit (-1) \<and> os_socket os < 0"
    "cmd_do_commit os s = Halted x t \<Longrightarrow> x = Undef \<or> x = Exit (-1) \<and> os_socket os < 0"
    "do_commit_crash os s = Halted x t \<Longrightarrow> x = Undef \<or> x = Exit (-1) \<and> os_socket os < 0"
    "cmd_do_abort os s = Halted x t \<Longrightarrow> x = Undef \<or> x = Exit (-1) \<and> os_socket os < 0"
    "do_abort_crash os s = Halted x t \<Longrightarrow> x = Undef \<or> x = Exit (-1) \<and> os_socket os < 0"
    "do_vote_abort os s = Halted x t \<Longrightarrow> x = Undef \<or> x = Exit (-1) \<and> os_socket os < 0"
    unfolding cmd_defs by (erule send_cmd_Halted; simp)+
qed

definition quit_word :: "char list \<Rightarrow> bool" where
  "quit_word w \<longleftrightarrow> (let cmd_name = map tolower w in strncmp_eq cmd_name ''exit'' 4 \<or> strncmp_eq cmd_name ''quit'' 4)"

lemma cmd_dispatch_Halted:
  assumes "cmd_dispatch os s = Halted h t"
  shows "h = Exit 0 \<and> quit_word (cmd_args s ! 0) \<or> h = Undef \<or> h = Exit (-1) \<and> os_socket os < 0"
  using assms unfolding cmd_dispatch_def quit_word_def Let_def by (auto split: if_splits dest!: commands_Halted)

text \<open>No other command begins like the two that end the client.\<close>

lemma strncmp_hd: "strncmp_eq c (x # xs) (Suc n) \<Longrightarrow> x \<noteq> NUL \<Longrightarrow> cstr c \<noteq> [] \<and> hd (cstr c) = x"
  by (cases "cstr c") (auto simp: strncmp_eq_def cstr_def)

lemma cmd_dispatch_quits:
  assumes "quit_word (cmd_args s ! 0)"
  shows "\<exists>t. cmd_dispatch os s = Halted (Exit 0) t"
proof -
  let ?c = "map tolower (cmd_args s ! 0)"
  have q: "strncmp_eq ?c ''exit'' 4 \<or> strncmp_eq ?c ''quit'' 4" using assms by (simp add: quit_word_def Let_def)
  then have "hd (cstr ?c) = CHR ''e'' \<or> hd (cstr ?c) = CHR ''q''"
    using strncmp_hd [of ?c "CHR ''e''" "''xit''" 3] strncmp_hd [of ?c "CHR ''q''" "''uit''" 3] by auto
  then have "\<not> strncmp_eq ?c (x # xs) n" if "x \<noteq> CHR ''e''" "x \<noteq> CHR ''q''" "x \<noteq> NUL" "0 < n" for x xs n
    using strncmp_hd [of ?c x xs "n - 1"] that by auto
  note no = this
  have "\<not> strncmp_eq ?c ''begin'' 5" "\<not> strncmp_eq ?c ''join'' 4" "\<not> strncmp_eq ?c ''newa'' 4"
    "\<not> strncmp_eq ?c ''newb'' 4" "\<not> strncmp_eq ?c ''newid'' 5" "\<not> strncmp_eq ?c ''crash'' 5"
    "\<not> strncmp_eq ?c ''delay'' 5" "\<not> strncmp_eq ?c ''commitcrash'' 11" "\<not> strncmp_eq ?c ''commit'' 6"
    "\<not> strncmp_eq ?c ''abortcrash'' 10" "\<not> strncmp_eq ?c ''abort'' 5" "\<not> strncmp_eq ?c ''voteabort'' 9"
    by (rule no; simp)+
  then show ?thesis using q unfolding cmd_dispatch_def Let_def by (simp only: if_False if_True) blast
qed

text \<open>A line whose first word is such a command.\<close>

definition quits :: "cmd_t \<Rightarrow> bool" where
  "quits s \<longleftrightarrow> (case read_command s of
       Running u \<Rightarrow> cmd_args u \<noteq> [] \<and> quit_word (cmd_args u ! 0)
     | Halted h u \<Rightarrow> False)"

lemma cmd_step_quits: "quits s \<Longrightarrow> \<exists>t. cmd_step os s = Halted (Exit 0) t"
  using cmd_dispatch_quits by (auto simp: quits_def cmd_step_def split: outcome.splits)

lemma cmd_step_Halted:
  assumes "cmd_step os s = Halted h t"
  shows "h = Exit 0 \<and> quits s \<or> h = SegFault \<or> h = Undef \<or> h = Exit (-1) \<and> (c_stdin s = [] \<or> os_socket os < 0)"
proof (cases "read_command s")
  case (Halted h' u)
  then show ?thesis using assms read_command_Halted [OF Halted] by (auto simp: cmd_step_def)
next
  case (Running u)
  with assms have "cmd_args u \<noteq> []" "cmd_dispatch os u = Halted h t" by (auto simp: cmd_step_def split: if_splits)
  then show ?thesis using cmd_dispatch_Halted [of os u h t] Running by (auto simp: quits_def)
qed

lemma cmd_step_end: "c_stdin s = [] \<Longrightarrow> cmd_step os s = Halted (Exit (-1)) s"
  by (simp add: cmd_step_def read_command_def fgets_def)

text \<open>Every iteration that goes on has consumed a part of the input.\<close>

lemma cmd_step_consumes:
  assumes "cmd_step os s = Running t"
  shows "length (c_stdin t) < length (c_stdin s)"
proof -
  from assms obtain u where u: "read_command s = Running u" and t: "t = u \<or> cmd_dispatch os u = Running t"
    by (auto simp: cmd_step_def bnd_eq_Running split: if_splits)
  from u obtain c cs where cs: "c_stdin s = c # cs" and rest: "c_stdin u = snd (read_line 511 (c_stdin s))"
    by (cases "c_stdin s") (auto simp: read_command_def fgets_def attempt_eq_Running Let_def split: prod.splits)
  have "length (c_stdin u) < length (c_stdin s)"
    using read_line_less [of 510 c cs] by (simp add: cs rest)
  then show ?thesis using t cmd_dispatch_stdin [of os u t] by auto
qed

text \<open>The loop of \<^verbatim>\<open>main\<close>: it ends with \<^verbatim>\<open>exit\<close>, at the end of the input, or with a fault.\<close>

function cmd_main :: "os_t \<Rightarrow> cmd_t \<Rightarrow> halt \<times> cmd_t" where
  "cmd_main os s = (case cmd_step os s of Halted h t \<Rightarrow> (h, t) | Running t \<Rightarrow> cmd_main os t)"
  by pat_completeness auto
termination
  by (relation "measure (\<lambda>(os, s). length (c_stdin s))") (auto dest: cmd_step_consumes)

declare cmd_main.simps [simp del]

section \<open>What the splitting does\<close>

definition blank_free :: "char list \<Rightarrow> bool" where
  "blank_free w \<longleftrightarrow> w \<noteq> [] \<and> length w < CMD_SIZE \<and> (\<forall>c \<in> set w. \<not> isspace c \<and> c \<noteq> NUL)"

fun join_words :: "char list list \<Rightarrow> char list" where
  "join_words [] = []"
| "join_words [w] = w"
| "join_words (w # ws) = w @ CHR '' '' # join_words ws"

lemma split_args_word:
  "\<forall>c \<in> set w. \<not> isspace c \<Longrightarrow> length args < CMD_MAX_ARGS \<Longrightarrow>
     split_args (w @ cs) cur args = split_args cs (cur @ w) args"
  by (induction w arbitrary: cur) auto

lemma split_args_words:
  "ws \<noteq> [] \<Longrightarrow> \<forall>w \<in> set ws. blank_free w \<Longrightarrow> length args + length ws \<le> CMD_MAX_ARGS \<Longrightarrow>
     split_args (join_words ws) [] args = Inr (args @ butlast ws, last ws)"
proof (induction ws arbitrary: args rule: join_words.induct)
  case (2 w)
  then show ?case using split_args_word [of w args "[]" "[]"] by (simp add: blank_free_def)
next
  case (3 w v ws)
  have "store_arg args w = Inr (args @ [w])" using "3.prems" by (simp add: store_arg_def blank_free_def)
  then show ?case
    using 3 split_args_word [of w args "CHR '' '' # join_words (v # ws)" "[]"] by (auto simp: blank_free_def isspace_def)
qed simp

text \<open>Words in front of something else, and a word that is not the first.\<close>

lemma split_args_then:
  "ws \<noteq> [] \<Longrightarrow> \<forall>w \<in> set ws. blank_free w \<Longrightarrow> length args + length ws \<le> CMD_MAX_ARGS \<Longrightarrow>
     split_args (join_words ws @ CHR '' '' # cs) [] args = split_args cs [] (args @ ws)"
proof (induction ws arbitrary: args rule: join_words.induct)
  case (2 w)
  then have "store_arg args w = Inr (args @ [w])" by (simp add: store_arg_def blank_free_def)
  then show ?case using 2 split_args_word [of w args "CHR '' '' # cs" "[]"] by (auto simp: blank_free_def isspace_def)
next
  case (3 w v ws)
  have "store_arg args w = Inr (args @ [w])" using "3.prems" by (simp add: store_arg_def blank_free_def)
  then show ?case
    using 3 split_args_word [of w args "CHR '' '' # join_words (v # ws) @ CHR '' '' # cs" "[]"]
    by (auto simp: blank_free_def isspace_def)
qed simp

lemma split_args_cur:
  assumes "\<forall>w \<in> set (v # ws). blank_free w" and "length (cur @ v) < CMD_SIZE" and "length args + length (v # ws) \<le> CMD_MAX_ARGS"
  shows "split_args (join_words (v # ws)) cur args = Inr (args @ butlast ((cur @ v) # ws), last ((cur @ v) # ws))"
proof (cases ws)
  case Nil
  then show ?thesis using assms split_args_word [of v args "[]" cur] by (simp add: blank_free_def)
next
  case (Cons w us)
  have "store_arg args (cur @ v) = Inr (args @ [cur @ v])" using assms by (simp add: store_arg_def)
  moreover have "\<forall>c \<in> set v. \<not> isspace c" "v \<noteq> []" using assms(1) by (auto simp: blank_free_def)
  ultimately have "split_args (join_words (v # ws)) cur args = split_args (join_words ws) [] (args @ [cur @ v])"
    using Cons assms(3) split_args_word [of v args "CHR '' '' # join_words ws" cur] by (auto simp: isspace_def)
  also have "\<dots> = Inr (args @ butlast ((cur @ v) # ws), last ((cur @ v) # ws))"
    using Cons assms split_args_words [of ws "args @ [cur @ v]"] by simp
  finally show ?thesis .
qed

text \<open>A clean line is split whole.\<close>

lemma parse_line_clean:
  assumes "\<forall>c \<in> set str. c \<noteq> NL \<and> c \<noteq> NUL" and "str \<noteq> []" and "\<not> isspace (hd str)" and "length str < 511"
  shows "parse_line (str @ [NL]) = (case split_args str [] [] of Inl h \<Rightarrow> Inl h
     | Inr (args, cur) \<Rightarrow> if cur \<noteq> [] then store_arg args cur else Inr args)"
proof -
  have "take CMD_BUFFER_SIZE (str @ [NL]) = str @ [NL]" using assms(4) by simp
  moreover have "takeWhile (\<lambda>c. c \<noteq> NL \<and> c \<noteq> NUL) (str @ [NL]) = str"
    using assms(1) by (subst takeWhile_append2) auto
  moreover have "dropWhile isspace str = str" using assms(2,3) by (cases str) auto
  ultimately show ?thesis by (simp add: parse_line_def del: CMD_BUFFER_SIZE_def)
qed

lemma join_words_clean: "c \<in> set (join_words ws) \<Longrightarrow> \<forall>w \<in> set ws. blank_free w \<Longrightarrow> c \<noteq> NL \<and> c \<noteq> NUL"
  by (induction ws rule: join_words.induct) (auto simp: blank_free_def isspace_def)

lemma join_words_hd:
  assumes "ws \<noteq> []" and "\<forall>w \<in> set ws. blank_free w"
  shows "join_words ws \<noteq> []" "\<not> isspace (hd (join_words ws @ cs))"
proof -
  obtain w us where "ws = w # us" using assms(1) by (cases ws) auto
  moreover then obtain d ds where "w = d # ds" "\<not> isspace d" using assms(2) by (cases w) (auto simp: blank_free_def)
  ultimately show "join_words ws \<noteq> []" "\<not> isspace (hd (join_words ws @ cs))" by (cases us; simp)+
qed

lemma store_last: "length ws < CMD_MAX_ARGS \<Longrightarrow> length w < CMD_SIZE \<Longrightarrow> store_arg ws w = Inr (ws @ [w])"
  by (simp add: store_arg_def)

lemma parse_line_words:
  assumes "ws \<noteq> []" and "\<forall>w \<in> set ws. blank_free w" and "length ws \<le> CMD_MAX_ARGS" and "length (join_words ws) < 511"
  shows "parse_line (join_words ws @ [NL]) = Inr ws"
proof -
  have "blank_free (last ws)" "length (butlast ws) < CMD_MAX_ARGS" using assms by (auto simp: last_in_set)
  then have "last ws \<noteq> []" "store_arg (butlast ws) (last ws) = Inr ws"
    using assms(1) store_last [of "butlast ws" "last ws"] by (simp_all add: blank_free_def)
  moreover have "split_args (join_words ws) [] [] = Inr ([] @ butlast ws, last ws)"
    using assms by (intro split_args_words) simp_all
  ultimately show ?thesis
    using parse_line_clean [of "join_words ws"] join_words_clean [of _ ws] join_words_hd(1) [of ws] join_words_hd(2) [of ws "[]"] assms by simp
qed

text \<open>The second of two blanks goes into the next word.\<close>

lemma parse_line_double:
  assumes "us \<noteq> []" and "\<forall>w \<in> set (us @ v # ws). blank_free w" and "length v < 127"
    and "length us + length (v # ws) \<le> CMD_MAX_ARGS" and "length (join_words us @ ''  '' @ join_words (v # ws)) < 511"
  shows "parse_line ((join_words us @ ''  '' @ join_words (v # ws)) @ [NL]) = Inr (us @ ('' '' @ v) # ws)"
proof -
  let ?str = "join_words us @ ''  '' @ join_words (v # ws)" and ?as = "('' '' @ v) # ws"
  have "split_args ?str [] [] = split_args (CHR '' '' # join_words (v # ws)) [] us"
    using split_args_then [of us "[]" "CHR '' '' # join_words (v # ws)"] assms by simp
  also have "\<dots> = split_args (join_words (v # ws)) '' '' us" using assms(4) by (simp add: isspace_def)
  also have "\<dots> = Inr (us @ butlast ?as, last ?as)"
    using assms by (intro split_args_cur) auto
  finally have split: "split_args ?str [] [] = Inr (us @ butlast ?as, last ?as)" .
  have last: "last ?as \<noteq> []" "length (last ?as) < CMD_SIZE"
    using assms(2,3) by (cases ws rule: rev_cases; auto simp: blank_free_def)+
  have "store_arg (us @ butlast ?as) (last ?as) = Inr ((us @ butlast ?as) @ [last ?as])"
    using assms(4) last(2) by (intro store_last) simp_all
  then have st: "store_arg (us @ butlast ?as) (last ?as) = Inr (us @ ?as)"
    by (simp only: append_assoc append_butlast_last_id [OF list.distinct(2)])
  have "\<forall>c \<in> set ?str. c \<noteq> NL \<and> c \<noteq> NUL"
    using join_words_clean [of _ us] join_words_clean [of _ "v # ws"] assms(2) by auto
  moreover have "?str \<noteq> []" "\<not> isspace (hd ?str)" using join_words_hd(2) [of us] assms(1,2) by auto
  ultimately have "parse_line (?str @ [NL]) = (case split_args ?str [] [] of Inl h \<Rightarrow> Inl h
     | Inr (args, cur) \<Rightarrow> if cur \<noteq> [] then store_arg args cur else Inr args)"
    using assms(5) by (rule parse_line_clean)
  then show ?thesis unfolding split sum.case prod.case using last(1) st by simp
qed

lemma read_line_whole:
  "NL \<notin> set xs \<Longrightarrow> length xs < n \<Longrightarrow> read_line n (xs @ NL # rest) = (xs @ [NL], rest)"
proof (induction xs arbitrary: n)
  case Nil
  then show ?case by (cases n) auto
next
  case (Cons x xs)
  then show ?case by (cases n) auto
qed

lemma join_words_no_NL: "\<forall>w \<in> set ws. blank_free w \<Longrightarrow> NL \<notin> set (join_words ws)"
  by (induction ws rule: join_words.induct) (auto simp: blank_free_def isspace_def)

text \<open>A line of words, read by the client.\<close>

lemma read_command_line:
  assumes "NL \<notin> set str" and "length str < 511" and "parse_line (str @ [NL]) = Inr ws" and "c_stdin s = str @ NL # rest"
  shows "read_command s = Running (s\<lparr>c_stdin := rest, cmd_args := ws\<rparr>)"
  using read_line_whole [OF assms(1,2), of rest] assms(3,4) by (simp add: read_command_def fgets_def)

lemma read_command_words:
  assumes "ws \<noteq> []" and "\<forall>w \<in> set ws. blank_free w" and "length ws \<le> CMD_MAX_ARGS" and "length (join_words ws) < 511"
    and "c_stdin s = join_words ws @ NL # rest"
  shows "read_command s = Running (s\<lparr>c_stdin := rest, cmd_args := ws\<rparr>)"
  using read_command_line [OF join_words_no_NL [OF assms(2)] assms(4) parse_line_words [OF assms(1-4)] assms(5)] .

section \<open>Numbers as words\<close>

lemma length_radix_text: "n < 10 ^ Suc k \<Longrightarrow> length (radix_text 10 n) \<le> Suc k"
proof (induction k arbitrary: n)
  case 0
  then show ?case by (simp add: radix_text.simps [of 10 n])
next
  case (Suc k)
  then have "n div 10 < 10 ^ Suc k" by (simp add: less_mult_imp_div_less)
  with Suc.IH [of "n div 10"] show ?case by (simp add: radix_text.simps [of 10 n])
qed

lemma length_fmt_d: "length (fmt_d w) \<le> 11"
proof -
  have "- (2 ^ 31) \<le> sint w" "sint w < 2 ^ 31" using sint_ge [of w] sint_lt [of w] by simp_all
  then have "nat (sint w) < 10 ^ Suc 9" "nat (- sint w) < 10 ^ Suc 9" by simp_all
  from this [THEN length_radix_text] show ?thesis by (auto simp: fmt_d_def int_text_def dec_text_def)
qed

lemma blank_free_fmt_d: "blank_free (fmt_d w)"
  using length_fmt_d [of w] int_text_no_NUL [of "sint w"] int_text_no_space [of _ "sint w"]
  by (auto simp: blank_free_def fmt_d_def int_text_def)

end
