(* ===== verification/Dumps.thy ===== *)
theory Dumps
  imports TxLog ObjStore
begin

text \<open>
  The two programs that print files: \<^verbatim>\<open>src/dumpObject.c\<close> prints the object store of a worker,
  \<^verbatim>\<open>src/txlog_dump.c\<close> a transaction log. A program is modelled by its exit status and the
  text it writes to standard output; \<^verbatim>\<open>ctime\<close> is a parameter.
\<close>

section \<open>The object store\<close>

definition usage :: "char list \<Rightarrow> string" where
  "usage cmd = ''usage: '' @ cstr cmd @ ''  portNum'' @ [CHR 0x0A]"

text \<open>The lines about the values; \<^verbatim>\<open>%15d\<close> pads with blanks on the left.\<close>

definition dump_value :: "string \<Rightarrow> u32 \<Rightarrow> string" where
  "dump_value name v =
     '' Object '' @ name @ '': '' @ pad_left 15 (CHR '' '') (fmt_d v) @ '' 0x'' @ fmt_08x v @ [CHR 0x0A]"

text \<open>
  The last character of the result of \<^verbatim>\<open>ctime\<close>, a newline, is cut off. An identifier that does not
  end within its buffer is read past it.
\<close>

definition dump_store :: "(int \<Rightarrow> string) \<Rightarrow> objstore_t \<Rightarrow> halt + string" where
  "dump_store ctime st =
     (if \<not> terminated (id_string st) then Inl Undef else Inr (
     ''String ID: '' @ cstr (id_string st) @ [CHR 0x0A] @
     '' '' @ butlast (ctime (tv_sec (lastUpdateTime st))) @ ''  usec '' @
       fmt_d (word_of_int (tv_usec (lastUpdateTime st))) @ [CHR 0x0A] @
     dump_value ''A'' (obj_a st) @ dump_value ''B'' (obj_b st) @
     concat (map (\<lambda>c. ''    node['' @ fmt_d (nodeId c) @ ''] = '' @ fmt_u (time c) @ [CHR 0x0A]) (o_vclock st))))"

text \<open>
  \<open>file\<close> is the store in the file named by the port, with the information whether the file
  has the size of a store; a wrong size is reported and the contents are printed all the same.
  A failing \<^verbatim>\<open>mmap\<close> is not noticed and the first access faults.
\<close>

definition dump_object_main ::
  "os_t \<Rightarrow> (int \<Rightarrow> string) \<Rightarrow> (64 word \<Rightarrow> (objstore_t \<times> bool) option) \<Rightarrow> char list list \<Rightarrow> halt + int \<times> string" where
  "dump_object_main os ctime files argv =
     (if length argv \<noteq> 2 then Inr (-1, usage (argv ! 0))
      else let (port, converted) = strtoul10 (argv ! 1)
      in if \<not> converted then Inr (-1, ''Port conversion error'' @ [CHR 0x0A])
      else (case files port of
          None \<Rightarrow> Inr (-2, [])
        | Some (st, size_ok) \<Rightarrow>
            if \<not> os_fstat os then Inr (-3, [])
            else (case objstore_mapped os st of Inl h \<Rightarrow> Inl h
              | Inr st \<Rightarrow> (case dump_store ctime st of Inl h \<Rightarrow> Inl h
              | Inr txt \<Rightarrow> Inr (0, (if size_ok then [] else ''The object data file has an invalid size'' @ [CHR 0x0A]) @ txt)))))"

section \<open>The log\<close>

text \<open>Texts printed one after the other, up to the first that faults.\<close>

fun prints :: "(halt + string) list \<Rightarrow> halt + string" where
  "prints [] = Inr []"
| "prints (Inl h # ps) = Inl h"
| "prints (Inr x # ps) = (case prints ps of Inl h \<Rightarrow> Inl h | Inr y \<Rightarrow> Inr (x @ y))"

fun dump_entries :: "txlog_t \<Rightarrow> nat list \<Rightarrow> txlog_entry_t \<Rightarrow> (halt + string) list" where
  "dump_entries log [] entry = []"
| "dump_entries log (i # is) entry =
     (let entry = txlog_read_entry log (of_nat i) entry in txentry_print entry # dump_entries log is entry)"

text \<open>
  \<open>files\<close> are the logs there are. Without an argument \<^verbatim>\<open>argv[1]\<close> is \<^verbatim>\<open>NULL\<close>, which \<^verbatim>\<open>txlog_open\<close>
  asserts it is not.
\<close>

definition txlog_dump_main :: "os_t \<Rightarrow> char list list \<Rightarrow> (string \<Rightarrow> txlog_t option) \<Rightarrow> halt + string" where
  "txlog_dump_main os argv files =
     (if length argv < 2 then Inl AssertFail
      else (case txlog_open os (files (cstr (argv ! 1))) of Inl h \<Rightarrow> Inl h
      | Inr log \<Rightarrow> (case txlog_mapped os log of Inl h \<Rightarrow> Inl h
      | Inr log \<Rightarrow> prints (Inr (''Vector clock:'' @ [CHR 0x0A] @ vclock_dump (txlog_read_clock log)) #
          dump_entries log [0..<unat (tx_count (header log))] (os_stack_entry os)))))"

lemma dump_entries_in:
  assumes "log_room n log" and "set is \<subseteq> {..<log_count log}"
  shows "dump_entries log is buf = map (\<lambda>i. txentry_print (log_entries log ! i)) is"
  using assms by (induction "is" arbitrary: buf) (simp_all add: txlog_read_entry_in Let_def)

lemma dump_entries_all:
  assumes "log_room n log"
  shows "dump_entries log [0..<log_count log] buf = map txentry_print (log_entries log)"
proof -
  have "map (\<lambda>i. txentry_print (log_entries log ! i)) [0..<log_count log] = map txentry_print (log_entries log)"
    using length_log_entries [OF assms] by (intro nth_equalityI) simp_all
  then show ?thesis using dump_entries_in [OF assms, of "[0..<log_count log]"] by (simp add: lessThan_atLeast0)
qed

lemma prints_Undef:
  "prints (map txentry_print es) = Inl Undef \<longleftrightarrow>
     (\<exists>e \<in> set es. e_type e = log_code LOG_UPDATE \<and> \<not> terminated (old_id e))"
  by (induction es) (auto simp: txentry_print_def split: sum.split)

end
