(* ===== verification/BaseClaims.thy ===== *)
theory BaseClaims
  imports Samples Command Dumps
begin

text \<open>
  The properties of the parts both programs are built from: clocks, messages, the log, numbers
  as text, and of the command line client and the dump programs.
\<close>

section \<open>Vector clocks\<close>

text \<open>
  C30. Merging the clock of a message: as long as the two clocks name at most ten nodes together,
  every node's time becomes the later of the two readings, and the receiver's own entry is
  untouched.
\<close>

theorem clock_merge:
  assumes "vc_wf vs" and "distinct (filter (\<lambda>i. i \<noteq> 0) (map nodeId cs))"
    and "card (vc_ids vs \<union> (vc_ids cs - {my})) \<le> MAX_NODES"
  shows "vc_lookup (vclock_update my vs cs) node =
     (if node = my then vc_lookup vs node else later (vc_lookup vs node) (vc_lookup cs node))"
  using assms by (rule vc_lookup_update)

lemma sample_clock_ids: "vc_ids (sample_clock p t) \<subseteq> {p}"
  by (auto simp: vc_ids_def sample_clock_def zero_clock_list zero_slot_def)

theorem clock_merge_witness:
  "vc_lookup (vclock_update 7000 (sample_clock 7000 3) (sample_clock 8001 9)) 8001 = Some 9"
proof -
  have "vc_wf (sample_clock 7000 3)" by (simp add: vc_wf_def sample_clock_def zero_clock_list zero_slot_def)
  moreover have "distinct (filter (\<lambda>i. i \<noteq> 0) (map nodeId (sample_clock 8001 9)))"
    by (simp add: sample_clock_def zero_clock_list zero_slot_def)
  moreover have "card (vc_ids (sample_clock 7000 3) \<union> (vc_ids (sample_clock 8001 9) - {7000})) \<le> card {7000, 8001 :: u32}"
    using sample_clock_ids by (intro card_mono) blast+
  then have "card (vc_ids (sample_clock 7000 3) \<union> (vc_ids (sample_clock 8001 9) - {7000})) \<le> MAX_NODES" by simp
  ultimately show ?thesis
    using clock_merge [of "sample_clock 7000 3" "sample_clock 8001 9" 7000 8001]
    by (simp add: sample_clock_def zero_clock_list zero_slot_def)
qed

text \<open>
  C31. A process that is in its own clock survives every message: its own time advances by one
  and no other node's time goes back, whatever clock the message carries.
\<close>

theorem clock_receive:
  assumes "vc_lookup vc me = Some t"
  shows "\<exists>vc'. vclock_increment me (vclock_update me vc received) = Inr vc' \<and> (vc_wf vc \<longrightarrow> vc_wf vc') \<and>
     vc_lookup vc' me = Some (t + 1) \<and> (\<forall>n. n \<noteq> me \<longrightarrow> no_later (vc_lookup vc n) (vc_lookup vc' n))"
  using assms by (rule vc.receive)

theorem clock_receive_witness:
  "\<exists>vc'. vclock_increment 7000 (vclock_update 7000 (sample_clock 7000 3) (sample_clock 8001 9)) = Inr vc' \<and>
     vc_lookup vc' 7000 = Some 4"
  using clock_receive [of "sample_clock 7000 3" 7000 3 "sample_clock 8001 9"]
  by (auto simp: sample_clock_def zero_clock_list)

section \<open>Messages\<close>

text \<open>
  C32. On the wire: a message that is converted to network byte order, sent, and received whole
  is the message that was sent; and no two messages look the same on the wire.
\<close>

theorem wire_round_trip:
  "message_from_nbo (message_to_nbo m) = m \<and> (message_to_nbo m = message_to_nbo m' \<longleftrightarrow> m = m')"
  using nbo.dec_enc nbo.enc_inject by blast

text \<open>
  C33. The clock a message is built with: only the first slot of the sender's clock gets into
  the message, so the receiver learns of at most one node.
\<close>

theorem message_clock_first_slot:
  "vc_lookup (m_vclock (message_init (Some vc))) node =
     (if nodeId (vc ! 0) = node \<and> node \<noteq> 0 then Some (time (vc ! 0)) else None)"
  by (rule vc_lookup_message_init)

section \<open>The log\<close>

text \<open>
  C34. What a log answers: the last entry of a transaction is found, and an id is free exactly if
  no entry has it. After an append the new entry is the answer for its own transaction and
  the answers for every other are the old ones.
\<close>

theorem log_append_lookup:
  assumes "log_room (Suc n) log"
  shows "txlog_last_tx os log t = find (\<lambda>e. e_transaction e = t) (rev (log_entries log)) \<and>
     (txlog_free_id os log t \<longleftrightarrow> (\<forall>e \<in> set (log_entries log). e_transaction e \<noteq> t)) \<and>
     txlog_last_tx os (final (txlog_append os' log e)) t =
       (if e_transaction e = t then Some e else txlog_last_tx os log t) \<and>
     (txlog_free_id os (final (txlog_append os' log e)) t \<longleftrightarrow> e_transaction e \<noteq> t \<and> txlog_free_id os log t)"
  using tl.last_tx_append [OF assms] tl.free_id_append [OF assms] tl.last_tx_find [OF assms] tl.free_id_unused [OF assms]
  by (simp add: final_txlog_append)

theorem log_append_lookup_witness:
  "txlog_last_tx sample_os (final (txlog_append sample_os fresh_log (txentry_init LOG_BEGIN 5 zero_clock))) 5 =
     Some (txentry_init LOG_BEGIN 5 zero_clock)"
  using log_append_lookup [where n = 0 and log = fresh_log and os = sample_os and os' = sample_os and t = 5
      and e = "txentry_init LOG_BEGIN 5 zero_clock"] by simp

text \<open>
  C35. The log dump prints the counted entries, all of them and in order, whatever the stack
  holds; nothing that lies behind them in the file is printed. It faults exactly if the old
  identifier of a counted update does not end within its buffer.
\<close>

theorem dump_prints_log:
  assumes "log_room n log" and "os_starts os" and "2 \<le> length argv" and "files (cstr (argv ! 1)) = Some log"
  shows "txlog_dump_main os argv files = prints (Inr (''Vector clock:'' @ [CHR 0x0A] @ vclock_dump (h_vclock (header log))) #
       map txentry_print (log_entries log)) \<and>
     (txlog_dump_main os argv files = Inl Undef \<longleftrightarrow>
       (\<exists>e \<in> set (log_entries log). e_type e = log_code LOG_UPDATE \<and> \<not> terminated (old_id e)))"
proof -
  have run: "txlog_dump_main os argv files = prints (Inr (''Vector clock:'' @ [CHR 0x0A] @ vclock_dump (h_vclock (header log))) #
       map txentry_print (log_entries log))"
    using assms dump_entries_all [OF assms(1), of "os_stack_entry os"]
    by (simp add: txlog_dump_main_def txlog_open_def txlog_mapped_def os_starts_def txlog_read_clock_def log_count_def)
  moreover have "prints (Inr x # ps) = Inl Undef \<longleftrightarrow> prints ps = Inl Undef" for x ps
    by (simp split: sum.split)
  ultimately show ?thesis using prints_Undef by (simp only: simp_thms)
qed

theorem dump_prints_log_witness:
  "txlog_dump_main sample_os [[], lit ''f''] (\<lambda>f. if f = ''f'' then Some fresh_log else None) = Inr (''Vector clock:'' @ [CHR 0x0A] @ vclock_dump zero_clock)"
  using dump_prints_log [of 0 fresh_log sample_os "[[], lit ''f'']" "\<lambda>f. if f = ''f'' then Some fresh_log else None"] by (simp add: fresh_log_def [THEN arg_cong [where f = header]] zero_head_def)

section \<open>Text\<close>

lemma atoi_lit_fmt_d: "atoi (lit (fmt_d w)) = w"
proof -
  have "NUL \<notin> set (fmt_d w)" by (simp add: fmt_d_def int_text_no_NUL)
  then have "atoi (lit (fmt_d w)) = atoi (fmt_d w)" by (simp add: atoi_def strtol10_def)
  then show ?thesis by (simp add: atoi_fmt_d)
qed

text \<open>A number that is printed with \<^verbatim>\<open>%d\<close> and read with \<^verbatim>\<open>atoi\<close> is the number again, at every width.\<close>

theorem number_round_trip: "atoi (lit (fmt_d w)) = w \<and> NUL \<notin> set (fmt_d w) \<and> (\<forall>c \<in> set (fmt_d w). \<not> isspace c)"
  using atoi_lit_fmt_d blank_free_fmt_d by (auto simp: blank_free_def)

theorem number_round_trip_witness: "atoi (lit (fmt_d 4294967291)) = 4294967291"
  using number_round_trip [of 4294967291] by blast

text \<open>
  C39. An identifier of 64 characters or more is stored without an end: every later read of it
  as a string runs past its buffer.
\<close>

theorem long_id_unterminated:
  assumes "length (id_string st) = IDLEN" and "IDLEN \<le> length (cstr z)"
  shows "\<not> terminated (objstore_get_id (objstore_set_id st z))"
  using assms not_terminated_strncpy [of IDLEN z "id_string st"] by (simp add: objstore_defs)

theorem long_id_unterminated_witness:
  "\<not> terminated (objstore_get_id (objstore_set_id (zero_store \<lparr>tv_sec = 0, tv_usec = 0\<rparr>) (lit (replicate 64 (CHR ''x'')))))"
  using long_id_unterminated [of "zero_store \<lparr>tv_sec = 0, tv_usec = 0\<rparr>" "lit (replicate 64 (CHR ''x''))"]
  by (simp add: zero_store_def)

section \<open>The client\<close>

text \<open>
  C37. Reading a line: up to ten words of less than 128 characters, separated by single blanks and
  shorter than 511 characters together, are read as these words, and the next line is next.
\<close>

theorem parse_words:
  assumes "ws \<noteq> []" and "\<forall>w \<in> set ws. blank_free w" and "length ws \<le> CMD_MAX_ARGS"
    and "length (join_words ws) < 511" and "c_stdin s = join_words ws @ NL # rest"
  shows "read_command s = Running (s\<lparr>c_stdin := rest, cmd_args := ws\<rparr>)"
  using assms by (rule read_command_words)

theorem parse_words_witness:
  "read_command \<lparr>c_stdin = ''commit node 8001'' @ NL # ''exit'', cmd_args = [], c_out = []\<rparr> =
     Running \<lparr>c_stdin = ''exit'', cmd_args = [''commit'', ''node'', ''8001''], c_out = []\<rparr>"
  using parse_words [of "[''commit'', ''node'', ''8001'']" "\<lparr>c_stdin = ''commit node 8001'' @ NL # ''exit'', cmd_args = [], c_out = []\<rparr>" "''exit''"]
  by (simp add: blank_free_def isspace_def)

text \<open>
  C36. From the keyboard to the worker: a begin line with the addresses of a worker and of a
  manager and a transaction id makes the client send one datagram to that worker, in which
  the worker reads the address of the manager and the id that were typed.
\<close>

theorem begin_line_reaches_worker:
  assumes "blank_free whost" and "blank_free thost" and "length thost < 64"
    and "c_stdin s = join_words [''begin'', whost, fmt_d wport, thost, fmt_d tport, fmt_d tid] @ NL # rest"
    and "length (join_words [''begin'', whost, fmt_d wport, thost, fmt_d tport, fmt_d tid]) < 511"
    and "os_resolve os whost = Some addr" and "0 \<le> os_socket os" and "\<forall>a. os_sendto os a"
  shows "\<exists>t d. cmd_step os s = Running t \<and> c_stdin t = rest \<and> c_out t = c_out s @ [d] \<and>
     dg_dest d = \<lparr>sin_family = AF_INET, sin_port = htons (ucast wport), sin_addr = addr\<rparr> \<and>
     m_type (message_from_nbo (dg_msg d)) = cmd_code BEGINTX \<and> m_tid (message_from_nbo (dg_msg d)) = tid \<and>
     m_port (message_from_nbo (dg_msg d)) = tport \<and> cstr (m_strdata (message_from_nbo (dg_msg d))) = thost"
proof -
  let ?ws = "[''begin'', whost, fmt_d wport, thost, fmt_d tport, fmt_d tid]"
  have rd: "read_command s = Running (s\<lparr>c_stdin := rest, cmd_args := ?ws\<rparr>)"
    using assms(1,2,4,5) blank_free_fmt_d
    by (intro read_command_words) (auto simp: blank_free_def isspace_def)
  have nul: "NUL \<notin> set thost" "NUL \<notin> set whost" using assms(1,2) by (auto simp: blank_free_def)
  obtain buf where buf: "strcpy (replicate STRDATA_LEN NUL) (lit thost) = Inr buf" "cstr buf = thost"
    using strcpy_ok [of "lit thost" "replicate STRDATA_LEN NUL"] nul assms(3) by auto
  let ?u = "s\<lparr>c_stdin := rest, cmd_args := ?ws\<rparr>"
  have "cmd_step os s = do_begin os ?u"
    using rd by (simp add: cmd_step_def cmd_dispatch_def strncmp_eq_def tolower_def Let_def)
  also have "\<dots> = Running (?u\<lparr>c_out := c_out s @ [\<lparr>dg_src = ucast (ntohs (os_autoport os)),
      dg_dest = \<lparr>sin_family = AF_INET, sin_port = htons (ucast wport), sin_addr = addr\<rparr>,
      dg_msg = message_to_nbo (zero_msg\<lparr>m_type := cmd_code BEGINTX, m_port := tport, m_tid := tid, m_strdata := buf\<rparr>)\<rparr>]\<rparr>)"
    using assms(6-8) nul buf
    by (simp add: do_begin_def send_cmd_def message_write_begin_def send_message_def resolve_host_def atoi_lit_fmt_d Let_def
        numeral_eq_Suc)
  finally show ?thesis using buf(2) by (simp add: nbo.dec_enc)
qed

theorem begin_line_reaches_worker_witness:
  "\<exists>t d. cmd_step sample_os \<lparr>c_stdin = join_words [''begin'', ''node'', fmt_d 8001, ''tm'', fmt_d 7000, fmt_d 5] @ [NL],
       cmd_args = [], c_out = []\<rparr> = Running t \<and> c_out t = [d] \<and> m_tid (message_from_nbo (dg_msg d)) = 5"
proof -
  let ?s = "\<lparr>c_stdin = join_words [''begin'', ''node'', fmt_d 8001, ''tm'', fmt_d 7000, fmt_d 5] @ [NL], cmd_args = [], c_out = []\<rparr>"
  have "length (join_words [''begin'', ''node'', fmt_d 8001, ''tm'', fmt_d 7000, fmt_d 5]) < 511"
    using length_fmt_d [of 8001] length_fmt_d [of 7000] length_fmt_d [of 5] by simp
  moreover have "blank_free ''node''" "blank_free ''tm''" by (simp_all add: blank_free_def isspace_def)
  ultimately show ?thesis
    using begin_line_reaches_worker [where whost = "''node''" and thost = "''tm''" and s = ?s and wport = 8001 and tport = 7000
        and tid = 5 and rest = "[]" and os = sample_os and addr = "0x0100007F"] by auto
qed

text \<open>
  C40. A second blank between two words is not skipped: it becomes the first character of the
  next word, which is then no longer the host, number or identifier that was typed.
\<close>

theorem double_blank:
  assumes "us \<noteq> []" and "\<forall>w \<in> set (us @ v # ws). blank_free w" and "length v < 127"
    and "length us + length (v # ws) \<le> CMD_MAX_ARGS" and "length (join_words us @ ''  '' @ join_words (v # ws)) < 511"
    and "c_stdin s = (join_words us @ ''  '' @ join_words (v # ws)) @ NL # rest"
  shows "read_command s = Running (s\<lparr>c_stdin := rest, cmd_args := us @ (CHR '' '' # v) # ws\<rparr>)"
proof (rule read_command_line [OF _ assms(5) _ assms(6)])
  show "NL \<notin> set (join_words us @ ''  '' @ join_words (v # ws))"
    using assms(2) join_words_no_NL [of us] join_words_no_NL [of "v # ws"] by simp
  show "parse_line ((join_words us @ ''  '' @ join_words (v # ws)) @ [NL]) = Inr (us @ (CHR '' '' # v) # ws)"
    using parse_line_double [OF assms(1-5)] by simp
qed

theorem double_blank_witness:
  "read_command \<lparr>c_stdin = ''commit  node 8001'' @ [NL], cmd_args = [], c_out = []\<rparr> =
     Running \<lparr>c_stdin = [], cmd_args = [''commit'', '' node'', ''8001''], c_out = []\<rparr>"
  using double_blank [of "[''commit'']" "''node''" "[''8001'']" "\<lparr>c_stdin = ''commit  node 8001'' @ [NL], cmd_args = [], c_out = []\<rparr>" "[]"]
  by (simp add: blank_free_def isspace_def)

text \<open>
  C38. The client always ends: it goes from line to line until an iteration halts. It leaves with
  status 0 exactly if one of the lines it gets to begins with \<^verbatim>\<open>exit\<close> or \<^verbatim>\<open>quit\<close>, with status -1
  if the input ends before that or a socket cannot be opened, and otherwise by a fault.
\<close>

theorem client_ends:
  "\<exists>h t u. cmd_main os s = (h, t) \<and> (\<lambda>a b. cmd_step os a = Running b)\<^sup>*\<^sup>* s u \<and> cmd_step os u = Halted h t \<and>
     (h = Exit 0 \<longleftrightarrow> (\<exists>b. (\<lambda>a b. cmd_step os a = Running b)\<^sup>*\<^sup>* s b \<and> quits b)) \<and>
     (c_stdin u = [] \<longrightarrow> h = Exit (-1)) \<and>
     (h = Exit 0 \<or> h = Exit (-1) \<and> (c_stdin u = [] \<or> os_socket os < 0) \<or> h = SegFault \<or> h = Undef)"
proof (induction os s rule: cmd_main.induct)
  case (1 os s)
  let ?R = "\<lambda>a b. cmd_step os a = Running b"
  show ?case
  proof (cases "cmd_step os s")
    case (Running t)
    have no: "\<not> quits s" using Running cmd_step_quits [of s os] by auto
    have star: "?R\<^sup>*\<^sup>* s b \<longleftrightarrow> b = s \<or> ?R\<^sup>*\<^sup>* t b" for b
      using Running converse_rtranclp_into_rtranclp [of ?R s t b] by (auto elim: converse_rtranclpE)
    have quit: "(\<exists>b. ?R\<^sup>*\<^sup>* s b \<and> quits b) \<longleftrightarrow> (\<exists>b. ?R\<^sup>*\<^sup>* t b \<and> quits b)" unfolding star using no by blast
    have steps: "?R\<^sup>*\<^sup>* s b" if "?R\<^sup>*\<^sup>* t b" for b unfolding star using that by (rule disjI2)
    have main: "cmd_main os s = cmd_main os t" using Running by (simp add: cmd_main.simps [of os s])
    from 1 [OF Running] obtain h t' u where ih: "cmd_main os t = (h, t')" "?R\<^sup>*\<^sup>* t u" "cmd_step os u = Halted h t'"
        "h = Exit 0 \<longleftrightarrow> (\<exists>b. ?R\<^sup>*\<^sup>* t b \<and> quits b)" "c_stdin u = [] \<longrightarrow> h = Exit (-1)"
        "h = Exit 0 \<or> h = Exit (-1) \<and> (c_stdin u = [] \<or> os_socket os < 0) \<or> h = SegFault \<or> h = Undef"
      by (elim exE conjE) (rule that)
    show ?thesis unfolding main quit
      by (rule exI [of _ h], rule exI [of _ t'], rule exI [of _ u], intro conjI) (fact ih steps [OF ih(2)])+
  next
    case (Halted h t)
    have star: "?R\<^sup>*\<^sup>* s b \<longleftrightarrow> b = s" for b using Halted by (auto elim: converse_rtranclpE)
    have main: "cmd_main os s = (h, t)" using Halted by (simp add: cmd_main.simps [of os s])
    have "h = Exit 0 \<longleftrightarrow> quits s" using cmd_step_Halted [OF Halted] cmd_step_quits [of s os] Halted by auto
    then have quit: "h = Exit 0 \<longleftrightarrow> (\<exists>b. b = s \<and> quits b)" by blast
    have empty: "c_stdin s = [] \<longrightarrow> h = Exit (-1)" using cmd_step_end [of s os] Halted by simp
    have how: "h = Exit 0 \<or> h = Exit (-1) \<and> (c_stdin s = [] \<or> os_socket os < 0) \<or> h = SegFault \<or> h = Undef"
      using cmd_step_Halted [OF Halted] by blast
    show ?thesis unfolding star
      by (rule exI [of _ h], rule exI [of _ t], rule exI [of _ s], intro conjI) (fact main refl Halted quit empty how)+
  qed
qed

theorem client_ends_witness:
  "fst (cmd_main sample_os \<lparr>c_stdin = ''exit now'' @ [NL], cmd_args = [], c_out = []\<rparr>) = Exit 0"
proof -
  let ?s = "\<lparr>c_stdin = ''exit now'' @ [NL], cmd_args = [], c_out = []\<rparr>"
  have "quits ?s"
    by (simp add: quits_def read_command_def fgets_def parse_line_def isspace_def store_arg_def quit_word_def tolower_def
        strncmp_eq_def Let_def numeral_eq_Suc)
  then show ?thesis using client_ends [of sample_os ?s] by auto
qed

end
