(* ===== verification/Spec2Isabelle.thy ===== *)
theory Spec2Isabelle
  imports SystemClaims RefineClaims TManagerClaims TWorkerClaims BaseClaims
begin

text \<open>
  \<^bold>\<open>A verification library of the A2 transaction manager.\<close>

  \<^bold>\<open>The program.\<close> A distributed transaction system with two-phase commit over UDP, in C. One
  transaction manager (\<^verbatim>\<open>src/tmanager.c\<close>) coordinates the transactions of up to ten workers
  each; it keeps a table of four transactions and a log. A worker (\<^verbatim>\<open>src/tworker.c\<close>) keeps an
  object store and an undo log; its main thread obeys commands, and for each transaction a
  second thread (\<^verbatim>\<open>src/tx_worker_thread.c\<close>) talks to the manager. A command line client
  (\<^verbatim>\<open>src/command.c\<close>) turns lines of text into commands for workers. Below these are vector
  clocks (\<^verbatim>\<open>src/common.c\<close>), messages (\<^verbatim>\<open>src/msg.c\<close>), datagrams (\<^verbatim>\<open>src/server.c\<close>), the log
  (\<^verbatim>\<open>src/txlog.c\<close>), the object store (\<^verbatim>\<open>src/objstore.c\<close>) and the event log for ShiViz
  (\<^verbatim>\<open>src/shitviz.c\<close>). \<^verbatim>\<open>src/dumpObject.c\<close> and \<^verbatim>\<open>src/txlog_dump.c\<close> print files.

  A client sends a begin or join command to a worker, the worker opens a socket for the
  transaction and sends the request on to the manager; updates go to the worker alone, which
  logs the old values first. A commit command is passed to the manager, which asks all workers
  to prepare. A worker logs PREPARED, votes and is uncertain; the manager counts the votes,
  logs the commit and tells all workers; a worker that hears nothing asks again. A manager that
  starts on an old log aborts what was not decided; a worker that starts on an old log rolls
  back or resumes waiting, by the last entry of its log.

  \<^bold>\<open>How it is modelled.\<close>

  \<^item> Structs are records, enums are datatypes with a code, 32 bit integers are words. Arrays are
    lists of the size of the array.
  \<^item> A handler maps a state to an \<open>outcome\<close>: \<open>Running s\<close>, or \<open>Halted h s\<close> with the reason
    \<open>h\<close> (an exit code, a failed assertion, an access to unmapped memory, undefined behaviour) and the state
    the process leaves; its files are part of the state. \<open>bnd\<close> and \<open>attempt\<close> sequence handlers
    in the way the source's early exits do.
  \<^item> What the operating system answers is the record \<open>os_t\<close>, an argument of every step, so
    each step may meet different failures. What a receive meets is a \<open>recv_event\<close>.
  \<^item> A step of the manager is an iteration of its loop (\<open>tm_step\<close>), a step of a worker an
    iteration of one of its threads (\<open>wk_step\<close>). Runs are sequences of steps
    (\<open>run_machine\<close>); the system with crashes, restarts and the network is the relation
    \<open>sys_step\<close>.
  \<^item> The counters of a log have 32 bits, its indices are \<^verbatim>\<open>int\<close>. Invariants carry a budget:
    \<open>log_room n\<close> says that \<open>n\<close> more entries fit below \<open>2 ^ 31\<close>. A step logs at most one
    entry, so a budget of the length of the run is enough. There is no other bound and no fuel:
    every loop of the program that ends is a terminating recursion, and the endless loops are
    given by their iterations.

  \<^bold>\<open>The theories.\<close>

  \<^item> \<open>Prelude\<close>: words and byte order, outcomes and their Hoare triples (\<open>ensures\<close>), C strings,
    searches; the locales \<open>guarded_machine\<close> (a step invariant holds in runs) and \<open>simulation\<close>
    (a step-wise refinement holds for runs).
  \<^item> \<open>VClock\<close> (\<^verbatim>\<open>common.c\<close>): the clock operations, and the clock as a map (\<open>clock_iface\<close>).
    \<open>CText\<close>: the conversions of the C library. \<open>TxEntry\<close>, \<open>TxLog\<close> (\<^verbatim>\<open>txlog.c\<close>): the log
    file and the list it stands for (\<open>log_iface\<close>). \<open>Msg\<close> (\<^verbatim>\<open>msg.c\<close>): messages (\<open>codec\<close>).
    \<open>Server\<close> (\<^verbatim>\<open>server.c\<close>), \<open>ShiViz\<close> (\<^verbatim>\<open>shitviz.c\<close>), \<open>ObjStore\<close> (\<^verbatim>\<open>objstore.c\<close>;
    \<open>store_iface\<close>), \<open>Command\<close> (\<^verbatim>\<open>command.c\<close>), \<open>Dumps\<close> (\<^verbatim>\<open>dumpObject.c\<close>,
    \<^verbatim>\<open>txlog_dump.c\<close>).
  \<^item> \<open>TManager\<close>: the manager, \<^verbatim>\<open>main\<close> and one definition per message. \<open>TManagerProps\<close>: the
    locale \<open>discipline\<close>, which lifts a property of a slot and the history of its transaction
    through every handler; \<open>TManagerDisc\<close> has its two instances: the table agrees with the log,
    and no transaction is decided twice. \<open>TManagerStart\<close>: the repair of the log, and logs over
    many lives. \<open>TManagerDecide\<close>: what is sent and logged when nothing fails. \<open>Coord\<close>: the
    manager refines a coordinator that opens and decides each transaction once.
  \<^item> \<open>TWorker\<close>: the worker, both threads. \<open>TWorkerUndo\<close>: rolling back, and the values a worker
    would be rolled back to, through every handler. \<open>TWorkerLive\<close>: what is sent and logged when
    nothing fails. \<open>Shadow\<close>: the worker refines an object with a shadow copy, with every
    iteration atomic across crashes.
  \<^item> \<open>MgrTalk\<close>, \<open>WkTalk\<close>: what the datagrams of the two programs may be trusted for.
    \<open>System\<close>: the manager, the workers and a network that loses, repeats, delays and reorders;
    the invariant of the whole. \<open>Round\<close>: a round of two-phase commit, put together from the
    steps of the processes. \<open>Recover\<close>: the end of a worker's wait when the manager comes back.
  \<^item> \<open>Samples\<close> and the theories whose names end in \<open>Claims\<close>: the properties, each with a concrete
    instance: \<open>SystemClaims\<close> (agreement of logs, completion of a round, recovery of a blocked worker), \<open>RefineClaims\<close> (the two
    refinements), \<open>TManagerClaims\<close>, \<open>TWorkerClaims\<close> (the handlers, crashes and recovery, error
    paths, and the defects that the side conditions exclude),
    \<open>BaseClaims\<close> (clocks, messages, log, client, dumps).

  \<^bold>\<open>Hypotheses.\<close> In the system, \<open>ip k\<close> is the host of worker \<open>k\<close>, and the parameters \<open>opens\<close> and
  \<open>boots\<close> of \<open>sys_step\<close> say what the environment of a worker may do. The relation itself is
  closed: the sockets of the transaction threads hear the manager only, and the manager hears
  these sockets only. That a commit in a worker's log is one of the manager needs two conditions,
  assumptions of that property: \<open>fresh_sockets own ip opens\<close>, that an address at which \<^verbatim>\<open>bind\<close> gives
  a worker a socket for a transaction is used for no other one (\<open>own\<close> is the transaction of an
  address; the code does not ensure this, and since it does not compare the id in a decision
  with its own, a delayed datagram to a reused port would be obeyed: a property shows it), and
  \<open>clean_boots boots\<close>, that a worker starts with its uninitialised flags clear (a finding). The
  runs that complete a round or end a wait hold for any such environment. Strings that arrive
  end within their buffer, where a property says so. That no transaction is both committed and
  aborted needs disciplined requests: begin and abort requests and votes name ids other than
  0, nobody asks to commit what is decided, and nobody asks to abort what is committed. The
  manager checks none of this, and properties show what happens then.

  \<^bold>\<open>Not modelled.\<close> The progress messages that \<^verbatim>\<open>printf\<close> writes to the terminal, \<^verbatim>\<open>sleep\<close>, and
  the interleaving of a worker's threads within an iteration (they share their state without
  locks; the model interleaves whole iterations). The log file is a header and a list of entry
  slots, not bytes; \<^verbatim>\<open>lseek\<close> and \<^verbatim>\<open>write\<close> into it, whose results the code ignores, succeed.
  The build file, the documents and the recorded traces have no program logic.

  The arguments \<^verbatim>\<open>argv\<close> hold at least the name of the program.

  \<^bold>\<open>Next.\<close> The round in which a worker votes to abort, as a run of the system; the bytes of the
  log file.
\<close>

end
